(* ===== verification/Go_Prelude.thy ===== *)
theory Go_Prelude
  imports Main "HOL-Library.List_Lexorder" "HOL-Library.Char_ord" "HOL-Library.AList"
begin

text \<open>
  Shared vocabulary of the development: the collections of simplification rules, Go's fixed
  width integers (\<open>int\<close> with the wrap-around or the saturation of the Go runtime written
  out), Go maps as association lists with distinct keys, and the generic list facts the
  component theories use.
\<close>

named_theorems gomap_simps \<open>lookup, update and size laws of Go maps\<close>
named_theorems err_simps \<open>evaluation of error chains and status conversions\<close>
named_theorems repo_simps \<open>unfolding of the repository operations\<close>

section \<open>Integers and durations\<close>

text \<open>Two's complement wrap-around of an \<open>int64\<close>.\<close>

definition wrap64 :: "int \<Rightarrow> int" where
  "wrap64 x = (x + 2 ^ 63) mod 2 ^ 64 - 2 ^ 63"

definition in_int64 :: "int \<Rightarrow> bool" where
  "in_int64 x \<longleftrightarrow> - (2 ^ 63) \<le> x \<and> x < 2 ^ 63"

definition in_int32 :: "int \<Rightarrow> bool" where
  "in_int32 x \<longleftrightarrow> - (2 ^ 31) \<le> x \<and> x < 2 ^ 31"

text \<open>The saturation of \<open>time.Time.Sub\<close> (the extreme durations instead of overflow).\<close>

definition sat64 :: "int \<Rightarrow> int" where
  "sat64 x = (if x < - (2 ^ 63) then - (2 ^ 63) else if x \<ge> 2 ^ 63 then 2 ^ 63 - 1 else x)"

text \<open>Go's division truncates towards zero.\<close>

definition go_div :: "int \<Rightarrow> int \<Rightarrow> int" where
  "go_div a b = (if (a < 0) = (b < 0) then \<bar>a\<bar> div \<bar>b\<bar> else - (\<bar>a\<bar> div \<bar>b\<bar>))"

text \<open>\<open>1 << n\<close> at type \<open>int64\<close>: shifts of 64 and more give 0, a shift by 63 the sign bit.\<close>

definition shl1 :: "nat \<Rightarrow> int" where
  "shl1 n = (if n \<ge> 64 then 0 else wrap64 (2 ^ n))"

abbreviation millisecond :: int where "millisecond \<equiv> 1000000"
abbreviation second :: int where "second \<equiv> 1000000000"
abbreviation minute :: int where "minute \<equiv> 60000000000"

lemma wrap64_range: "in_int64 (wrap64 x)"
proof -
  have "0 \<le> (x + 2 ^ 63) mod 2 ^ 64" "(x + 2 ^ 63) mod 2 ^ 64 < 2 ^ 64"
    by simp_all
  then show ?thesis by (simp add: wrap64_def in_int64_def)
qed

lemma wrap64_id [simp]: "in_int64 x \<Longrightarrow> wrap64 x = x"
  by (simp add: wrap64_def in_int64_def)

lemma sat64_range: "in_int64 (sat64 x)"
  by (simp add: sat64_def in_int64_def)

lemma sat64_id [simp]: "in_int64 x \<Longrightarrow> sat64 x = x"
  by (simp add: sat64_def in_int64_def)

lemma go_div_pos: "0 \<le> a \<Longrightarrow> 0 < b \<Longrightarrow> go_div a b = a div b"
  by (simp add: go_div_def)

section \<open>Go maps\<close>

text \<open>
  A Go map is an association list with distinct keys; the list order carries no meaning for
  the program (loops that range over a map take their order from the environment).
\<close>

type_synonym ('k, 'v) gomap = "('k \<times> 'v) list"

abbreviation keys :: "('k, 'v) gomap \<Rightarrow> 'k list" where
  "keys m \<equiv> map fst m"

abbreviation gomap_ok :: "('k, 'v) gomap \<Rightarrow> bool" where
  "gomap_ok m \<equiv> distinct (map fst m)"

abbreviation mget :: "('k, 'v) gomap \<Rightarrow> 'k \<Rightarrow> 'v option" where
  "mget m k \<equiv> map_of m k"

abbreviation mput :: "'k \<Rightarrow> 'v \<Rightarrow> ('k, 'v) gomap \<Rightarrow> ('k, 'v) gomap" where
  "mput k v m \<equiv> AList.update k v m"

abbreviation mdel :: "'k \<Rightarrow> ('k, 'v) gomap \<Rightarrow> ('k, 'v) gomap" where
  "mdel k m \<equiv> AList.delete k m"

text \<open>A missing key reads as the zero value of the element type.\<close>

definition mget_or :: "'v \<Rightarrow> ('k, 'v) gomap \<Rightarrow> 'k \<Rightarrow> 'v" where
  "mget_or z m k = (case mget m k of None \<Rightarrow> z | Some v \<Rightarrow> v)"

lemma mget_mput [gomap_simps]: "mget (mput k v m) = (mget m)(k \<mapsto> v)"
  by (rule update_conv')

lemma mget_mdel [gomap_simps]: "mget (mdel k m) = (mget m)(k := None)"
  by (rule delete_conv')

lemma gomap_ok_mput [simp, intro]: "gomap_ok m \<Longrightarrow> gomap_ok (mput k v m)"
  by (rule distinct_update)

lemma gomap_ok_mdel [simp, intro]: "gomap_ok m \<Longrightarrow> gomap_ok (mdel k m)"
  by (rule distinct_delete)

lemma length_mput [gomap_simps]:
  "length (mput k v m) = (if k \<in> fst ` set m then length m else Suc (length m))"
  by (induction m) auto

lemma length_mdel_le [simp]: "length (mdel k m) \<le> length m"
  by (rule length_delete_le)

lemma mdel_absent: "k \<notin> fst ` set m \<Longrightarrow> mdel k m = m"
  by (induction m) auto

lemma length_mdel [gomap_simps]:
  "gomap_ok m \<Longrightarrow> length (mdel k m) = (if k \<in> fst ` set m then length m - 1 else length m)"
proof (induction m)
  case Nil
  then show ?case by simp
next
  case (Cons p m)
  show ?case
  proof (cases "fst p = k")
    case True
    with Cons.prems have "k \<notin> fst ` set m" by auto
    with True show ?thesis by (cases p) (simp add: mdel_absent)
  next
    case False
    have len: "Suc (length m - Suc 0) = length m" if "k \<in> fst ` set m" using that by (cases m) auto
    from False Cons len show ?thesis by (cases p) auto
  qed
qed

lemma keys_mput [gomap_simps]: "fst ` set (mput k v m) = insert k (fst ` set m)"
  by (induction m) auto

lemma keys_mdel [gomap_simps]: "fst ` set (mdel k m) = fst ` set m - {k}"
  by (induction m) auto

lemma mget_None_iff [simp]: "(mget m k = None) = (k \<notin> fst ` set m)"
  by (simp add: map_of_eq_None_iff)

lemma mget_SomeD: "mget m k = Some v \<Longrightarrow> k \<in> fst ` set m"
  by (metis mget_None_iff option.discI)

lemma card_keys [gomap_simps]: "gomap_ok m \<Longrightarrow> card (fst ` set m) = length m"
  by (metis distinct_card length_map set_map)

lemma card_dom_mget: "gomap_ok m \<Longrightarrow> card (dom (mget m)) = length m"
  by (simp add: dom_map_of_conv_image_fst card_keys)

lemma sort_distinct: "distinct xs \<Longrightarrow> sort xs = sorted_list_of_set (set xs)"
  by (simp add: sorted_list_of_set_sort_remdups distinct_remdups_id)

declare map_of_eq_Some_iff [simp del] Some_eq_map_of_iff [simp del]

end
