(* ===== verification/Go_Strings.thy ===== *)
theory Go_Strings
  imports Go_Prelude
begin

text \<open>
  The parts of Go's standard library the service uses on strings: \<open>strings\<close>
  (\<open>TrimSpace\<close>, \<open>Fields\<close>, \<open>Split\<close>, \<open>HasPrefix\<close>, \<open>HasSuffix\<close>, \<open>Contains\<close>, \<open>Index\<close>,
  \<open>LastIndex\<close>), \<open>strconv.ParseInt\<close>, \<open>encoding/hex\<close> and
  \<open>encoding/base64.RawURLEncoding\<close>. A Go string is its byte sequence, one HOL
  character per byte, so \<open>length\<close> is Go's \<open>len\<close> and \<open><\<close> is Go's bytewise order.
\<close>

section \<open>White space\<close>

text \<open>
  \<open>unicode.IsSpace\<close> on the UTF-8 encodings: one byte (tab, newline, vertical tab, form
  feed, carriage return, blank), two bytes (U+0085, U+00A0) or three bytes (U+1680,
  U+2000 to U+200A, U+2028, U+2029, U+202F, U+205F, U+3000). No encoding of a space occurs
  inside the encoding of another rune, so matching bytes agrees with decoding runes.
\<close>

definition is_space1 :: "char \<Rightarrow> bool" where
  "is_space1 c \<longleftrightarrow> c \<in> {CHR 0x09, CHR 0x0A, CHR 0x0B, CHR 0x0C, CHR 0x0D, CHR 0x20}"

definition is_space2 :: "char \<Rightarrow> char \<Rightarrow> bool" where
  "is_space2 a b \<longleftrightarrow> a = CHR 0xC2 \<and> (b = CHR 0x85 \<or> b = CHR 0xA0)"

definition is_space3 :: "char \<Rightarrow> char \<Rightarrow> char \<Rightarrow> bool" where
  "is_space3 a b c \<longleftrightarrow>
     (a = CHR 0xE1 \<and> b = CHR 0x9A \<and> c = CHR 0x80) \<or>
     (a = CHR 0xE2 \<and> b = CHR 0x80 \<and>
        (CHR 0x80 \<le> c \<and> c \<le> CHR 0x8A \<or> c = CHR 0xA8 \<or> c = CHR 0xA9 \<or> c = CHR 0xAF)) \<or>
     (a = CHR 0xE2 \<and> b = CHR 0x81 \<and> c = CHR 0x9F) \<or>
     (a = CHR 0xE3 \<and> b = CHR 0x80 \<and> c = CHR 0x80)"

fun trim_with ::
  "(char \<Rightarrow> bool) \<Rightarrow> (char \<Rightarrow> char \<Rightarrow> bool) \<Rightarrow> (char \<Rightarrow> char \<Rightarrow> char \<Rightarrow> bool) \<Rightarrow> string \<Rightarrow> string" where
  "trim_with p1 p2 p3 [] = []"
| "trim_with p1 p2 p3 (a # s) =
     (if p1 a then trim_with p1 p2 p3 s
      else case s of
        [] \<Rightarrow> a # s
      | b # t \<Rightarrow>
          if p2 a b then trim_with p1 p2 p3 t
          else case t of
            [] \<Rightarrow> a # s
          | c # u \<Rightarrow> if p3 a b c then trim_with p1 p2 p3 u else a # s)"

definition TrimLeftSpace :: "string \<Rightarrow> string" where
  "TrimLeftSpace = trim_with is_space1 is_space2 is_space3"

definition TrimRightSpace :: "string \<Rightarrow> string" where
  "TrimRightSpace s = rev (trim_with is_space1 (\<lambda>a b. is_space2 b a) (\<lambda>a b c. is_space3 c b a) (rev s))"

definition TrimSpace :: "string \<Rightarrow> string" where
  "TrimSpace s = TrimRightSpace (TrimLeftSpace s)"

text \<open>\<open>strings.TrimSpace(s) == ""\<close>, the test the handlers use.\<close>

abbreviation blank :: "string \<Rightarrow> bool" where
  "blank s \<equiv> TrimSpace s = []"

fun fields_aux :: "string \<Rightarrow> string \<Rightarrow> string list" where
  "fields_aux cur [] = (if cur = [] then [] else [rev cur])"
| "fields_aux cur (a # s) =
     (let flush = (if cur = [] then [] else [rev cur]) in
      if is_space1 a then flush @ fields_aux [] s
      else case s of
        [] \<Rightarrow> fields_aux (a # cur) s
      | b # t \<Rightarrow>
          if is_space2 a b then flush @ fields_aux [] t
          else case t of
            [] \<Rightarrow> fields_aux (a # cur) s
          | c # u \<Rightarrow> if is_space3 a b c then flush @ fields_aux [] u else fields_aux (a # cur) s)"

definition Fields :: "string \<Rightarrow> string list" where
  "Fields s = fields_aux [] s"

section \<open>Searching and splitting\<close>

definition HasPrefix :: "string \<Rightarrow> string \<Rightarrow> bool" where
  "HasPrefix s p \<longleftrightarrow> take (length p) s = p"

definition HasSuffix :: "string \<Rightarrow> string \<Rightarrow> bool" where
  "HasSuffix s p \<longleftrightarrow> length p \<le> length s \<and> drop (length s - length p) s = p"

definition TrimSuffix :: "string \<Rightarrow> string \<Rightarrow> string" where
  "TrimSuffix s p = (if HasSuffix s p then take (length s - length p) s else s)"

fun Contains :: "string \<Rightarrow> string \<Rightarrow> bool" where
  "Contains [] p = (p = [])"
| "Contains (a # s) p = (HasPrefix (a # s) p \<or> Contains s p)"

definition ContainsAny :: "string \<Rightarrow> string \<Rightarrow> bool" where
  "ContainsAny s cs \<longleftrightarrow> list_ex (\<lambda>c. c \<in> set cs) s"

text \<open>\<open>strings.Split\<close> at a one-byte separator.\<close>

fun Split :: "char \<Rightarrow> string \<Rightarrow> string list" where
  "Split sep [] = [[]]"
| "Split sep (a # s) =
     (if a = sep then [] # Split sep s
      else case Split sep s of [] \<Rightarrow> [[a]] | w # ws \<Rightarrow> (a # w) # ws)"

text \<open>\<open>strings.Index\<close> of a one-byte string (\<open>None\<close> for -1), and the text after the last one.\<close>

fun IndexByte :: "char \<Rightarrow> string \<Rightarrow> nat option" where
  "IndexByte c [] = None"
| "IndexByte c (a # s) = (if a = c then Some 0 else map_option Suc (IndexByte c s))"

definition after_last :: "char \<Rightarrow> string \<Rightarrow> string" where
  "after_last c s = last (Split c s)"

section \<open>Case folding\<close>

text \<open>ASCII lower case of one byte.\<close>

definition lower_byte :: "char \<Rightarrow> char" where
  "lower_byte c = (if CHR ''A'' \<le> c \<and> c \<le> CHR ''Z'' then char_of (of_char c + 32 :: nat) else c)"

text \<open>
  \<open>strings.ToLower\<close> as far as it can produce ASCII bytes: the ASCII letters, and the two
  other runes whose lower case is ASCII, U+0130 (to \<open>i\<close>) and U+212A (to \<open>k\<close>). Every other
  rune keeps a non-ASCII lower case and is left as it is; the callers compare the result
  with ASCII words only.
\<close>

fun ToLower :: "string \<Rightarrow> string" where
  "ToLower [] = []"
| "ToLower (a # s) =
     (case s of
        [] \<Rightarrow> lower_byte a # ToLower s
      | b # t \<Rightarrow>
          if a = CHR 0xC4 \<and> b = CHR 0xB0 then CHR ''i'' # ToLower t
          else case t of
            [] \<Rightarrow> lower_byte a # ToLower s
          | c # u \<Rightarrow>
              if a = CHR 0xE2 \<and> b = CHR 0x84 \<and> c = CHR 0xAA then CHR ''k'' # ToLower u
              else lower_byte a # ToLower s)"

text \<open>
  \<open>strings.EqualFold(s, t)\<close> for an ASCII \<open>t\<close> without the letters \<open>k\<close> and \<open>s\<close> (the only ones
  that fold with a non-ASCII rune).
\<close>

definition EqualFold_ascii :: "string \<Rightarrow> string \<Rightarrow> bool" where
  "EqualFold_ascii s t \<longleftrightarrow> map lower_byte s = map lower_byte t"

section \<open>Numbers\<close>

definition digit_val :: "char \<Rightarrow> nat option" where
  "digit_val c = (if CHR ''0'' \<le> c \<and> c \<le> CHR ''9'' then Some (of_char c - 48) else None)"

fun digits_val :: "nat \<Rightarrow> string \<Rightarrow> nat option" where
  "digits_val acc [] = Some acc"
| "digits_val acc (c # s) =
     (case digit_val c of None \<Rightarrow> None | Some d \<Rightarrow> digits_val (10 * acc + d) s)"

text \<open>\<open>strconv.ParseInt(s, 10, 64)\<close> and \<open>strconv.Atoi\<close>: \<open>None\<close> is the syntax or range error.\<close>

definition ParseInt :: "string \<Rightarrow> int option" where
  "ParseInt s =
     (let (neg, ds) =
        (case s of
           [] \<Rightarrow> (False, [])
         | c # r \<Rightarrow> if c = CHR ''-'' then (True, r) else if c = CHR ''+'' then (False, r) else (False, s))
      in if ds = [] then None
         else case digits_val 0 ds of
           None \<Rightarrow> None
         | Some n \<Rightarrow>
             let v = (if neg then - int n else int n)
             in if in_int64 v then Some v else None)"

text \<open>\<open>fmt.Sprintf("%d", n)\<close> for a natural number.\<close>

fun show_nat :: "nat \<Rightarrow> string" where
  "show_nat n =
     (if n < 10 then [char_of (48 + n)] else show_nat (n div 10) @ [char_of (48 + n mod 10)])"

declare show_nat.simps [simp del]

text \<open>\<open>%d\<close> of an integer, and \<open>%q\<close> of a text without characters that need escaping.\<close>

definition show_int :: "int \<Rightarrow> string" where
  "show_int n = (if n < 0 then ''-'' @ show_nat (nat (- n)) else show_nat (nat n))"

definition quote :: "string \<Rightarrow> string" where
  "quote s = [CHR 0x22] @ s @ [CHR 0x22]"

section \<open>Hexadecimal\<close>

definition hex_digit :: "nat \<Rightarrow> char" where
  "hex_digit n = (if n < 10 then char_of (48 + n) else char_of (87 + n))"

definition hex_encode :: "string \<Rightarrow> string" where
  "hex_encode bs = concat (map (\<lambda>b. [hex_digit (of_char b div 16), hex_digit (of_char b mod 16)]) bs)"

section \<open>Base64, URL alphabet, no padding\<close>

definition b64_char :: "nat \<Rightarrow> char" where
  "b64_char n =
     (if n < 26 then char_of (65 + n)
      else if n < 52 then char_of (71 + n)
      else if n < 62 then char_of (n - 4)
      else if n = 62 then CHR ''-'' else CHR ''_'')"

definition b64_val :: "char \<Rightarrow> nat option" where
  "b64_val c =
     (if CHR ''A'' \<le> c \<and> c \<le> CHR ''Z'' then Some (of_char c - 65)
      else if CHR ''a'' \<le> c \<and> c \<le> CHR ''z'' then Some (of_char c - 71)
      else if CHR ''0'' \<le> c \<and> c \<le> CHR ''9'' then Some (of_char c + 4)
      else if c = CHR ''-'' then Some 62
      else if c = CHR ''_'' then Some 63
      else None)"

fun b64_sextets :: "nat list \<Rightarrow> nat list" where
  "b64_sextets [] = []"
| "b64_sextets [a] = [a div 4, a mod 4 * 16]"
| "b64_sextets [a, b] = [a div 4, a mod 4 * 16 + b div 16, b mod 16 * 4]"
| "b64_sextets (a # b # c # r) =
     [a div 4, a mod 4 * 16 + b div 16, b mod 16 * 4 + c div 64, c mod 64] @ b64_sextets r"

definition b64_encode :: "string \<Rightarrow> string" where
  "b64_encode s = map b64_char (b64_sextets (map of_char s))"

text \<open>
  Decoding takes the sextets four at a time; a rest of two or three gives one or two bytes
  (the unused low bits are ignored: the decoder is not strict), a rest of one is an error.
\<close>

fun b64_octets :: "nat list \<Rightarrow> nat list option" where
  "b64_octets [] = Some []"
| "b64_octets [w] = None"
| "b64_octets [w, x] = Some [w * 4 + x div 16]"
| "b64_octets [w, x, y] = Some [w * 4 + x div 16, x mod 16 * 16 + y div 4]"
| "b64_octets (w # x # y # z # r) =
     map_option (\<lambda>bs. [w * 4 + x div 16, x mod 16 * 16 + y div 4, y mod 4 * 64 + z] @ bs)
       (b64_octets r)"

text \<open>\<open>DecodeString\<close> skips carriage returns and newlines and fails on any other byte outside
  the alphabet.\<close>

definition b64_decode :: "string \<Rightarrow> string option" where
  "b64_decode s =
     (let t = filter (\<lambda>c. c \<noteq> CHR 0x0A \<and> c \<noteq> CHR 0x0D) s;
          vs = map b64_val t
      in if None \<in> set vs then None
         else map_option (map char_of) (b64_octets (map the vs)))"

section \<open>Facts about the string functions\<close>

declare trim_with.simps(2) [simp del]

lemma length_trim_with: "length (trim_with p1 p2 p3 s) \<le> length s"
proof (induction p1 p2 p3 s rule: trim_with.induct)
  case (2 p1 p2 p3 a s)
  then show ?case by (auto simp: trim_with.simps(2) [of p1 p2 p3 a s] le_SucI split: list.split)
qed simp

lemma length_TrimSpace: "length (TrimSpace s) \<le> length s"
  unfolding TrimSpace_def TrimRightSpace_def TrimLeftSpace_def
  by (metis length_rev length_trim_with order_trans)

lemma blank_Nil [simp]: "blank []"
  by (simp add: TrimSpace_def TrimRightSpace_def TrimLeftSpace_def)

lemma Split_nonempty [simp]: "Split c s \<noteq> []"
  by (induction s) (auto split: list.splits)

lemma Split_parts: "w \<in> set (Split c s) \<Longrightarrow> c \<notin> set w"
  by (induction s arbitrary: w) (auto split: list.splits if_splits)

text \<open>Joining the parts with the separator gives the string back.\<close>

fun join_with :: "char \<Rightarrow> string list \<Rightarrow> string" where
  "join_with c [] = []"
| "join_with c [w] = w"
| "join_with c (w # ws) = w @ c # join_with c ws"

lemma join_with_Cons: "ws \<noteq> [] \<Longrightarrow> join_with c (w # ws) = w @ c # join_with c ws"
  by (cases ws) auto

lemma join_Split: "join_with c (Split c s) = s"
proof (induction s)
  case Nil
  then show ?case by simp
next
  case (Cons a s)
  show ?case
  proof (cases "a = c")
    case True
    with Cons show ?thesis by (simp add: join_with_Cons)
  next
    case False
    obtain w ws where "Split c s = w # ws" by (cases "Split c s") auto
    with Cons False show ?thesis by (cases ws) auto
  qed
qed

lemma hex_encode_length [simp]: "length (hex_encode bs) = 2 * length bs"
  by (induction bs) (simp_all add: hex_encode_def)

section \<open>Base64 round trip\<close>

lemma b64_val_char: "n < 64 \<Longrightarrow> b64_val (b64_char n) = Some n"
  by (auto simp: b64_val_def b64_char_def less_eq_char_def)

lemma b64_char_plain: "n < 64 \<Longrightarrow> b64_char n \<noteq> CHR 0x0A \<and> b64_char n \<noteq> CHR 0x0D"
  using b64_val_char [of n] by (auto simp: b64_val_def)

lemma b64_sextets_range: "\<forall>b \<in> set bs. b < 256 \<Longrightarrow> \<forall>v \<in> set (b64_sextets bs). v < 64"
  by (induction bs rule: b64_sextets.induct) auto

lemma b64_octets_sextets: "\<forall>b \<in> set bs. b < 256 \<Longrightarrow> b64_octets (b64_sextets bs) = Some bs"
proof (induction bs rule: b64_sextets.induct)
  case (4 a b c r)
  then have IH: "b64_octets (b64_sextets r) = Some r" by simp
  from "4.prems" have "b div 16 < 16" "c div 64 < 4" by (simp_all add: less_mult_imp_div_less)
  with IH show ?case by (simp add: mult.commute)
next
  case (3 a b)
  then have "b div 16 < 16" by (simp add: less_mult_imp_div_less)
  then show ?case by (simp add: mult.commute)
qed simp_all

theorem b64_roundtrip: "b64_decode (b64_encode s) = Some s"
proof -
  let ?vs = "b64_sextets (map of_char s) :: nat list"
  have lt: "\<forall>b \<in> set (map of_char s). b < (256::nat)"
    by auto
  have small: "\<forall>v \<in> set ?vs. v < 64" by (rule b64_sextets_range [OF lt])
  then have plain: "filter (\<lambda>c. c \<noteq> CHR 0x0A \<and> c \<noteq> CHR 0x0D) (map b64_char ?vs) = map b64_char ?vs"
    by (auto simp: filter_id_conv b64_char_plain)
  from small have vals: "map b64_val (map b64_char ?vs) = map Some ?vs"
    by (auto simp: b64_val_char)
  have "None \<notin> set (map Some ?vs)" "map the (map Some ?vs) = ?vs"
    by (auto simp: comp_def)
  then show ?thesis
    using b64_octets_sextets [OF lt]
    by (simp only: b64_decode_def b64_encode_def Let_def plain vals) (simp add: comp_def)
qed

end
