(* ===== verification/App_Errors.thy ===== *)
theory App_Errors
  imports Go_Strings
begin

text \<open>
  Errors as values: the sentinel errors of \<open>internal/storage/storage.go\<close>, the application
  errors of \<open>pkg/errors/errors.go\<close> with their conversion to a gRPC status, the wrapping of
  \<open>fmt.Errorf("...: %w", err)\<close> and the chain walks \<open>errors.Is\<close> and \<open>errors.As\<close>, and the
  status classification of \<open>google.golang.org/grpc/status\<close>. A nil error is \<open>None\<close>.
\<close>

section \<open>Status codes and application errors\<close>

datatype code =
    OK | Canceled | Unknown | InvalidArgument | DeadlineExceeded | NotFound | AlreadyExists
  | PermissionDenied | ResourceExhausted | FailedPrecondition | Aborted | OutOfRange
  | Unimplemented | Internal | Unavailable | DataLoss | Unauthenticated

primrec code_String :: "code \<Rightarrow> string" where
  "code_String OK = ''OK''"
| "code_String Canceled = ''Canceled''"
| "code_String Unknown = ''Unknown''"
| "code_String InvalidArgument = ''InvalidArgument''"
| "code_String DeadlineExceeded = ''DeadlineExceeded''"
| "code_String NotFound = ''NotFound''"
| "code_String AlreadyExists = ''AlreadyExists''"
| "code_String PermissionDenied = ''PermissionDenied''"
| "code_String ResourceExhausted = ''ResourceExhausted''"
| "code_String FailedPrecondition = ''FailedPrecondition''"
| "code_String Aborted = ''Aborted''"
| "code_String OutOfRange = ''OutOfRange''"
| "code_String Unimplemented = ''Unimplemented''"
| "code_String Internal = ''Internal''"
| "code_String Unavailable = ''Unavailable''"
| "code_String DataLoss = ''DataLoss''"
| "code_String Unauthenticated = ''Unauthenticated''"

record FieldViolation =
  fv_Field :: string
  fv_Description :: string

record AppError =
  ae_Code :: code
  ae_Message :: string
  ae_Reason :: string
  ae_Metadata :: "(string, string) gomap option"
  ae_FieldViolations :: "FieldViolation list"

definition mkAppError :: "code \<Rightarrow> string \<Rightarrow> AppError" where
  "mkAppError c msg =
     \<lparr>ae_Code = c, ae_Message = msg, ae_Reason = [], ae_Metadata = None, ae_FieldViolations = []\<rparr>"

definition WithReason :: "string \<Rightarrow> AppError \<Rightarrow> AppError" where
  "WithReason reason e = e\<lparr>ae_Reason := reason\<rparr>"

definition WithMetadata :: "string \<Rightarrow> string \<Rightarrow> AppError \<Rightarrow> AppError" where
  "WithMetadata key val e =
     e\<lparr>ae_Metadata := Some (mput key val (case ae_Metadata e of None \<Rightarrow> [] | Some m \<Rightarrow> m))\<rparr>"

definition WithField :: "string \<Rightarrow> string \<Rightarrow> AppError \<Rightarrow> AppError" where
  "WithField field description e =
     e\<lparr>ae_FieldViolations :=
        ae_FieldViolations e @ [\<lparr>fv_Field = field, fv_Description = description\<rparr>]\<rparr>"

definition appErrInvalidArgument :: "string \<Rightarrow> AppError" where
  "appErrInvalidArgument msg = mkAppError InvalidArgument msg"

definition appErrNotFound :: "string \<Rightarrow> AppError" where
  "appErrNotFound msg = mkAppError NotFound msg"

definition appErrAlreadyExists :: "string \<Rightarrow> AppError" where
  "appErrAlreadyExists msg = mkAppError AlreadyExists msg"

definition appErrUnauthenticated :: "string \<Rightarrow> AppError" where
  "appErrUnauthenticated msg = mkAppError Unauthenticated msg"

definition appErrPermissionDenied :: "string \<Rightarrow> AppError" where
  "appErrPermissionDenied msg = mkAppError PermissionDenied msg"

definition appErrInternal :: "string \<Rightarrow> AppError" where
  "appErrInternal msg = mkAppError Internal msg"

definition appErrResourceExhausted :: "string \<Rightarrow> AppError" where
  "appErrResourceExhausted msg = mkAppError ResourceExhausted msg"

definition appErrUnavailable :: "string \<Rightarrow> AppError" where
  "appErrUnavailable msg = mkAppError Unavailable msg"

text \<open>\<open>New\<close> formats its message with \<open>fmt.Sprintf\<close>, the parameter \<open>sprintf\<close>.\<close>

definition appErrNew :: "(string \<Rightarrow> 'arg list \<Rightarrow> string) \<Rightarrow> code \<Rightarrow> string \<Rightarrow> 'arg list \<Rightarrow> AppError" where
  "appErrNew sprintf c fmt args = mkAppError c (sprintf fmt args)"

definition reasonOrDefault :: "AppError \<Rightarrow> string" where
  "reasonOrDefault e = (if ae_Reason e \<noteq> [] then ae_Reason e else code_String (ae_Code e))"

section \<open>The gRPC status of an application error\<close>

text \<open>\<open>errdetails.ErrorInfo\<close> (reason, domain, metadata) and \<open>errdetails.BadRequest\<close>.\<close>

datatype detail =
    ErrorInfo string string "(string, string) gomap"
  | BadRequest "(string \<times> string) list"

record status =
  st_code :: code
  st_message :: string
  st_details :: "detail list"

definition Domain :: string where
  "Domain = ''userservice.example.v1''"

definition status_New :: "code \<Rightarrow> string \<Rightarrow> status" where
  "status_New c msg = \<lparr>st_code = c, st_message = msg, st_details = []\<rparr>"

text \<open>
  \<open>Status.WithDetails\<close> refuses a status with code OK and stops at the first detail that
  cannot be marshalled; \<open>marshals\<close> stands for the protobuf runtime.
\<close>

definition WithDetails :: "(detail \<Rightarrow> bool) \<Rightarrow> status \<Rightarrow> detail list \<Rightarrow> status option" where
  "WithDetails marshals st ds =
     (if st_code st = OK then None
      else if list_all marshals ds then Some (st\<lparr>st_details := st_details st @ ds\<rparr>)
      else None)"

definition GRPCStatus :: "(detail \<Rightarrow> bool) \<Rightarrow> AppError \<Rightarrow> status" where
  "GRPCStatus marshals e =
     (let st = status_New (ae_Code e) (ae_Message e);
          md = (case ae_Metadata e of None \<Rightarrow> [] | Some m \<Rightarrow> m);
          info = (if ae_Reason e \<noteq> [] \<or> length md > 0
                  then [ErrorInfo (reasonOrDefault e) Domain md] else []);
          bad = (if length (ae_FieldViolations e) > 0
                 then [BadRequest (map (\<lambda>fv. (fv_Field fv, fv_Description fv)) (ae_FieldViolations e))]
                 else []);
          details = info @ bad
      in if length details = 0 then st
         else case WithDetails marshals st details of Some withDetails \<Rightarrow> withDetails | None \<Rightarrow> st)"

section \<open>Error values\<close>

datatype go_error =
    ErrNotFound | ErrCapacity | ErrAlreadyExists | ErrInvalid | ErrUnavailable | ErrCircuitOpen
  | ctxCanceled | ctxDeadlineExceeded
  | io_EOF | io_ErrUnexpectedEOF
  | sql_ErrNoRows
  | grpc_ErrServerStopped | http_ErrServerClosed | net_ErrClosed
  | PgError string string
  | AppErr AppError
  | StatusErr code string
  | ErrorString string
  | Wrapf string go_error

type_synonym 'a result = "go_error + 'a"

text \<open>\<open>err.Error()\<close>; \<open>Wrapf p e\<close> is \<open>fmt.Errorf(p + "%w", e)\<close>.\<close>

fun Error :: "go_error \<Rightarrow> string" where
  "Error ErrNotFound = ''user not found''"
| "Error ErrCapacity = ''user capacity reached''"
| "Error ErrAlreadyExists = ''user already exists''"
| "Error ErrInvalid = ''invalid persisted user''"
| "Error ErrUnavailable = ''storage unavailable''"
| "Error ErrCircuitOpen = ''circuit breaker open''"
| "Error ctxCanceled = ''context canceled''"
| "Error ctxDeadlineExceeded = ''context deadline exceeded''"
| "Error io_EOF = ''EOF''"
| "Error io_ErrUnexpectedEOF = ''unexpected EOF''"
| "Error sql_ErrNoRows = ''sql: no rows in result set''"
| "Error grpc_ErrServerStopped = ''grpc: the server has been stopped''"
| "Error http_ErrServerClosed = ''http: Server closed''"
| "Error net_ErrClosed = ''use of closed network connection''"
| "Error (PgError code msg) = msg"
| "Error (AppErr e) = ae_Message e"
| "Error (StatusErr c msg) = ''rpc error: code = '' @ code_String c @ '' desc = '' @ msg"
| "Error (ErrorString s) = s"
| "Error (Wrapf p e) = p @ Error e"

text \<open>\<open>errors.Is(err, target)\<close> for a target that wraps nothing.\<close>

fun errors_Is :: "go_error \<Rightarrow> go_error \<Rightarrow> bool" where
  "errors_Is (Wrapf p e) target = (Wrapf p e = target \<or> errors_Is e target)"
| "errors_Is e target = (e = target)"

text \<open>\<open>errors.As(err, &pgErr)\<close>: the code of the first PostgreSQL error of the chain.\<close>

fun errors_As_PgError :: "go_error \<Rightarrow> string option" where
  "errors_As_PgError (PgError code msg) = Some code"
| "errors_As_PgError (Wrapf p e) = errors_As_PgError e"
| "errors_As_PgError e = None"

fun errors_As_AppError :: "go_error \<Rightarrow> AppError option" where
  "errors_As_AppError (AppErr a) = Some a"
| "errors_As_AppError (Wrapf p e) = errors_As_AppError e"
| "errors_As_AppError e = None"

text \<open>The first error of the chain with a \<open>GRPCStatus\<close> method, as its status.\<close>

fun errors_As_grpcstatus :: "(detail \<Rightarrow> bool) \<Rightarrow> go_error \<Rightarrow> status option" where
  "errors_As_grpcstatus marshals (AppErr a) = Some (GRPCStatus marshals a)"
| "errors_As_grpcstatus marshals (StatusErr c msg) = Some (status_New c msg)"
| "errors_As_grpcstatus marshals (Wrapf p e) = errors_As_grpcstatus marshals e"
| "errors_As_grpcstatus marshals e = None"

definition status_FromError :: "(detail \<Rightarrow> bool) \<Rightarrow> go_error \<Rightarrow> status \<times> bool" where
  "status_FromError marshals err =
     (case err of
        AppErr a \<Rightarrow> (GRPCStatus marshals a, True)
      | StatusErr c msg \<Rightarrow> (status_New c msg, True)
      | _ \<Rightarrow> (case errors_As_grpcstatus marshals err of
               Some st \<Rightarrow> (st\<lparr>st_message := Error err\<rparr>, True)
             | None \<Rightarrow> (status_New Unknown (Error err), False)))"

text \<open>\<open>status.Code\<close>; the code does not depend on how details marshal.\<close>

definition status_Code :: "go_error option \<Rightarrow> code" where
  "status_Code err =
     (case err of None \<Rightarrow> OK | Some e \<Rightarrow> st_code (fst (status_FromError (\<lambda>_. True) e)))"

definition FromError :: "go_error option \<Rightarrow> code \<times> string" where
  "FromError err =
     (case err of
        None \<Rightarrow> (OK, [])
      | Some e \<Rightarrow>
          (case errors_As_AppError e of
             Some appErr \<Rightarrow> (ae_Code appErr, ae_Message appErr)
           | None \<Rightarrow> (Unknown, ''internal server error'')))"

section \<open>Facts about errors\<close>

lemmas app_error_defs [err_simps] =
  appErrInvalidArgument_def appErrNotFound_def appErrAlreadyExists_def appErrUnauthenticated_def
  appErrPermissionDenied_def appErrInternal_def appErrResourceExhausted_def appErrUnavailable_def
  mkAppError_def WithReason_def WithField_def

lemma GRPCStatus_code [simp]: "st_code (GRPCStatus marshals e) = ae_Code e"
  by (simp add: GRPCStatus_def WithDetails_def status_New_def Let_def)

lemma GRPCStatus_message [simp]: "st_message (GRPCStatus marshals e) = ae_Message e"
  by (simp add: GRPCStatus_def WithDetails_def status_New_def Let_def)

lemma FromError_code: "st_code (fst (status_FromError m e)) = st_code (fst (status_FromError m' e))"
proof -
  have chain: "map_option st_code (errors_As_grpcstatus m e) = map_option st_code (errors_As_grpcstatus m' e)" for e
    by (induction m e rule: errors_As_grpcstatus.induct) auto
  from chain [of e] show ?thesis
    by (cases e) (auto simp: status_FromError_def split: option.splits)
qed

lemma status_Code_simps [err_simps, simp]:
  "status_Code None = OK"
  "status_Code (Some (AppErr a)) = ae_Code a"
  "status_Code (Some (StatusErr c msg)) = c"
  "status_Code (Some (ErrorString s)) = Unknown"
  "status_Code (Some ctxCanceled) = Unknown"
  "status_Code (Some ctxDeadlineExceeded) = Unknown"
  by (simp_all add: status_Code_def status_FromError_def status_New_def)

text \<open>An error chain has a status exactly when its innermost error has one.\<close>

fun root_cause :: "go_error \<Rightarrow> go_error" where
  "root_cause (Wrapf p e) = root_cause e"
| "root_cause e = e"

lemma errors_Is_root: "(\<And>p x. target \<noteq> Wrapf p x) \<Longrightarrow> errors_Is e target = (root_cause e = target)"
  by (induction e) auto

lemma errors_As_PgError_root: "errors_As_PgError e = errors_As_PgError (root_cause e)"
  by (induction e) auto

lemma status_Code_chain:
  "status_Code (Some e) =
     (case errors_As_grpcstatus (\<lambda>_. True) e of Some st \<Rightarrow> st_code st | None \<Rightarrow> Unknown)"
  by (cases e) (auto simp: status_Code_def status_FromError_def status_New_def split: option.splits)

lemma status_Code_root: "status_Code (Some e) = status_Code (Some (root_cause e))"
proof -
  have "errors_As_grpcstatus m e = errors_As_grpcstatus m (root_cause e)" for m
    by (induction e) auto
  then show ?thesis by (simp add: status_Code_chain)
qed

text \<open>
  The details an application error carries to the client: the reason (or, with metadata
  only, the code's name) under the fixed domain, and every field violation in order; when a
  detail cannot be marshalled, or the code is OK, the plain status.
\<close>

lemma GRPCStatus_details:
  assumes "ae_Code e \<noteq> OK" and "\<And>d. marshals d"
  shows "st_details (GRPCStatus marshals e) =
     (if ae_Reason e \<noteq> [] \<or> (\<exists>m. ae_Metadata e = Some m \<and> m \<noteq> [])
      then [ErrorInfo (reasonOrDefault e) Domain (case ae_Metadata e of None \<Rightarrow> [] | Some m \<Rightarrow> m)] else []) @
     (if ae_FieldViolations e \<noteq> []
      then [BadRequest (map (\<lambda>fv. (fv_Field fv, fv_Description fv)) (ae_FieldViolations e))] else [])"
  using assms by (auto simp: GRPCStatus_def WithDetails_def status_New_def Let_def split: option.splits)

end
