(* ===== verification/Storage.thy ===== *)
theory Storage
  imports App_Errors
begin

text \<open>
  The persistence boundary (\<open>internal/storage/storage.go\<close>): contexts, users, the Go
  interface \<open>Repository\<close> as a record of state-passing operations, and the contract of that
  interface as three locales, \<open>repository_core\<close> and its extensions \<open>safe_repository\<close> and
  \<open>weak_repository\<close>. The
  backends interpret the contract in their own theories; the service layer is proved
  against it.

  Every source of nondeterminism a call can observe is an argument: the context, and an
  \<open>env\<close> with the clock reading taken at each call site of \<open>time.Now\<close>, the bytes drawn from
  \<open>crypto/rand\<close> and the iteration order of map ranges. Mutex-protected operations are
  single atomic steps.
\<close>

section \<open>Contexts and environments\<close>

record Claims =
  Subject :: string
  Scopes :: "string list"

text \<open>A context ends by cancellation or by its deadline, and \<open>Err\<close> reports which.\<close>

datatype done_cause = Cancelled | Expired

record Context =
  ctx_done :: "done_cause option"
  ctx_Timeout :: "int option"
  md_in :: "(string, string list) gomap option"
  md_out :: "(string \<times> string) list"
  v_requestID :: "string option"
  v_clientID :: "string option"
  v_claims :: "Claims option"
  v_retryable :: bool
  v_peer :: "string option"
  v_traceID :: "string option"
  v_spanID :: "string option"

definition ctx_Err :: "Context \<Rightarrow> go_error option" where
  "ctx_Err c =
     (case ctx_done c of
        None \<Rightarrow> None
      | Some Cancelled \<Rightarrow> Some ctxCanceled
      | Some Expired \<Rightarrow> Some ctxDeadlineExceeded)"

definition Background :: Context where
  "Background =
     \<lparr>ctx_done = None, ctx_Timeout = None, md_in = None, md_out = [], v_requestID = None,
      v_clientID = None, v_claims = None, v_retryable = False, v_peer = None,
      v_traceID = None, v_spanID = None\<rparr>"

text \<open>The places where a call reads the wall clock (nanoseconds since the epoch).\<close>

datatype site =
    CacheGet | CacheEvict | CacheSet
  | BreakerSince | BreakerFailureAt | BreakerOpenAt
  | HandlerNow

record env =
  clk :: "site \<Rightarrow> int"
  rnd :: "string option"
  rng :: "string list \<Rightarrow> string list"

text \<open>
  A map range visits every key exactly once, in an order the program cannot rely on: the one
  \<open>rng\<close> proposes when it enumerates the keys, some fixed one otherwise.
\<close>

definition range_keys :: "env \<Rightarrow> string list \<Rightarrow> string list" where
  "range_keys E ks = (let ord = rng E ks in if distinct ord \<and> set ord = set ks then ord else ks)"

lemma set_range_keys [simp]: "set (range_keys E ks) = set ks"
  by (simp add: range_keys_def Let_def)

lemma distinct_range_keys [simp]: "distinct ks \<Longrightarrow> distinct (range_keys E ks)"
  by (simp add: range_keys_def Let_def)

section \<open>Users\<close>

record Timestamp =
  ts_Seconds :: int
  ts_Nanos :: int

definition timestamp_of :: "int \<Rightarrow> Timestamp" where
  "timestamp_of ns = \<lparr>ts_Seconds = ns div second, ts_Nanos = ns mod second\<rparr>"

record User =
  u_Id :: string
  u_Name :: string
  u_Email :: string
  u_Age :: int
  u_CreatedAt :: "Timestamp option"
  u_UpdatedAt :: "Timestamp option"

text \<open>
  A protobuf timestamp counts its nanoseconds forward from the second. A user that is shown to a
  client has both its times.
\<close>

definition valid_timestamp :: "Timestamp \<Rightarrow> bool" where
  "valid_timestamp t \<longleftrightarrow> 0 \<le> ts_Nanos t \<and> ts_Nanos t < second"

lemma valid_timestamp_of [simp]: "valid_timestamp (timestamp_of ns)"
  by (simp add: valid_timestamp_def timestamp_of_def)

definition has_times :: "User \<Rightarrow> bool" where
  "has_times u \<longleftrightarrow> (\<exists>c t. u_CreatedAt u = Some c \<and> u_UpdatedAt u = Some t \<and> valid_timestamp c \<and> valid_timestamp t)"

lemma has_times_stamped [simp]:
  "has_times \<lparr>u_Id = i, u_Name = n, u_Email = e, u_Age = a, u_CreatedAt = Some (timestamp_of c), u_UpdatedAt = Some (timestamp_of t)\<rparr>"
  by (simp add: has_times_def)

text \<open>\<open>user == nil || user.GetId() == ""\<close>\<close>

definition nil_or_no_id :: "User option \<Rightarrow> bool" where
  "nil_or_no_id user \<longleftrightarrow> (case user of None \<Rightarrow> True | Some u \<Rightarrow> u_Id u = [])"

section \<open>The repository interface\<close>

text \<open>
  A \<open>ReadModifyUpdateFn\<close> mutates a private copy and may fail; a nil function is \<open>None\<close>.
\<close>

type_synonym ReadModifyUpdateFn = "User \<Rightarrow> User result"

record 's Repository =
  Create :: "env \<Rightarrow> Context option \<Rightarrow> User option \<Rightarrow> int \<Rightarrow> 's \<Rightarrow> go_error option \<times> 's"
  CreateWithIdempotency ::
    "env \<Rightarrow> Context option \<Rightarrow> User option \<Rightarrow> int \<Rightarrow> string \<Rightarrow> 's \<Rightarrow> (User \<times> bool) result \<times> 's"
  Get :: "env \<Rightarrow> Context option \<Rightarrow> string \<Rightarrow> 's \<Rightarrow> User result \<times> 's"
  Update :: "env \<Rightarrow> Context option \<Rightarrow> User option \<Rightarrow> 's \<Rightarrow> go_error option \<times> 's"
  ReadModifyUpdate ::
    "env \<Rightarrow> Context option \<Rightarrow> string \<Rightarrow> ReadModifyUpdateFn option \<Rightarrow> 's \<Rightarrow> User result \<times> 's"
  Delete :: "env \<Rightarrow> Context option \<Rightarrow> string \<Rightarrow> 's \<Rightarrow> go_error option \<times> 's"
  List :: "env \<Rightarrow> Context option \<Rightarrow> int \<Rightarrow> string \<Rightarrow> 's \<Rightarrow> (User list \<times> string) result \<times> 's"
  Ping :: "env \<Rightarrow> Context option \<Rightarrow> 's \<Rightarrow> go_error option \<times> 's"
  Close :: "'s \<Rightarrow> go_error option \<times> 's"

text \<open>The error of a result, as Go's trailing \<open>err\<close> (\<open>None\<close> is nil).\<close>

definition err_of :: "'a result \<Rightarrow> go_error option" where
  "err_of r = (case r of Inl e \<Rightarrow> Some e | Inr _ \<Rightarrow> None)"

lemma err_of_simps [simp]: "err_of (Inl e) = Some e" "err_of (Inr v) = None"
  by (simp_all add: err_of_def)

section \<open>What the interface promises\<close>

text \<open>
  The abstract store is a finite map from identifiers to users. Each operation either fails
  and leaves the store as it was, or succeeds with exactly the documented effect.
\<close>

type_synonym store = "string \<rightharpoonup> User"

definition spec_Create :: "store \<Rightarrow> User option \<Rightarrow> int \<Rightarrow> go_error option \<Rightarrow> store \<Rightarrow> bool" where
  "spec_Create m user maxUsers r m' \<longleftrightarrow>
     (case r of
        Some e \<Rightarrow> m' = m
      | None \<Rightarrow> \<exists>u. user = Some u \<and> u_Id u \<noteq> [] \<and> u_Id u \<notin> dom m \<and>
                int (card (dom m)) < maxUsers \<and> m' = m(u_Id u \<mapsto> u))"

definition spec_CreateWithIdempotency ::
  "store \<Rightarrow> User option \<Rightarrow> int \<Rightarrow> string \<Rightarrow> (User \<times> bool) result \<Rightarrow> store \<Rightarrow> bool" where
  "spec_CreateWithIdempotency m user maxUsers key r m' \<longleftrightarrow>
     (case r of
        Inl e \<Rightarrow> m' = m
      | Inr (v, True) \<Rightarrow> m' = m \<and> key \<noteq> [] \<and> v \<in> ran m
      | Inr (v, False) \<Rightarrow> user = Some v \<and> u_Id v \<noteq> [] \<and> u_Id v \<notin> dom m \<and>
                int (card (dom m)) < maxUsers \<and> m' = m(u_Id v \<mapsto> v))"

definition spec_Get :: "store \<Rightarrow> string \<Rightarrow> User result \<Rightarrow> store \<Rightarrow> bool" where
  "spec_Get m i r m' \<longleftrightarrow>
     m' = m \<and> (case r of Inl e \<Rightarrow> e = ErrNotFound \<longrightarrow> m i = None | Inr u \<Rightarrow> m i = Some u)"

definition spec_Update :: "store \<Rightarrow> User option \<Rightarrow> go_error option \<Rightarrow> store \<Rightarrow> bool" where
  "spec_Update m user r m' \<longleftrightarrow>
     (case r of
        Some e \<Rightarrow> m' = m
      | None \<Rightarrow> \<exists>u. user = Some u \<and> u_Id u \<noteq> [] \<and> u_Id u \<in> dom m \<and> m' = m(u_Id u \<mapsto> u))"

definition spec_ReadModifyUpdate ::
  "store \<Rightarrow> string \<Rightarrow> ReadModifyUpdateFn option \<Rightarrow> User result \<Rightarrow> store \<Rightarrow> bool" where
  "spec_ReadModifyUpdate m i mutate r m' \<longleftrightarrow>
     (case r of
        Inl e \<Rightarrow> m' = m
      | Inr u \<Rightarrow> \<exists>f old. mutate = Some f \<and> m i = Some old \<and> f old = Inr u \<and> m' = m(i \<mapsto> u))"

definition spec_Delete :: "store \<Rightarrow> string \<Rightarrow> go_error option \<Rightarrow> store \<Rightarrow> bool" where
  "spec_Delete m i r m' \<longleftrightarrow>
     (case r of Some e \<Rightarrow> m' = m | None \<Rightarrow> i \<in> dom m \<and> m' = m(i := None))"

text \<open>
  A keyset page: the users with an identifier strictly after \<open>afterID\<close>, in ascending order,
  at most \<open>limit\<close> of them; the continuation is the last identifier of the page when users
  are left, and empty otherwise.
\<close>

definition ids_after :: "store \<Rightarrow> string \<Rightarrow> string list" where
  "ids_after m afterID = sorted_list_of_set {i \<in> dom m. afterID < i}"

definition page_of :: "store \<Rightarrow> nat \<Rightarrow> string \<Rightarrow> User list \<times> string" where
  "page_of m limit afterID =
     (let ids = ids_after m afterID; page = take limit ids
      in (map (\<lambda>i. the (m i)) page, if length ids > limit then last page else []))"

definition spec_List ::
  "store \<Rightarrow> int \<Rightarrow> string \<Rightarrow> (User list \<times> string) result \<Rightarrow> store \<Rightarrow> bool" where
  "spec_List m limit afterID r m' \<longleftrightarrow>
     m' = m \<and> (case r of Inl e \<Rightarrow> True | Inr p \<Rightarrow> 0 < limit \<and> p = page_of m (nat limit) afterID)"

lemmas repo_specs =
  spec_Create_def spec_CreateWithIdempotency_def spec_Get_def spec_Update_def
  spec_ReadModifyUpdate_def spec_Delete_def spec_List_def

text \<open>
  The contract without the atomic update: every backend and every decorator of the program
  keeps it.
\<close>

locale repository_core =
  fixes R :: "'s Repository"
    and abs :: "'s \<Rightarrow> store"
    and inv :: "'s \<Rightarrow> bool"
  assumes fin: "inv s \<Longrightarrow> finite (dom (abs s))"
    and Create_ok: "inv s \<Longrightarrow> Create R E ctx user n s = (r, s') \<Longrightarrow>
      spec_Create (abs s) user n r (abs s') \<and> inv s'"
    and CreateWithIdempotency_ok: "inv s \<Longrightarrow> CreateWithIdempotency R E ctx user n key s = (ri, s') \<Longrightarrow>
      spec_CreateWithIdempotency (abs s) user n key ri (abs s') \<and> inv s'"
    and Get_ok: "inv s \<Longrightarrow> Get R E ctx i s = (rg, s') \<Longrightarrow> spec_Get (abs s) i rg (abs s') \<and> inv s'"
    and Update_ok: "inv s \<Longrightarrow> Update R E ctx user s = (r, s') \<Longrightarrow>
      spec_Update (abs s) user r (abs s') \<and> inv s'"
    and Delete_ok: "inv s \<Longrightarrow> Delete R E ctx i s = (r, s') \<Longrightarrow>
      spec_Delete (abs s) i r (abs s') \<and> inv s'"
    and List_ok: "inv s \<Longrightarrow> List R E ctx limit after s = (rl, s') \<Longrightarrow>
      spec_List (abs s) limit after rl (abs s') \<and> inv s'"
    and Ping_ok: "inv s \<Longrightarrow> Ping R E ctx s = (r, s') \<Longrightarrow> abs s' = abs s \<and> inv s'"
    and Close_ok: "inv s \<Longrightarrow> Close R s = (r, s') \<Longrightarrow> abs s' = abs s \<and> inv s'"

text \<open>The full contract adds that a read-modify-write is applied exactly when it succeeds.\<close>

locale safe_repository = repository_core +
  assumes ReadModifyUpdate_ok: "inv s \<Longrightarrow> ReadModifyUpdate R E ctx i mutate s = (ru, s') \<Longrightarrow>
      spec_ReadModifyUpdate (abs s) i mutate ru (abs s') \<and> inv s'"

text \<open>
  A weaker contract, all that the cache keeps: a read-modify-write that reports success may
  also have left the store as it was and returned the stored user.
\<close>

locale weak_repository = repository_core +
  assumes ReadModifyUpdate_weak: "inv s \<Longrightarrow> ReadModifyUpdate R E ctx i mutate s = (ru, s') \<Longrightarrow>
      (spec_ReadModifyUpdate (abs s) i mutate ru (abs s') \<or>
       abs s' = abs s \<and> i \<in> dom (abs s) \<and> ru = Inr (the (abs s i))) \<and> inv s'"

sublocale safe_repository \<subseteq> weak_repository
  by unfold_locales (use ReadModifyUpdate_ok in blast)

section \<open>Facts about pages\<close>

lemma set_ids_after [simp]: "finite (dom m) \<Longrightarrow> set (ids_after m a) = {i \<in> dom m. a < i}"
  by (simp add: ids_after_def)

lemma sorted_ids_after [simp]: "sorted (ids_after m a)"
  by (simp add: ids_after_def)

lemma distinct_ids_after [simp]: "distinct (ids_after m a)"
  by (simp add: ids_after_def)

lemma ids_after_strict: "sorted_wrt (<) (ids_after m a)"
  by (simp add: strict_sorted_iff)

text \<open>Resuming after an element of the page continues with exactly the rest of the list.\<close>

lemma sorted_filter_gt:
  fixes xs :: "'a::linorder list"
  assumes "sorted_wrt (<) (xs @ x # ys)"
  shows "filter (\<lambda>y. x < y) (xs @ x # ys) = ys"
  using assms by (auto simp: sorted_wrt_append filter_empty_conv filter_id_conv dest: less_not_sym)

lemma ids_after_resume:
  assumes "finite (dom m)" and "ids_after m a = xs @ x # ys"
  shows "ids_after m x = ys"
proof -
  have ax: "a < x" using assms by (metis (mono_tags) in_set_conv_decomp mem_Collect_eq set_ids_after)
  have "{i \<in> dom m. x < i} = set (filter (\<lambda>y. x < y) (ids_after m a))"
    using assms(1) ax by auto
  moreover have "filter (\<lambda>y. x < y) (ids_after m a) = ys"
    using assms(2) ids_after_strict [of m a] by (simp only: sorted_filter_gt)
  moreover have "sorted ys" "distinct ys"
    using assms(2) sorted_ids_after [of m a] distinct_ids_after [of m a] by (simp_all add: sorted_append)
  ultimately show ?thesis
    unfolding ids_after_def by (simp add: sorted_list_of_set.idem_if_sorted_distinct)
qed

lemma page_of_size: "length (fst (page_of m limit a)) \<le> limit"
  by (simp add: page_of_def Let_def)

end
