(* ===== verification/Memory_Repository.thy ===== *)
theory Memory_Repository
  imports Storage
begin

text \<open>
  \<open>internal/storage/memory.go\<close>: the process-local repository. Its state is the user map, the
  idempotency map and the closed flag; every exported method is one definition over that
  state (the body under the mutex is atomic). The theory interprets the repository contract
  on these definitions and proves the idempotency and capacity guarantees over arbitrary
  sequences of operations.
\<close>

record MemoryRepository =
  users :: "(string, User) gomap"
  idem :: "(string, string) gomap"
  closed :: bool

definition NewMemoryRepository :: MemoryRepository where
  "NewMemoryRepository = \<lparr>users = [], idem = [], closed = False\<rparr>"

definition contextError :: "Context option \<Rightarrow> go_error option" where
  "contextError ctx = (case ctx of None \<Rightarrow> Some ErrInvalid | Some c \<Rightarrow> ctx_Err c)"

definition mem_Create ::
  "Context option \<Rightarrow> User option \<Rightarrow> int \<Rightarrow> MemoryRepository \<Rightarrow> go_error option \<times> MemoryRepository" where
  "mem_Create ctx user maxUsers r =
     (case contextError ctx of
        Some err \<Rightarrow> (Some err, r)
      | None \<Rightarrow>
          (case user of
             None \<Rightarrow> (Some ErrInvalid, r)
           | Some u \<Rightarrow>
               if u_Id u = [] then (Some ErrInvalid, r)
               else if closed r then (Some ErrUnavailable, r)
               else if int (length (users r)) \<ge> maxUsers then (Some ErrCapacity, r)
               else if u_Id u \<in> set (keys (users r)) then (Some ErrAlreadyExists, r)
               else (None, r\<lparr>users := mput (u_Id u) u (users r)\<rparr>)))"

definition mem_CreateWithIdempotency ::
  "Context option \<Rightarrow> User option \<Rightarrow> int \<Rightarrow> string \<Rightarrow> MemoryRepository \<Rightarrow>
   (User \<times> bool) result \<times> MemoryRepository" where
  "mem_CreateWithIdempotency ctx user maxUsers idempotencyKey r =
     (case contextError ctx of
        Some err \<Rightarrow> (Inl err, r)
      | None \<Rightarrow>
          if idempotencyKey = [] then
            (case mem_Create ctx user maxUsers r of
               (Some err, r') \<Rightarrow> (Inl err, r')
             | (None, r') \<Rightarrow> (Inr (the user, False), r'))
          else
            (case user of
               None \<Rightarrow> (Inl ErrInvalid, r)
             | Some u \<Rightarrow>
                 if u_Id u = [] then (Inl ErrInvalid, r)
                 else if closed r then (Inl ErrUnavailable, r)
                 else
                   (case Option.bind (mget (idem r) idempotencyKey) (mget (users r)) of
                      Some existing \<Rightarrow> (Inr (existing, True), r)
                    | None \<Rightarrow>
                        if int (length (users r)) \<ge> maxUsers then (Inl ErrCapacity, r)
                        else if u_Id u \<in> set (keys (users r)) then (Inl ErrAlreadyExists, r)
                        else
                          (Inr (u, False),
                           r\<lparr>users := mput (u_Id u) u (users r),
                             idem := mput idempotencyKey (u_Id u) (idem r)\<rparr>))))"

definition mem_Get :: "Context option \<Rightarrow> string \<Rightarrow> MemoryRepository \<Rightarrow> User result \<times> MemoryRepository" where
  "mem_Get ctx i r =
     (case contextError ctx of
        Some err \<Rightarrow> (Inl err, r)
      | None \<Rightarrow>
          if closed r then (Inl ErrUnavailable, r)
          else case mget (users r) i of
                 None \<Rightarrow> (Inl ErrNotFound, r)
               | Some user \<Rightarrow> (Inr user, r))"

definition mem_Update ::
  "Context option \<Rightarrow> User option \<Rightarrow> MemoryRepository \<Rightarrow> go_error option \<times> MemoryRepository" where
  "mem_Update ctx user r =
     (case contextError ctx of
        Some err \<Rightarrow> (Some err, r)
      | None \<Rightarrow>
          (case user of
             None \<Rightarrow> (Some ErrInvalid, r)
           | Some u \<Rightarrow>
               if u_Id u = [] then (Some ErrInvalid, r)
               else if closed r then (Some ErrUnavailable, r)
               else if u_Id u \<notin> set (keys (users r)) then (Some ErrNotFound, r)
               else (None, r\<lparr>users := mput (u_Id u) u (users r)\<rparr>)))"

definition mem_ReadModifyUpdate ::
  "Context option \<Rightarrow> string \<Rightarrow> ReadModifyUpdateFn option \<Rightarrow> MemoryRepository \<Rightarrow>
   User result \<times> MemoryRepository" where
  "mem_ReadModifyUpdate ctx i mutate r =
     (case contextError ctx of
        Some err \<Rightarrow> (Inl err, r)
      | None \<Rightarrow>
          if blank i then (Inl ErrInvalid, r)
          else
            (case mutate of
               None \<Rightarrow> (Inl ErrInvalid, r)
             | Some f \<Rightarrow>
                 if closed r then (Inl ErrUnavailable, r)
                 else
                   (case mget (users r) i of
                      None \<Rightarrow> (Inl ErrNotFound, r)
                    | Some existing \<Rightarrow>
                        (case f existing of
                           Inl err \<Rightarrow> (Inl err, r)
                         | Inr working \<Rightarrow>
                             (Inr working, r\<lparr>users := mput i working (users r)\<rparr>)))))"

definition mem_Delete ::
  "Context option \<Rightarrow> string \<Rightarrow> MemoryRepository \<Rightarrow> go_error option \<times> MemoryRepository" where
  "mem_Delete ctx i r =
     (case contextError ctx of
        Some err \<Rightarrow> (Some err, r)
      | None \<Rightarrow>
          if closed r then (Some ErrUnavailable, r)
          else if i \<notin> set (keys (users r)) then (Some ErrNotFound, r)
          else (None, r\<lparr>users := mdel i (users r)\<rparr>))"

definition mem_List ::
  "env \<Rightarrow> Context option \<Rightarrow> int \<Rightarrow> string \<Rightarrow> MemoryRepository \<Rightarrow>
   (User list \<times> string) result \<times> MemoryRepository" where
  "mem_List E ctx limit afterID r =
     (case contextError ctx of
        Some err \<Rightarrow> (Inl err, r)
      | None \<Rightarrow>
          if limit \<le> 0 then (Inl ErrInvalid, r)
          else if closed r then (Inl ErrUnavailable, r)
          else
            (let ids = sort (filter (\<lambda>i. i > afterID) (range_keys E (keys (users r))));
                 end = (if limit > int (length ids) then length ids else nat limit);
                 page = take end ids;
                 us = map (\<lambda>i. the (mget (users r) i)) page;
                 next = (if int (length ids) > limit then page ! (length page - 1) else [])
             in (Inr (us, next), r)))"

definition mem_Ping :: "Context option \<Rightarrow> MemoryRepository \<Rightarrow> go_error option \<times> MemoryRepository" where
  "mem_Ping ctx r = (contextError ctx, r)"

definition mem_Close :: "MemoryRepository \<Rightarrow> go_error option \<times> MemoryRepository" where
  "mem_Close r = (None, r\<lparr>closed := True\<rparr>)"

definition memory_ops :: "MemoryRepository Repository" where
  "memory_ops =
     \<lparr>Create = \<lambda>E. mem_Create,
      CreateWithIdempotency = \<lambda>E. mem_CreateWithIdempotency,
      Get = \<lambda>E. mem_Get,
      Update = \<lambda>E. mem_Update,
      ReadModifyUpdate = \<lambda>E. mem_ReadModifyUpdate,
      Delete = \<lambda>E. mem_Delete,
      List = mem_List,
      Ping = \<lambda>E. mem_Ping,
      Close = mem_Close\<rparr>"

section \<open>Invariant and abstraction\<close>

definition mem_inv :: "MemoryRepository \<Rightarrow> bool" where
  "mem_inv r \<longleftrightarrow> gomap_ok (users r) \<and> gomap_ok (idem r) \<and> [] \<notin> set (keys (users r)) \<and>
     [] \<notin> set (keys (idem r))"

definition mem_abs :: "MemoryRepository \<Rightarrow> store" where
  "mem_abs r = mget (users r)"

lemmas mem_write_defs [repo_simps] =
  mem_Create_def mem_CreateWithIdempotency_def mem_Update_def mem_ReadModifyUpdate_def mem_Delete_def

lemmas mem_read_defs [repo_simps] = mem_Get_def mem_Ping_def mem_Close_def

lemma mem_inv_New: "mem_inv NewMemoryRepository"
  by (simp add: mem_inv_def NewMemoryRepository_def)

lemma dom_mem_abs [simp]: "dom (mem_abs r) = set (keys (users r))"
  by (simp add: mem_abs_def dom_map_of_conv_image_fst)

lemma card_mem_abs [simp]: "mem_inv r \<Longrightarrow> card (dom (mem_abs r)) = length (users r)"
  by (simp add: mem_abs_def card_dom_mget mem_inv_def del: dom_mem_abs)

lemma mem_inv_ok: "mem_inv r \<Longrightarrow> gomap_ok (users r)" "mem_inv r \<Longrightarrow> [] \<notin> fst ` set (users r)"
  by (simp_all add: mem_inv_def)

lemma mem_inv_put [simp]: "mem_inv r \<Longrightarrow> i \<noteq> [] \<Longrightarrow> mem_inv (r\<lparr>users := mput i u (users r)\<rparr>)"
  by (simp add: mem_inv_def gomap_simps)

lemma mem_inv_put_idem [simp]: "mem_inv r \<Longrightarrow> i \<noteq> [] \<Longrightarrow> k \<noteq> [] \<Longrightarrow>
    mem_inv (r\<lparr>users := mput i u (users r), idem := mput k j (idem r)\<rparr>)"
  by (simp add: mem_inv_def gomap_simps)

lemma mem_inv_del [simp]: "mem_inv r \<Longrightarrow> mem_inv (r\<lparr>users := mdel i (users r)\<rparr>)"
  by (simp add: mem_inv_def gomap_simps)

lemma mem_inv_key: "mem_inv r \<Longrightarrow> mget (users r) i = Some u \<Longrightarrow> i \<noteq> []"
  by (auto simp: mem_inv_def dest: mget_SomeD)

lemma mem_abs_ran: "mget (users r) i = Some u \<Longrightarrow> u \<in> ran (mem_abs r)"
  by (auto simp: mem_abs_def ran_def)

lemma mem_abs_upd [simp]:
  "mem_abs (r\<lparr>users := mput i u (users r)\<rparr>) = (mem_abs r)(i \<mapsto> u)"
  "mem_abs (r\<lparr>users := mput i u (users r), idem := m\<rparr>) = (mem_abs r)(i \<mapsto> u)"
  "mem_abs (r\<lparr>users := mdel i (users r)\<rparr>) = (mem_abs r)(i := None)"
  by (simp_all add: mem_abs_def gomap_simps fun_eq_iff)

text \<open>Sorting the keys a range visits gives the sorted identifiers of the abstract store.\<close>

lemma mem_ids_after:
  assumes "mem_inv r"
  shows "sort (filter (\<lambda>i. i > a) (range_keys E (keys (users r)))) = ids_after (mem_abs r) a"
proof -
  let ?xs = "filter (\<lambda>i. i > a) (range_keys E (keys (users r)))"
  have "distinct ?xs" using assms by (simp add: mem_inv_def)
  then have "sort ?xs = sorted_list_of_set (set ?xs)"
    by (rule sort_distinct)
  moreover have "set ?xs = {i \<in> dom (mem_abs r). a < i}"
    by simp
  ultimately show ?thesis unfolding ids_after_def by argo
qed

lemma mem_List_page:
  assumes "mem_inv r" and "mem_List E ctx limit a r = (Inr p, r')"
  shows "r' = r \<and> 0 < limit \<and> p = page_of (mem_abs r) (nat limit) a"
proof -
  let ?ids = "ids_after (mem_abs r) a"
  from assms have lim: "0 < limit" and r': "r' = r"
    by (auto simp: mem_List_def Let_def split: option.splits if_splits)
  have page: "take (if limit > int (length ?ids) then length ?ids else nat limit) ?ids = take (nat limit) ?ids"
    by simp
  have more: "(int (length ?ids) > limit) = (length ?ids > nat limit)"
    using lim by linarith
  have last: "?ids ! (nat limit - Suc 0) = last (take (nat limit) ?ids)" if "length ?ids > nat limit"
    using that lim by (subst last_conv_nth) auto
  from assms(2) lim last have "p =
      (map (\<lambda>i. the (mget (users r) i)) (take (nat limit) ?ids),
       if length ?ids > nat limit then last (take (nat limit) ?ids) else [])"
    unfolding mem_List_def Let_def mem_ids_after [OF assms(1)] page more
    by (auto split: option.splits if_splits)
  then show ?thesis using lim r' by (simp add: page_of_def Let_def mem_abs_def)
qed

section \<open>The repository contract holds\<close>

lemma contextError_kind: "contextError ctx = Some e \<Longrightarrow> e \<in> {ErrInvalid, ctxCanceled, ctxDeadlineExceeded}"
  by (auto simp: contextError_def ctx_Err_def split: option.splits done_cause.splits)

lemma mem_Create_spec:
  "mem_inv s \<Longrightarrow> mem_Create ctx user n s = (r, s') \<Longrightarrow>
   spec_Create (mem_abs s) user n r (mem_abs s') \<and> mem_inv s'"
  by (auto simp: spec_Create_def mem_Create_def mem_inv_ok gomap_simps split: option.splits if_splits)

lemma mem_CreateWithIdempotency_spec:
  assumes "mem_inv s" and "mem_CreateWithIdempotency ctx user n key s = (r, s')"
  shows "spec_CreateWithIdempotency (mem_abs s) user n key r (mem_abs s') \<and> mem_inv s'"
proof (cases "key = []")
  case True
  obtain rc sc where c: "mem_Create ctx user n s = (rc, sc)" by fastforce
  from mem_Create_spec [OF assms(1) c] c True assms show ?thesis
    by (auto simp: mem_CreateWithIdempotency_def spec_CreateWithIdempotency_def spec_Create_def
        split: option.splits)
next
  case False
  from False assms show ?thesis
    by (auto simp: mem_CreateWithIdempotency_def spec_CreateWithIdempotency_def mem_inv_ok gomap_simps
        bind_eq_Some_conv bind_eq_None_conv mem_abs_ran split: option.splits if_splits)
qed

lemma mem_Get_spec: "mem_inv s \<Longrightarrow> mem_Get ctx i s = (r, s') \<Longrightarrow>
   spec_Get (mem_abs s) i r (mem_abs s') \<and> mem_inv s'"
  by (auto simp: spec_Get_def mem_Get_def mem_abs_def split: option.splits if_splits
      dest: contextError_kind)

lemma mem_Update_spec: "mem_inv s \<Longrightarrow> mem_Update ctx user s = (r, s') \<Longrightarrow>
   spec_Update (mem_abs s) user r (mem_abs s') \<and> mem_inv s'"
  by (auto simp: spec_Update_def mem_Update_def split: option.splits if_splits)

lemma mem_ReadModifyUpdate_spec: "mem_inv s \<Longrightarrow> mem_ReadModifyUpdate ctx i mutate s = (r, s') \<Longrightarrow>
   spec_ReadModifyUpdate (mem_abs s) i mutate r (mem_abs s') \<and> mem_inv s'"
  by (auto simp: spec_ReadModifyUpdate_def mem_ReadModifyUpdate_def mem_inv_key
      split: option.splits if_splits sum.splits) (simp_all add: mem_abs_def)

lemma mem_Delete_spec: "mem_inv s \<Longrightarrow> mem_Delete ctx i s = (r, s') \<Longrightarrow>
   spec_Delete (mem_abs s) i r (mem_abs s') \<and> mem_inv s'"
  by (auto simp: spec_Delete_def mem_Delete_def split: option.splits if_splits)

lemma mem_List_spec:
  assumes "mem_inv s" and "mem_List E ctx limit a s = (r, s')"
  shows "spec_List (mem_abs s) limit a r (mem_abs s') \<and> mem_inv s'"
proof (cases r)
  case (Inl e)
  with assms show ?thesis
    by (auto simp: spec_List_def mem_List_def Let_def split: option.splits if_splits)
next
  case (Inr p)
  with assms mem_List_page [of s E ctx limit a p s'] show ?thesis by (simp add: spec_List_def)
qed

interpretation mem: safe_repository memory_ops mem_abs mem_inv
proof (unfold_locales, goal_cases)
  case 1 then show ?case by simp
next
  case 2 then show ?case by (simp add: memory_ops_def mem_Create_spec)
next
  case 3 then show ?case by (simp add: memory_ops_def mem_CreateWithIdempotency_spec)
next
  case 4 then show ?case by (simp add: memory_ops_def mem_Get_spec)
next
  case 5 then show ?case by (simp add: memory_ops_def mem_Update_spec)
next
  case 6 then show ?case by (simp add: memory_ops_def mem_Delete_spec)
next
  case 7 then show ?case by (auto simp: memory_ops_def dest: mem_List_spec)
next
  case 8 then show ?case by (auto simp: memory_ops_def mem_Ping_def)
next
  case 9 then show ?case by (auto simp: memory_ops_def mem_Close_def mem_abs_def mem_inv_def)
next
  case 10 then show ?case by (simp add: memory_ops_def mem_ReadModifyUpdate_spec)
qed

section \<open>Sequences of operations\<close>

text \<open>
  Concurrent callers are serialised by the mutex, so a concurrent history is a list of
  operations executed one after the other.
\<close>

datatype mem_op =
    OpCreate "Context option" "User option" int
  | OpCreateIdem "Context option" "User option" int string
  | OpGet "Context option" string
  | OpUpdate "Context option" "User option"
  | OpReadModifyUpdate "Context option" string "ReadModifyUpdateFn option"
  | OpDelete "Context option" string
  | OpList env "Context option" int string
  | OpPing "Context option"
  | OpClose

fun mem_exec :: "mem_op \<Rightarrow> MemoryRepository \<Rightarrow> MemoryRepository" where
  "mem_exec (OpCreate ctx user n) r = snd (mem_Create ctx user n r)"
| "mem_exec (OpCreateIdem ctx user n key) r = snd (mem_CreateWithIdempotency ctx user n key r)"
| "mem_exec (OpGet ctx i) r = snd (mem_Get ctx i r)"
| "mem_exec (OpUpdate ctx user) r = snd (mem_Update ctx user r)"
| "mem_exec (OpReadModifyUpdate ctx i f) r = snd (mem_ReadModifyUpdate ctx i f r)"
| "mem_exec (OpDelete ctx i) r = snd (mem_Delete ctx i r)"
| "mem_exec (OpList E ctx n a) r = snd (mem_List E ctx n a r)"
| "mem_exec (OpPing ctx) r = snd (mem_Ping ctx r)"
| "mem_exec OpClose r = snd (mem_Close r)"

abbreviation mem_run :: "mem_op list \<Rightarrow> MemoryRepository \<Rightarrow> MemoryRepository" where
  "mem_run ops r \<equiv> fold mem_exec ops r"

lemma mem_run_invariant:
  "(\<And>op r. op \<in> set ops \<Longrightarrow> P r \<Longrightarrow> P (mem_exec op r)) \<Longrightarrow> P r \<Longrightarrow> P (mem_run ops r)"
  by (induction ops arbitrary: r) auto

lemma mem_exec_inv: "mem_inv r \<Longrightarrow> mem_inv (mem_exec op r)"
proof (cases op)
  case (OpCreateIdem ctx user n key)
  then show "mem_inv r \<Longrightarrow> mem_inv (mem_exec op r)"
    by (metis mem_CreateWithIdempotency_spec mem_exec.simps(2) prod.collapse)
next
  case (OpList E ctx n a)
  then show "mem_inv r \<Longrightarrow> mem_inv (mem_exec op r)"
    by (metis mem_List_spec mem_exec.simps(7) prod.collapse)
qed (auto simp: mem_Create_def mem_Get_def mem_Update_def mem_ReadModifyUpdate_def mem_Delete_def
    mem_Ping_def mem_Close_def mem_inv_key split: option.splits sum.splits, simp add: mem_inv_def)

subsection \<open>Idempotency over histories\<close>

text \<open>A recorded key: it leads to a stored user and the repository is open.\<close>

definition recorded :: "string \<Rightarrow> string \<Rightarrow> MemoryRepository \<Rightarrow> bool" where
  "recorded key i r \<longleftrightarrow> mget (idem r) key = Some i \<and> i \<in> fst ` set (users r) \<and> \<not> closed r"

definition forgets :: "string \<Rightarrow> mem_op \<Rightarrow> bool" where
  "forgets i op \<longleftrightarrow> op = OpClose \<or> (\<exists>ctx. op = OpDelete ctx i)"

lemma recorded_put [simp]: "recorded key i r \<Longrightarrow> recorded key i (r\<lparr>users := mput j u (users r)\<rparr>)"
  by (simp add: recorded_def gomap_simps)

lemma recorded_del [simp]: "recorded key i r \<Longrightarrow> j \<noteq> i \<Longrightarrow> recorded key i (r\<lparr>users := mdel j (users r)\<rparr>)"
  by (simp add: recorded_def gomap_simps)

lemma recorded_hit: "recorded key i r \<Longrightarrow> \<exists>u. Option.bind (mget (idem r) key) (mget (users r)) = Some u"
  by (simp add: recorded_def) (metis mget_None_iff option.exhaust)

lemma recorded_exec: "recorded key i r \<Longrightarrow> \<not> forgets i op \<Longrightarrow> recorded key i (mem_exec op r)"
proof (cases op)
  case (OpCreateIdem ctx user n key')
  assume rec: "recorded key i r"
  show "recorded key i (mem_exec op r)"
  proof (cases "key' = key")
    case True
    from recorded_hit [OF rec] obtain u where "Option.bind (mget (idem r) key) (mget (users r)) = Some u" by blast
    with True OpCreateIdem rec show ?thesis
      by (auto simp: mem_CreateWithIdempotency_def mem_Create_def split: option.splits)
  next
    case False
    with OpCreateIdem rec show ?thesis
      by (auto simp: mem_CreateWithIdempotency_def mem_Create_def recorded_def gomap_simps split: option.splits)
  qed
qed (auto simp: mem_Create_def mem_Get_def mem_Update_def mem_ReadModifyUpdate_def mem_Delete_def mem_List_def
    mem_Ping_def forgets_def Let_def split: option.splits sum.splits)

lemma create_records:
  "key \<noteq> [] \<Longrightarrow> mem_CreateWithIdempotency ctx user n key r = (Inr (u, False), r') \<Longrightarrow> recorded key (u_Id u) r'"
  by (auto simp: mem_CreateWithIdempotency_def recorded_def gomap_simps split: option.splits if_splits)

lemma replay_recorded:
  assumes "recorded key i r" and "key \<noteq> []" and "contextError ctx = None" and "u_Id u \<noteq> []"
  shows "\<exists>v. mget (users r) i = Some v \<and> mem_CreateWithIdempotency ctx (Some u) n key r = (Inr (v, True), r)"
proof -
  from assms(1) obtain v where v: "mget (users r) i = Some v" and "mget (idem r) key = Some i" and "\<not> closed r"
    unfolding recorded_def by (metis mget_None_iff not_None_eq)
  with assms(2-4) show ?thesis by (simp add: mem_CreateWithIdempotency_def)
qed

text \<open>
  C15: an idempotent create is applied at most once. Once a create with a non-empty key has
  stored its user, then after any history of operations that neither deletes that user nor
  closes the repository, a retry with the same key (whatever user and capacity it carries)
  answers with the stored user, marked as replayed, and changes nothing.
\<close>

theorem idempotent_create_retry:
  assumes "key \<noteq> []"
    and "mem_CreateWithIdempotency ctx user n key r = (Inr (u, False), r1)"
    and "\<forall>op \<in> set ops. \<not> forgets (u_Id u) op"
    and "contextError ctx' = None" and "u_Id u' \<noteq> []"
  shows "\<exists>v. mget (users (mem_run ops r1)) (u_Id u) = Some v \<and>
     mem_CreateWithIdempotency ctx' (Some u') n' key (mem_run ops r1) = (Inr (v, True), mem_run ops r1)"
proof -
  from assms(1,2) have "recorded key (u_Id u) r1" by (rule create_records)
  then have "recorded key (u_Id u) (mem_run ops r1)"
    using assms(3) by (intro mem_run_invariant [of ops "recorded key (u_Id u)"] recorded_exec) auto
  then show ?thesis using assms(1,4,5) by (rule replay_recorded)
qed

subsection \<open>Capacity over histories\<close>

definition op_max_ok :: "int \<Rightarrow> mem_op \<Rightarrow> bool" where
  "op_max_ok n op \<longleftrightarrow>
     (case op of OpCreate _ _ m \<Rightarrow> m \<le> n | OpCreateIdem _ _ m _ \<Rightarrow> m \<le> n | _ \<Rightarrow> True)"

lemma mem_exec_capacity:
  assumes "mem_inv r" and "int (length (users r)) \<le> n" and "op_max_ok n op"
  shows "int (length (users (mem_exec op r))) \<le> n"
proof (cases op)
  case (OpDelete ctx i)
  have "length (users (mem_exec op r)) \<le> length (users r)"
    using OpDelete by (auto simp: mem_Delete_def split: option.splits)
  with assms(2) show ?thesis by linarith
qed (use assms in \<open>auto simp: mem_Create_def mem_CreateWithIdempotency_def mem_Get_def mem_Update_def
    mem_ReadModifyUpdate_def mem_List_def mem_Ping_def mem_Close_def Let_def gomap_simps op_max_ok_def
    dest: mget_SomeD split: option.splits sum.splits\<close>)

text \<open>
  The user map stays within the configured capacity. From a repository with at most
  \<open>n\<close> users, after any history whose creates pass a limit of at most \<open>n\<close>, there are at
  most \<open>n\<close> users and the repository's representation invariant still holds.
\<close>

lemma capacity_never_exceeded:
  assumes "mem_inv r" and "int (length (users r)) \<le> n" and "\<forall>op \<in> set ops. op_max_ok n op"
  shows "mem_inv (mem_run ops r) \<and> int (card (dom (mem_abs (mem_run ops r)))) \<le> n"
proof -
  have "mem_inv (mem_run ops r) \<and> int (length (users (mem_run ops r))) \<le> n"
    using assms by (intro mem_run_invariant [of ops "\<lambda>r. mem_inv r \<and> int (length (users r)) \<le> n"])
      (auto intro: mem_exec_inv mem_exec_capacity)
  then show ?thesis by (simp add: card_keys mem_inv_ok)
qed

subsection \<open>Closing\<close>

lemma closed_exec: "closed r \<Longrightarrow> mem_exec op r = r"
  by (cases op) (auto simp: mem_Create_def mem_CreateWithIdempotency_def mem_Get_def mem_Update_def
    mem_ReadModifyUpdate_def mem_Delete_def mem_List_def mem_Ping_def mem_Close_def Let_def
    split: option.splits)

text \<open>
  A closed repository fails closed. After \<open>Close\<close>, no history of operations changes the
  stored users or keys, and every read and write with a live context and a well-formed
  argument is refused with \<open>ErrUnavailable\<close> (\<open>Ping\<close> alone still reports success, since it
  does not consult the flag).
\<close>

lemma closed_repository_refuses:
  assumes "contextError ctx = None" and "u_Id u \<noteq> []" and "\<not> blank i" and "0 < limit"
  shows "let r' = mem_run ops (snd (mem_Close r)) in
     r' = r\<lparr>closed := True\<rparr> \<and>
     mem_Create ctx (Some u) n r' = (Some ErrUnavailable, r') \<and>
     mem_CreateWithIdempotency ctx (Some u) n key r' = (Inl ErrUnavailable, r') \<and>
     mem_Get ctx i r' = (Inl ErrUnavailable, r') \<and>
     mem_Update ctx (Some u) r' = (Some ErrUnavailable, r') \<and>
     mem_ReadModifyUpdate ctx i (Some f) r' = (Inl ErrUnavailable, r') \<and>
     mem_Delete ctx i r' = (Some ErrUnavailable, r') \<and>
     mem_List E ctx limit a r' = (Inl ErrUnavailable, r') \<and>
     mem_Ping ctx r' = (None, r')"
proof -
  have "mem_run ops (r\<lparr>closed := True\<rparr>) = r\<lparr>closed := True\<rparr>"
    by (rule mem_run_invariant) (simp_all add: closed_exec)
  with assms show ?thesis
    by (simp add: mem_Close_def mem_Create_def mem_CreateWithIdempotency_def mem_Get_def mem_Update_def
        mem_ReadModifyUpdate_def mem_Delete_def mem_List_def mem_Ping_def)
qed

subsection \<open>Growth of the idempotency map\<close>

text \<open>One create with a key, then the deletion of the created user.\<close>

definition churn :: "Context option \<Rightarrow> User \<Rightarrow> int \<Rightarrow> string \<Rightarrow> mem_op list" where
  "churn ctx u n key = [OpCreateIdem ctx (Some u) n key, OpDelete ctx (u_Id u)]"

definition churns :: "Context option \<Rightarrow> User \<Rightarrow> int \<Rightarrow> nat \<Rightarrow> mem_op list" where
  "churns ctx u n k = concat (map (\<lambda>i. churn ctx u n (replicate (Suc i) CHR ''k'')) [0..<k])"

text \<open>
  C16: \<open>Delete\<close> leaves the deleted user's idempotency key behind, so the idempotency map is not
  bounded by the user capacity: alternating creates with fresh keys and deletes, with a
  capacity of one user, reaches a repository with no user at all and any given number of
  recorded keys.
\<close>

theorem idempotency_map_unbounded:
  assumes "contextError ctx = None" and "u_Id u \<noteq> []"
  shows "users (mem_run (churns ctx u 1 k) NewMemoryRepository) = [] \<and>
     length (idem (mem_run (churns ctx u 1 k) NewMemoryRepository)) = k"
proof -
  have "users (mem_run (churns ctx u 1 k) NewMemoryRepository) = [] \<and>
     \<not> closed (mem_run (churns ctx u 1 k) NewMemoryRepository) \<and>
     fst ` set (idem (mem_run (churns ctx u 1 k) NewMemoryRepository)) =
       (\<lambda>i. replicate (Suc i) CHR ''k'') ` {..<k} \<and>
     length (idem (mem_run (churns ctx u 1 k) NewMemoryRepository)) = k" (is "?P k")
  proof (induction k)
    case 0
    show ?case by (simp add: churns_def NewMemoryRepository_def)
  next
    case (Suc k)
    let ?r = "mem_run (churns ctx u 1 k) NewMemoryRepository"
    let ?key = "replicate (Suc k) CHR ''k''"
    have run: "mem_run (churns ctx u 1 (Suc k)) NewMemoryRepository = mem_run (churn ctx u 1 ?key) ?r"
      by (simp add: churns_def)
    have fresh: "?key \<notin> fst ` set (idem ?r)"
      using Suc by (auto simp del: replicate_Suc simp: replicate_eq_replicate)
    then have none: "mget (idem ?r) ?key = None" by (simp only: mget_None_iff not_False_eq_True)
    have "mem_run (churn ctx u 1 ?key) ?r = ?r\<lparr>users := [], idem := mput ?key (u_Id u) (idem ?r)\<rparr>"
      using Suc assms none
      by (simp add: churn_def mem_CreateWithIdempotency_def mem_Delete_def del: replicate_Suc)
    with run Suc fresh show ?case
      by (simp only: run) (simp add: gomap_simps lessThan_Suc del: replicate_Suc)
  qed
  then show ?thesis by simp
qed

subsection \<open>The properties at concrete inputs\<close>

definition user1 :: User where
  "user1 = \<lparr>u_Id = ''user-1'', u_Name = ''Ada'', u_Email = ''ada@example.com'', u_Age = 36,
     u_CreatedAt = Some (timestamp_of 0), u_UpdatedAt = Some (timestamp_of 0)\<rparr>"

definition user2 :: User where
  "user2 = user1\<lparr>u_Id := ''user-2''\<rparr>"

definition env0 :: env where
  "env0 = \<lparr>clk = \<lambda>_. 0, rnd = None, rng = \<lambda>ks. ks\<rparr>"

lemma contextError_Background [simp]: "contextError (Some Background) = None"
  by (simp add: contextError_def Background_def ctx_Err_def)

lemma user_ids [simp]: "u_Id user1 = ''user-1''" "u_Id user2 = ''user-2''"
  by (simp_all add: user1_def user2_def)

theorem idempotent_create_retry_witness:
  "\<exists>v. mget (users (mem_run [OpUpdate (Some Background) (Some (user1\<lparr>u_Age := 37\<rparr>)), OpDelete (Some Background) ''user-9'']
         \<lparr>users = [(''user-1'', user1)], idem = [(''k'', ''user-1'')], closed = False\<rparr>)) ''user-1'' = Some v"
proof -
  have "mem_CreateWithIdempotency (Some Background) (Some user1) 5 ''k'' NewMemoryRepository =
      (Inr (user1, False), \<lparr>users = [(''user-1'', user1)], idem = [(''k'', ''user-1'')], closed = False\<rparr>)"
    by (simp add: mem_CreateWithIdempotency_def NewMemoryRepository_def)
  from idempotent_create_retry [OF _ this, of "[OpUpdate (Some Background) (Some (user1\<lparr>u_Age := 37\<rparr>)),
      OpDelete (Some Background) ''user-9'']" "Some Background" user2]
  show ?thesis by (auto simp: forgets_def)
qed

theorem idempotency_map_unbounded_witness:
  "length (idem (mem_run (churns (Some Background) user1 1 1000) NewMemoryRepository)) = 1000"
  using idempotency_map_unbounded [of "Some Background" user1 1000] by simp

end
