(* ===== verification/Circuit_Breaker.thy ===== *)
theory Circuit_Breaker
  imports Memory_Repository
begin

text \<open>
  \<open>internal/storage/circuitbreaker.go\<close>: the circuit breaker decorator. \<open>beforeCall\<close> and
  \<open>afterCall\<close> run under the mutex and are atomic steps; the wrapped call between them is not,
  so admitted calls of several goroutines interleave. The theory has the operations, the
  step relation of the interleaved system with its invariant, the sequential behaviour
  (when the breaker opens, recovers, and when it cannot), and the proof that wrapping keeps
  the repository contract. The counters are unbounded integers: the code's \<open>int64\<close> counters
  grow by one per call.
\<close>

datatype CircuitBreakerState = CircuitBreakerClosed | CircuitBreakerOpen | CircuitBreakerHalfOpen

primrec CircuitBreakerState_String :: "CircuitBreakerState \<Rightarrow> string" where
  "CircuitBreakerState_String CircuitBreakerClosed = ''closed''"
| "CircuitBreakerState_String CircuitBreakerOpen = ''open''"
| "CircuitBreakerState_String CircuitBreakerHalfOpen = ''half-open''"

record CircuitBreakerConfig =
  cb_Enabled :: bool
  FailureThreshold :: int
  SuccessThreshold :: int
  OpenTimeout :: int
  MaxHalfOpenRequests :: int

definition DefaultCircuitBreakerConfig :: CircuitBreakerConfig where
  "DefaultCircuitBreakerConfig =
     \<lparr>cb_Enabled = False, FailureThreshold = 5, SuccessThreshold = 2,
      OpenTimeout = 30 * second, MaxHalfOpenRequests = 2\<rparr>"

text \<open>The atomic fields of \<open>CircuitBreakerRepository\<close>.\<close>

record breaker =
  cb_state :: CircuitBreakerState
  failureCount :: int
  successCount :: int
  halfOpenCount :: int
  lastFailureAt :: int
  openSince :: int

record 's CircuitBreakerRepository =
  cb_inner :: 's
  cb_brk :: breaker

text \<open>The constructor: the configuration with its defaults filled in, and the initial state.\<close>

definition cb_config :: "CircuitBreakerConfig \<Rightarrow> CircuitBreakerConfig" where
  "cb_config cfg =
     (let defaults = DefaultCircuitBreakerConfig;
          cfg = (if FailureThreshold cfg \<le> 0
                 then cfg\<lparr>FailureThreshold := FailureThreshold defaults\<rparr> else cfg);
          cfg = (if SuccessThreshold cfg \<le> 0
                 then cfg\<lparr>SuccessThreshold := SuccessThreshold defaults\<rparr> else cfg);
          cfg = (if OpenTimeout cfg \<le> 0
                 then cfg\<lparr>OpenTimeout := OpenTimeout defaults\<rparr> else cfg)
      in (if MaxHalfOpenRequests cfg \<le> 0
          then cfg\<lparr>MaxHalfOpenRequests := MaxHalfOpenRequests defaults\<rparr> else cfg))"

definition new_breaker :: breaker where
  "new_breaker =
     \<lparr>cb_state = CircuitBreakerClosed, failureCount = 0, successCount = 0, halfOpenCount = 0,
      lastFailureAt = 0, openSince = 0\<rparr>"

definition NewCircuitBreakerRepository :: "'s \<Rightarrow> 's CircuitBreakerRepository" where
  "NewCircuitBreakerRepository repo = \<lparr>cb_inner = repo, cb_brk = new_breaker\<rparr>"

definition ResetCounts :: "breaker \<Rightarrow> breaker" where
  "ResetCounts b = b\<lparr>failureCount := 0, successCount := 0, halfOpenCount := 0\<rparr>"

definition ResetForce :: "breaker \<Rightarrow> breaker" where
  "ResetForce b = ResetCounts (b\<lparr>cb_state := CircuitBreakerClosed\<rparr>)"

definition State :: "breaker \<Rightarrow> CircuitBreakerState" where
  "State b = cb_state b"

definition Counts :: "breaker \<Rightarrow> int \<times> int \<times> int" where
  "Counts b = (failureCount b, successCount b, halfOpenCount b)"

definition beforeCall :: "env \<Rightarrow> CircuitBreakerConfig \<Rightarrow> breaker \<Rightarrow> go_error option \<times> breaker" where
  "beforeCall E cfg b =
     (case cb_state b of
        CircuitBreakerOpen \<Rightarrow>
          if sat64 (clk E BreakerSince - openSince b) > OpenTimeout cfg
          then (None, b\<lparr>cb_state := CircuitBreakerHalfOpen, successCount := 0, halfOpenCount := 1\<rparr>)
          else (Some ErrCircuitOpen, b)
      | CircuitBreakerHalfOpen \<Rightarrow>
          if halfOpenCount b \<ge> MaxHalfOpenRequests cfg then (Some ErrCircuitOpen, b)
          else (None, b\<lparr>halfOpenCount := halfOpenCount b + 1\<rparr>)
      | CircuitBreakerClosed \<Rightarrow> (None, b))"

definition afterCall :: "env \<Rightarrow> CircuitBreakerConfig \<Rightarrow> go_error option \<Rightarrow> breaker \<Rightarrow> breaker" where
  "afterCall E cfg err b =
     (case err of
        None \<Rightarrow>
          (case cb_state b of
             CircuitBreakerHalfOpen \<Rightarrow>
               (let b = b\<lparr>successCount := successCount b + 1\<rparr>
                in if successCount b \<ge> SuccessThreshold cfg
                   then ResetCounts (b\<lparr>cb_state := CircuitBreakerClosed\<rparr>) else b)
           | CircuitBreakerClosed \<Rightarrow> b\<lparr>failureCount := 0\<rparr>
           | CircuitBreakerOpen \<Rightarrow> b)
      | Some e \<Rightarrow>
          if e = ErrUnavailable then b
          else
            (let b = b\<lparr>lastFailureAt := clk E BreakerFailureAt\<rparr>
             in if cb_state b = CircuitBreakerHalfOpen
                then b\<lparr>failureCount := 0, cb_state := CircuitBreakerOpen,
                       openSince := clk E BreakerOpenAt\<rparr>
                else
                  (let b = b\<lparr>failureCount := failureCount b + 1\<rparr>
                   in if cb_state b = CircuitBreakerClosed \<and> failureCount b \<ge> FailureThreshold cfg
                      then b\<lparr>cb_state := CircuitBreakerOpen, openSince := clk E BreakerOpenAt\<rparr>
                      else b)))"

text \<open>
  The common shape of the wrapped methods: ask the breaker, run the inner operation, report
  its error. \<open>fail\<close> builds the result of a rejected call and \<open>errOf\<close> reads a result's error.
\<close>

definition guarded ::
  "env \<Rightarrow> CircuitBreakerConfig \<Rightarrow> (go_error \<Rightarrow> 'r) \<Rightarrow> ('r \<Rightarrow> go_error option) \<Rightarrow> ('s \<Rightarrow> 'r \<times> 's) \<Rightarrow>
   's CircuitBreakerRepository \<Rightarrow> 'r \<times> 's CircuitBreakerRepository" where
  "guarded E cfg fail errOf op cb =
     (case beforeCall E cfg (cb_brk cb) of
        (Some err, b) \<Rightarrow> (fail err, cb\<lparr>cb_brk := b\<rparr>)
      | (None, b) \<Rightarrow>
          (case op (cb_inner cb) of
             (r, s) \<Rightarrow> (r, cb\<lparr>cb_inner := s, cb_brk := afterCall E cfg (errOf r) b\<rparr>)))"

definition cb_Create where
  "cb_Create cfg R E ctx user maxUsers = guarded E cfg Some (\<lambda>e. e) (Create R E ctx user maxUsers)"

definition cb_CreateWithIdempotency where
  "cb_CreateWithIdempotency cfg R E ctx user maxUsers key =
     guarded E cfg Inl err_of (CreateWithIdempotency R E ctx user maxUsers key)"

definition cb_Get where
  "cb_Get cfg R E ctx i = guarded E cfg Inl err_of (Get R E ctx i)"

definition cb_Update where
  "cb_Update cfg R E ctx user = guarded E cfg Some (\<lambda>e. e) (Update R E ctx user)"

definition cb_ReadModifyUpdate where
  "cb_ReadModifyUpdate cfg R E ctx i fn = guarded E cfg Inl err_of (ReadModifyUpdate R E ctx i fn)"

definition cb_List where
  "cb_List cfg R E ctx limit afterID = guarded E cfg Inl err_of (List R E ctx limit afterID)"

definition cb_Delete where
  "cb_Delete cfg R E ctx i = guarded E cfg Some (\<lambda>e. e) (Delete R E ctx i)"

definition cb_Ping where
  "cb_Ping cfg R E ctx = guarded E cfg Some (\<lambda>e. e) (Ping R E ctx)"

definition cb_Close where
  "cb_Close R cb =
     (case Close R (cb_inner cb) of
        (r, s) \<Rightarrow> (r, cb\<lparr>cb_inner := s, cb_brk := ResetForce (cb_brk cb)\<rparr>))"

definition circuit_breaker_ops ::
  "CircuitBreakerConfig \<Rightarrow> 's Repository \<Rightarrow> 's CircuitBreakerRepository Repository" where
  "circuit_breaker_ops cfg R =
     \<lparr>Create = cb_Create cfg R,
      CreateWithIdempotency = cb_CreateWithIdempotency cfg R,
      Get = cb_Get cfg R,
      Update = cb_Update cfg R,
      ReadModifyUpdate = cb_ReadModifyUpdate cfg R,
      Delete = cb_Delete cfg R,
      List = cb_List cfg R,
      Ping = cb_Ping cfg R,
      Close = cb_Close R\<rparr>"

lemmas cb_op_defs [repo_simps] =
  cb_Create_def cb_CreateWithIdempotency_def cb_Get_def cb_Update_def cb_ReadModifyUpdate_def
  cb_List_def cb_Delete_def cb_Ping_def cb_Close_def

section \<open>Wrapping keeps the contract\<close>

lemma guarded_cases:
  assumes "guarded E cfg fail errOf op cb = (r, cb')"
  obtains (rejected) "r = fail ErrCircuitOpen" and "cb_inner cb' = cb_inner cb"
    | (called) "op (cb_inner cb) = (r, cb_inner cb')"
  using assms by (auto simp: guarded_def beforeCall_def split: prod.splits option.splits
      CircuitBreakerState.splits if_splits)

locale breaker_over = safe_repository +
  fixes cfg :: CircuitBreakerConfig
begin

abbreviation wrapped_abs :: "'a CircuitBreakerRepository \<Rightarrow> store" where
  "wrapped_abs cb \<equiv> abs (cb_inner cb)"

abbreviation wrapped_inv :: "'a CircuitBreakerRepository \<Rightarrow> bool" where
  "wrapped_inv cb \<equiv> inv (cb_inner cb)"

lemma rejected_err: "spec_Create m u n (Some ErrCircuitOpen) m" "spec_Update m u (Some ErrCircuitOpen) m"
  "spec_CreateWithIdempotency m u n k (Inl ErrCircuitOpen) m" "spec_Get m i (Inl ErrCircuitOpen) m"
  "spec_ReadModifyUpdate m i f (Inl ErrCircuitOpen) m" "spec_Delete m i (Some ErrCircuitOpen) m"
  "spec_List m l a (Inl ErrCircuitOpen) m"
  by (simp_all add: repo_specs)

sublocale wrapped: safe_repository "circuit_breaker_ops cfg R" wrapped_abs wrapped_inv
proof (unfold_locales, goal_cases)
  case 1 then show ?case by (rule fin)
next
  case 2 from 2(2) show ?case
    unfolding circuit_breaker_ops_def cb_Create_def Repository.simps
    by (cases rule: guarded_cases) (use 2(1) rejected_err Create_ok in auto)
next
  case 3 from 3(2) show ?case
    unfolding circuit_breaker_ops_def cb_CreateWithIdempotency_def Repository.simps
    by (cases rule: guarded_cases) (use 3(1) rejected_err CreateWithIdempotency_ok in auto)
next
  case 4 from 4(2) show ?case
    unfolding circuit_breaker_ops_def cb_Get_def Repository.simps
    by (cases rule: guarded_cases) (use 4(1) rejected_err Get_ok in auto)
next
  case 5 from 5(2) show ?case
    unfolding circuit_breaker_ops_def cb_Update_def Repository.simps
    by (cases rule: guarded_cases) (use 5(1) rejected_err Update_ok in auto)
next
  case 6 from 6(2) show ?case
    unfolding circuit_breaker_ops_def cb_Delete_def Repository.simps
    by (cases rule: guarded_cases) (use 6(1) rejected_err Delete_ok in auto)
next
  case 7 from 7(2) show ?case
    unfolding circuit_breaker_ops_def cb_List_def Repository.simps
    by (cases rule: guarded_cases) (use 7(1) rejected_err List_ok in auto)
next
  case 8 from 8(2) show ?case
    unfolding circuit_breaker_ops_def cb_Ping_def Repository.simps
    by (cases rule: guarded_cases) (use 8(1) Ping_ok in auto)
next
  case (9 s r s')
  obtain r0 s0 where c: "Close R (cb_inner s) = (r0, s0)" by fastforce
  from Close_ok [OF 9(1) c] 9(2) c show ?case
    by (auto simp: circuit_breaker_ops_def cb_Close_def)
next
  case 10 from 10(2) show ?case
    unfolding circuit_breaker_ops_def cb_ReadModifyUpdate_def Repository.simps
    by (cases rule: guarded_cases) (use 10(1) rejected_err ReadModifyUpdate_ok in auto)
qed

end

interpretation cbm: breaker_over memory_ops mem_abs mem_inv cfg for cfg
  by unfold_locales

section \<open>The interleaved system\<close>

text \<open>
  The breaker with its calls in flight. A call is admitted or rejected by \<open>beforeCall\<close> and,
  once admitted, finishes later with any error; an operator may reset the breaker. Clock
  readings are arbitrary in every step.
\<close>

record cb_sys =
  sys_brk :: breaker
  in_flight :: nat

inductive cb_step :: "CircuitBreakerConfig \<Rightarrow> cb_sys \<Rightarrow> cb_sys \<Rightarrow> bool" for cfg where
  admit: "beforeCall E cfg (sys_brk s) = (None, b) \<Longrightarrow>
     cb_step cfg s \<lparr>sys_brk = b, in_flight = Suc (in_flight s)\<rparr>"
| reject: "beforeCall E cfg (sys_brk s) = (Some e, b) \<Longrightarrow> cb_step cfg s (s\<lparr>sys_brk := b\<rparr>)"
| finish: "in_flight s = Suc n \<Longrightarrow>
     cb_step cfg s \<lparr>sys_brk = afterCall E cfg err (sys_brk s), in_flight = n\<rparr>"

inductive cb_reachable :: "CircuitBreakerConfig \<Rightarrow> cb_sys \<Rightarrow> bool" for cfg where
  start: "cb_reachable cfg \<lparr>sys_brk = new_breaker, in_flight = 0\<rparr>"
| step: "cb_reachable cfg s \<Longrightarrow> cb_step cfg s t \<Longrightarrow> cb_reachable cfg t"
| reset: "cb_reachable cfg s \<Longrightarrow> cb_reachable cfg (s\<lparr>sys_brk := ResetForce (sys_brk s)\<rparr>)"

inductive_cases cb_stepE: "cb_step cfg s t"

definition cb_cfg_ok :: "CircuitBreakerConfig \<Rightarrow> bool" where
  "cb_cfg_ok cfg \<longleftrightarrow> 0 < FailureThreshold cfg \<and> 0 < SuccessThreshold cfg \<and> 0 < OpenTimeout cfg \<and>
     0 < MaxHalfOpenRequests cfg"

lemma cb_config_ok: "cb_cfg_ok (cb_config cfg)"
  by (simp add: cb_cfg_ok_def cb_config_def DefaultCircuitBreakerConfig_def Let_def)

text \<open>The relation the code keeps between its state and its counters.\<close>

definition cb_inv :: "CircuitBreakerConfig \<Rightarrow> breaker \<Rightarrow> bool" where
  "cb_inv cfg b \<longleftrightarrow>
     (case cb_state b of
        CircuitBreakerClosed \<Rightarrow> 0 \<le> failureCount b \<and> failureCount b < FailureThreshold cfg \<and>
          successCount b = 0 \<and> halfOpenCount b = 0
      | CircuitBreakerHalfOpen \<Rightarrow> 1 \<le> halfOpenCount b \<and> halfOpenCount b \<le> MaxHalfOpenRequests cfg \<and>
          0 \<le> successCount b \<and> successCount b < SuccessThreshold cfg
      | CircuitBreakerOpen \<Rightarrow> True)"

lemma beforeCall_inv: "cb_cfg_ok cfg \<Longrightarrow> cb_inv cfg b \<Longrightarrow> beforeCall E cfg b = (r, b') \<Longrightarrow> cb_inv cfg b'"
  by (auto simp: cb_inv_def beforeCall_def cb_cfg_ok_def split: CircuitBreakerState.splits if_splits)

lemma afterCall_inv: "cb_cfg_ok cfg \<Longrightarrow> cb_inv cfg b \<Longrightarrow> cb_inv cfg (afterCall E cfg err b)"
  by (cases "cb_state b") (auto simp: cb_inv_def afterCall_def ResetCounts_def cb_cfg_ok_def Let_def
      split: option.splits)

lemma ResetForce_inv: "cb_cfg_ok cfg \<Longrightarrow> cb_inv cfg (ResetForce b)"
  by (simp add: cb_inv_def ResetForce_def ResetCounts_def cb_cfg_ok_def)


section \<open>Sequential behaviour\<close>

text \<open>One call with nothing else in flight; the wrapped operation ends with \<open>err\<close>.\<close>

definition cb_call :: "CircuitBreakerConfig \<Rightarrow> env \<times> go_error option \<Rightarrow> breaker \<Rightarrow> breaker" where
  "cb_call cfg c b =
     (case beforeCall (fst c) cfg b of
        (Some e, b') \<Rightarrow> b'
      | (None, b') \<Rightarrow> afterCall (fst c) cfg (snd c) b')"

lemma guarded_cb_call:
  "cb_brk (snd (guarded E cfg fail errOf op cb)) = cb_call cfg (E, errOf (fst (op (cb_inner cb)))) (cb_brk cb)"
  by (auto simp: guarded_def cb_call_def split: prod.splits option.splits)

definition is_failure :: "go_error option \<Rightarrow> bool" where
  "is_failure err \<longleftrightarrow> err \<noteq> None \<and> err \<noteq> Some ErrUnavailable"

text \<open>The time-out of an open breaker has passed at the clock reading of \<open>E\<close>.\<close>

definition timed_out :: "CircuitBreakerConfig \<Rightarrow> env \<Rightarrow> breaker \<Rightarrow> bool" where
  "timed_out cfg E b \<longleftrightarrow> sat64 (clk E BreakerSince - openSince b) > OpenTimeout cfg"

lemma call_closed_failure:
  assumes "cb_state b = CircuitBreakerClosed" and "is_failure (snd c)"
  shows "cb_state (cb_call cfg c b) =
      (if failureCount b + 1 \<ge> FailureThreshold cfg then CircuitBreakerOpen else CircuitBreakerClosed)"
    and "failureCount (cb_call cfg c b) = failureCount b + 1"
  using assms by (auto simp: cb_call_def beforeCall_def afterCall_def is_failure_def Let_def split: option.splits)

lemma closed_failures:
  assumes "cb_state b = CircuitBreakerClosed" and "\<forall>c \<in> set cs. is_failure (snd c)"
    and "failureCount b + int (length cs) \<le> FailureThreshold cfg" and "cs \<noteq> []"
  shows "cb_state (fold (cb_call cfg) cs b) =
      (if failureCount b + int (length cs) = FailureThreshold cfg then CircuitBreakerOpen
       else CircuitBreakerClosed)"
  using assms
proof (induction cs arbitrary: b)
  case Nil
  then show ?case by simp
next
  case (Cons c cs)
  then have "is_failure (snd c)" by simp
  note step = call_closed_failure [OF Cons.prems(1) this, of cfg]
  show ?case
  proof (cases "cs = []")
    case True
    with step Cons.prems show ?thesis by auto
  next
    case False
    then have "0 < int (length cs)" by (cases cs) auto
    moreover have "failureCount b + (1 + int (length cs)) \<le> FailureThreshold cfg"
      using Cons.prems(3) by simp
    ultimately have below: "failureCount b + 1 < FailureThreshold cfg" by linarith
    with step(1) have closed: "cb_state (cb_call cfg c b) = CircuitBreakerClosed" by simp
    from Cons.IH [OF closed] False Cons.prems step(2) show ?thesis by (simp add: add.assoc)
  qed
qed

text \<open>
  A fresh breaker opens after exactly \<open>FailureThreshold\<close> consecutive failures. Every error except
  \<open>ErrUnavailable\<close> is a failure, a missing user (\<open>ErrNotFound\<close>) included.
\<close>

lemma opens_after:
  assumes "0 < length cs" and "\<forall>c \<in> set cs. is_failure (snd c)" and "int (length cs) \<le> FailureThreshold cfg"
  shows "cb_state (fold (cb_call cfg) cs new_breaker) =
     (if int (length cs) = FailureThreshold cfg then CircuitBreakerOpen else CircuitBreakerClosed)"
  using closed_failures [of new_breaker cs cfg] assms by (simp add: new_breaker_def)

subsection \<open>Recovery\<close>

lemma call_halfopen_success:
  assumes "cb_state b = CircuitBreakerHalfOpen" and "halfOpenCount b < MaxHalfOpenRequests cfg"
  shows "cb_call cfg (E, None) b =
     (if successCount b + 1 \<ge> SuccessThreshold cfg
      then ResetCounts (b\<lparr>cb_state := CircuitBreakerClosed\<rparr>)
      else b\<lparr>halfOpenCount := halfOpenCount b + 1, successCount := successCount b + 1\<rparr>)"
  using assms by (simp add: cb_call_def beforeCall_def afterCall_def ResetCounts_def Let_def)

lemma call_timed_out_success:
  assumes "cb_state b = CircuitBreakerOpen" and "timed_out cfg E b"
  shows "cb_call cfg (E, None) b =
     (if 1 \<ge> SuccessThreshold cfg then ResetCounts (b\<lparr>cb_state := CircuitBreakerClosed\<rparr>)
      else b\<lparr>cb_state := CircuitBreakerHalfOpen, halfOpenCount := 1, successCount := 1\<rparr>)"
  using assms by (simp add: cb_call_def beforeCall_def afterCall_def ResetCounts_def timed_out_def Let_def)

text \<open>\<open>k\<close> successful probes of a half-open episode.\<close>

lemma halfopen_successes:
  assumes "cb_state b = CircuitBreakerHalfOpen"
    and "\<forall>c \<in> set cs. snd c = None"
    and "halfOpenCount b + int (length cs) \<le> MaxHalfOpenRequests cfg"
    and "successCount b < SuccessThreshold cfg"
    and "successCount b + int (length cs) \<le> SuccessThreshold cfg"
  shows "fold (cb_call cfg) cs b =
     (if successCount b + int (length cs) = SuccessThreshold cfg
      then ResetCounts (b\<lparr>cb_state := CircuitBreakerClosed\<rparr>)
      else b\<lparr>halfOpenCount := halfOpenCount b + int (length cs),
             successCount := successCount b + int (length cs)\<rparr>)"
  using assms
proof (induction cs arbitrary: b)
  case Nil
  then show ?case by simp
next
  case (Cons c cs)
  obtain E where c: "c = (E, None)" using Cons.prems(2) by (cases c) auto
  have step: "cb_call cfg c b =
     (if successCount b + 1 \<ge> SuccessThreshold cfg
      then ResetCounts (b\<lparr>cb_state := CircuitBreakerClosed\<rparr>)
      else b\<lparr>halfOpenCount := halfOpenCount b + 1, successCount := successCount b + 1\<rparr>)"
    unfolding c using Cons.prems(1,3) by (intro call_halfopen_success) auto
  show ?case
  proof (cases "successCount b + 1 \<ge> SuccessThreshold cfg")
    case True
    moreover have "successCount b + (1 + int (length cs)) \<le> SuccessThreshold cfg"
      using Cons.prems(5) by simp
    ultimately have "int (length cs) \<le> 0" by linarith
    then have "cs = []" by simp
    with True step Cons.prems(5) show ?thesis by simp
  next
    case False
    with step have b': "cb_call cfg c b =
        b\<lparr>halfOpenCount := halfOpenCount b + 1, successCount := successCount b + 1\<rparr>" by simp
    have "fold (cb_call cfg) cs (cb_call cfg c b) =
      (if successCount (cb_call cfg c b) + int (length cs) = SuccessThreshold cfg
       then ResetCounts ((cb_call cfg c b)\<lparr>cb_state := CircuitBreakerClosed\<rparr>)
       else (cb_call cfg c b)\<lparr>halfOpenCount := halfOpenCount (cb_call cfg c b) + int (length cs),
             successCount := successCount (cb_call cfg c b) + int (length cs)\<rparr>)"
      by (rule Cons.IH) (use Cons.prems False b' in auto)
    with b' show ?thesis by (simp add: add.assoc ResetCounts_def)
  qed
qed


subsection \<open>Half-open episodes that never end\<close>

text \<open>Every probe of the episode has been admitted and none is in flight any more.\<close>

definition wedged :: "CircuitBreakerConfig \<Rightarrow> cb_sys \<Rightarrow> bool" where
  "wedged cfg s \<longleftrightarrow> cb_state (sys_brk s) = CircuitBreakerHalfOpen \<and>
     MaxHalfOpenRequests cfg \<le> halfOpenCount (sys_brk s) \<and> in_flight s = 0"

lemma wedged_step: "wedged cfg s \<Longrightarrow> cb_step cfg s t \<Longrightarrow> t = s"
  by (erule cb_stepE) (auto simp: wedged_def beforeCall_def)

lemma wedged_call: "cb_state b = CircuitBreakerHalfOpen \<Longrightarrow> MaxHalfOpenRequests cfg \<le> halfOpenCount b \<Longrightarrow>
    beforeCall E cfg b = (Some ErrCircuitOpen, b)"
  by (simp add: beforeCall_def)

lemma call_halfopen_lost:
  assumes "cb_state b = CircuitBreakerHalfOpen"
  shows "cb_call cfg (E, Some ErrUnavailable) b =
     (if halfOpenCount b \<ge> MaxHalfOpenRequests cfg then b else b\<lparr>halfOpenCount := halfOpenCount b + 1\<rparr>)"
  using assms by (simp add: cb_call_def beforeCall_def afterCall_def)

lemma halfopen_lost:
  assumes "cb_state b = CircuitBreakerHalfOpen" and "\<forall>c \<in> set cs. snd c = Some ErrUnavailable"
    and "halfOpenCount b \<le> MaxHalfOpenRequests cfg"
  shows "fold (cb_call cfg) cs b =
     b\<lparr>halfOpenCount := min (MaxHalfOpenRequests cfg) (halfOpenCount b + int (length cs))\<rparr>"
  using assms
proof (induction cs arbitrary: b)
  case Nil
  then show ?case by simp
next
  case (Cons c cs)
  obtain E where c: "c = (E, Some ErrUnavailable)" using Cons.prems(2) by (cases c) auto
  show ?case
  proof (cases "halfOpenCount b \<ge> MaxHalfOpenRequests cfg")
    case True
    with Cons show ?thesis by (simp add: c call_halfopen_lost)
  next
    case False
    have "fold (cb_call cfg) cs (b\<lparr>halfOpenCount := halfOpenCount b + 1\<rparr>) =
        (b\<lparr>halfOpenCount := halfOpenCount b + 1\<rparr>)\<lparr>halfOpenCount :=
           min (MaxHalfOpenRequests cfg) (halfOpenCount (b\<lparr>halfOpenCount := halfOpenCount b + 1\<rparr>) + int (length cs))\<rparr>"
      by (rule Cons.IH) (use Cons.prems False in auto)
    with False Cons.prems(1) show ?thesis by (simp add: c call_halfopen_lost add.assoc)
  qed
qed

text \<open>
  C19: a half-open breaker can wedge. When \<open>MaxHalfOpenRequests\<close> probes in a row end with
  \<open>ErrUnavailable\<close> (which counts as neither success nor failure), the breaker stays half-open
  with its probes used up, and from then on, whatever time passes, every call is rejected and
  no step of the system changes anything: only an explicit reset helps.
\<close>

theorem lost_probes_wedge:
  assumes "cb_state b = CircuitBreakerOpen" and "timed_out cfg E b"
    and "0 < MaxHalfOpenRequests cfg"
    and "int (length cs) = MaxHalfOpenRequests cfg - 1" and "\<forall>c \<in> set cs. snd c = Some ErrUnavailable"
  shows "let b' = fold (cb_call cfg) ((E, Some ErrUnavailable) # cs) b; s = \<lparr>sys_brk = b', in_flight = 0\<rparr> in
     wedged cfg s \<and> (\<forall>E'. beforeCall E' cfg b' = (Some ErrCircuitOpen, b')) \<and>
     (\<forall>t. (cb_step cfg)\<^sup>*\<^sup>* s t \<longrightarrow> t = s)"
proof -
  let ?b = "b\<lparr>cb_state := CircuitBreakerHalfOpen, successCount := 0, halfOpenCount := 1\<rparr>"
  let ?b' = "fold (cb_call cfg) cs ?b"
  have first: "cb_call cfg (E, Some ErrUnavailable) b = ?b"
    using assms(1,2) by (simp add: cb_call_def beforeCall_def afterCall_def timed_out_def)
  have "?b' = ?b\<lparr>halfOpenCount := min (MaxHalfOpenRequests cfg) (halfOpenCount ?b + int (length cs))\<rparr>"
    by (rule halfopen_lost) (use assms in auto)
  then have b': "?b' = ?b\<lparr>halfOpenCount := MaxHalfOpenRequests cfg\<rparr>" using assms(4) by simp
  then have w: "wedged cfg \<lparr>sys_brk = ?b', in_flight = 0\<rparr>" by (simp add: wedged_def)
  have "t = s" if "(cb_step cfg)\<^sup>*\<^sup>* s t" "wedged cfg s" for s t
    using that by (induction rule: rtranclp_induct) (auto dest: wedged_step)
  with w b' first show ?thesis by (auto simp: Let_def wedged_call)
qed

text \<open>
  The same happens to a healthy store when \<open>MaxHalfOpenRequests < SuccessThreshold\<close>: after
  the time-out, \<open>MaxHalfOpenRequests\<close> successful probes leave the breaker half-open and
  rejecting every further call.
\<close>

lemma too_few_probes_wedge:
  assumes "cb_state b = CircuitBreakerOpen" and "timed_out cfg E b"
    and "0 < MaxHalfOpenRequests cfg" and "MaxHalfOpenRequests cfg < SuccessThreshold cfg"
    and "int (length cs) = MaxHalfOpenRequests cfg - 1" and "\<forall>c \<in> set cs. snd c = None"
  shows "let b' = fold (cb_call cfg) ((E, None) # cs) b in
     wedged cfg \<lparr>sys_brk = b', in_flight = 0\<rparr> \<and> (\<forall>E'. beforeCall E' cfg b' = (Some ErrCircuitOpen, b'))"
proof -
  let ?b = "b\<lparr>cb_state := CircuitBreakerHalfOpen, halfOpenCount := 1, successCount := 1\<rparr>"
  have first: "cb_call cfg (E, None) b = ?b" using assms by (simp add: call_timed_out_success)
  have "fold (cb_call cfg) cs ?b =
     (if successCount ?b + int (length cs) = SuccessThreshold cfg
      then ResetCounts (?b\<lparr>cb_state := CircuitBreakerClosed\<rparr>)
      else ?b\<lparr>halfOpenCount := halfOpenCount ?b + int (length cs),
             successCount := successCount ?b + int (length cs)\<rparr>)"
    by (rule halfopen_successes) (use assms in auto)
  with first assms(4,5) show ?thesis by (simp add: Let_def wedged_def wedged_call)
qed

section \<open>Lookups of missing users\<close>

lemma mem_Get_missing:
  "contextError ctx = None \<Longrightarrow> \<not> closed r \<Longrightarrow> i \<notin> fst ` set (users r) \<Longrightarrow> mem_Get ctx i r = (Inl ErrNotFound, r)"
  by (auto simp: mem_Get_def split: option.splits dest: mget_SomeD)

lemma missing_lookups:
  assumes "contextError ctx = None" and "\<not> closed r" and "i \<notin> fst ` set (users r)"
  shows "((\<lambda>cb. snd (cb_Get cfg memory_ops E ctx i cb)) ^^ k) \<lparr>cb_inner = r, cb_brk = b\<rparr> =
     \<lparr>cb_inner = r, cb_brk = fold (cb_call cfg) (replicate k (E, Some ErrNotFound)) b\<rparr>"
proof (induction k)
  case 0
  show ?case by simp
next
  case (Suc k)
  have one: "snd (cb_Get cfg memory_ops E ctx i \<lparr>cb_inner = r, cb_brk = b'\<rparr>) =
      \<lparr>cb_inner = r, cb_brk = cb_call cfg (E, Some ErrNotFound) b'\<rparr>" for b'
    using mem_Get_missing [OF assms]
    by (auto simp: cb_Get_def guarded_def cb_call_def memory_ops_def split: prod.splits option.splits)
  have "replicate (Suc k) (E, Some ErrNotFound) = replicate k (E, Some ErrNotFound) @ [(E, Some ErrNotFound)]"
    by (simp add: replicate_append_same)
  with Suc one show ?case by simp
qed

text \<open>
  C20: lookups of users that do not exist trip the breaker of a healthy repository. After
  \<open>FailureThreshold\<close> requests for a missing identifier, each answered with \<open>ErrNotFound\<close>, the
  breaker is open, and until the time-out passes a request for a user that is stored is
  rejected with \<open>ErrCircuitOpen\<close>.
\<close>

theorem missing_users_open_breaker:
  assumes "contextError ctx = None" and "\<not> closed r" and "i \<notin> fst ` set (users r)"
    and "k = nat (FailureThreshold (cb_config cfg))"
    and "cb = ((\<lambda>cb. snd (cb_Get (cb_config cfg) memory_ops E ctx i cb)) ^^ k) (NewCircuitBreakerRepository r)"
    and "\<not> timed_out (cb_config cfg) E' (cb_brk cb)"
  shows "cb_inner cb = r \<and> cb_state (cb_brk cb) = CircuitBreakerOpen \<and>
     cb_Get (cb_config cfg) memory_ops E' ctx j cb = (Inl ErrCircuitOpen, cb)"
proof -
  let ?cfg = "cb_config cfg"
  let ?b = "fold (cb_call ?cfg) (replicate k (E, Some ErrNotFound)) new_breaker"
  have ft: "0 < FailureThreshold ?cfg" using cb_config_ok [of cfg] by (simp add: cb_cfg_ok_def)
  have cb: "cb = \<lparr>cb_inner = r, cb_brk = ?b\<rparr>"
    using missing_lookups [OF assms(1-3)] assms(5) by (simp add: NewCircuitBreakerRepository_def)
  have "cb_state ?b = (if int (length (replicate k (E, Some ErrNotFound))) = FailureThreshold ?cfg
      then CircuitBreakerOpen else CircuitBreakerClosed)"
    by (rule opens_after) (use ft assms(4) in \<open>auto simp: is_failure_def\<close>)
  then have "cb_state ?b = CircuitBreakerOpen" using assms(4) ft by simp
  with assms(6) cb show ?thesis
    by (simp add: cb_Get_def guarded_def beforeCall_def timed_out_def)
qed

section \<open>The properties at concrete inputs\<close>

definition cfg1 :: CircuitBreakerConfig where
  "cfg1 = \<lparr>cb_Enabled = True, FailureThreshold = 2, SuccessThreshold = 2, OpenTimeout = 5,
     MaxHalfOpenRequests = 2\<rparr>"

text \<open>An environment whose clock shows the same reading everywhere.\<close>

definition at :: "int \<Rightarrow> env" where
  "at t = env0\<lparr>clk := \<lambda>_. t\<rparr>"

definition opened :: breaker where
  "opened = new_breaker\<lparr>cb_state := CircuitBreakerOpen, openSince := 0\<rparr>"

lemma cfg1_config [simp]: "cb_config cfg1 = cfg1"
  by (simp add: cb_config_def cfg1_def Let_def)

lemma opened_timed_out [simp]: "timed_out cfg1 (at 10) opened" "timed_out (cfg1\<lparr>SuccessThreshold := 3\<rparr>) (at 10) opened"
  by (simp_all add: timed_out_def cfg1_def at_def env0_def opened_def new_breaker_def sat64_def)



theorem lost_probes_wedge_witness:
  "wedged cfg1 \<lparr>sys_brk = fold (cb_call cfg1) [(at 10, Some ErrUnavailable), (at 11, Some ErrUnavailable)] opened,
     in_flight = 0\<rparr>"
  using lost_probes_wedge [of opened cfg1 "at 10" "[(at 11, Some ErrUnavailable)]"]
  by (simp add: Let_def) (simp add: opened_def cfg1_def)

definition store1 :: MemoryRepository where
  "store1 = NewMemoryRepository\<lparr>users := [(''user-1'', user1)]\<rparr>"

definition tripped :: "MemoryRepository CircuitBreakerRepository" where
  "tripped = ((\<lambda>cb. snd (cb_Get cfg1 memory_ops (at 1) (Some Background) ''user-9'' cb)) ^^ 2)
     (NewCircuitBreakerRepository store1)"

theorem missing_users_open_breaker_witness:
  "cb_Get cfg1 memory_ops (at 2) (Some Background) ''user-1'' tripped = (Inl ErrCircuitOpen, tripped)"
proof -
  have b: "cb_brk tripped = \<lparr>cb_state = CircuitBreakerOpen, failureCount = 2, successCount = 0,
      halfOpenCount = 0, lastFailureAt = 1, openSince = 1\<rparr>"
    unfolding tripped_def NewCircuitBreakerRepository_def
    by (subst missing_lookups) (simp_all add: store1_def NewMemoryRepository_def new_breaker_def cb_call_def
        beforeCall_def afterCall_def cfg1_def at_def env0_def numeral_2_eq_2 Let_def)
  have "\<not> timed_out cfg1 (at 2) (cb_brk tripped)"
    by (simp add: b timed_out_def cfg1_def at_def sat64_def)
  then show ?thesis
    using missing_users_open_breaker [where ctx = "Some Background" and r = store1 and i = "''user-9''"
      and k = 2 and cfg = cfg1 and E = "at 1" and cb = tripped and E' = "at 2" and j = "''user-1''"]
    by (simp add: tripped_def store1_def NewMemoryRepository_def) (simp add: cfg1_def)
qed

end
