(* ===== verification/Cache_Repository.thy ===== *)
theory Cache_Repository
  imports Circuit_Breaker
begin

text \<open>
  \<open>internal/storage/cache.go\<close>: the read-through cache decorator with its bounded entry map,
  eviction, and the serving of stale entries. The operations of the cached repository are
  compositions of the cache's own atomic steps (\<open>get\<close>, \<open>getStale\<close>, \<open>set\<close>, \<open>del\<close>) and the inner
  operation. The theory proves the entry bound and the eviction choice, coherence of a cache
  that is the only writer, the contract that follows, and where the code departs from it.
  \<open>Create\<close> passes through to the inner repository, and \<open>CreateWithIdempotency\<close>, \<open>List\<close>, \<open>Ping\<close>
  and \<open>Close\<close> are promoted from it by embedding.
\<close>

record cacheEntry =
  ce_user :: User
  ce_exp :: int

definition defaultCacheMaxEntries :: int where
  "defaultCacheMaxEntries = 10000"

record 's CacheRepository =
  ca_inner :: 's
  ttl :: int
  maxEntries :: int
  ca_m :: "(string, cacheEntry) gomap"

definition NewCacheRepositoryWithLimit :: "'s \<Rightarrow> int \<Rightarrow> int \<Rightarrow> 's CacheRepository" where
  "NewCacheRepositoryWithLimit repo t n =
     \<lparr>ca_inner = repo, ttl = (if t \<le> 0 then 30 * second else t),
      maxEntries = (if n \<le> 0 then defaultCacheMaxEntries else n), ca_m = []\<rparr>"

definition NewCacheRepository :: "'s \<Rightarrow> int \<Rightarrow> 's CacheRepository" where
  "NewCacheRepository repo t = NewCacheRepositoryWithLimit repo t defaultCacheMaxEntries"

definition cache_size :: "'s CacheRepository \<Rightarrow> nat" where
  "cache_size c = length (ca_m c)"

definition cache_get :: "env \<Rightarrow> string \<Rightarrow> 's CacheRepository \<Rightarrow> User option" where
  "cache_get E key c =
     (case mget (ca_m c) key of
        None \<Rightarrow> None
      | Some e \<Rightarrow> if clk E CacheGet > ce_exp e then None else Some (ce_user e))"

definition cache_getStale :: "string \<Rightarrow> 's CacheRepository \<Rightarrow> User option" where
  "cache_getStale key c = map_option ce_user (mget (ca_m c) key)"

text \<open>The scan for the entry closest to expiring; an empty key stands for "none yet".\<close>

definition pick_oldest :: "(string, cacheEntry) gomap \<Rightarrow> string \<Rightarrow> string \<times> int \<Rightarrow> string \<times> int" where
  "pick_oldest m k best =
     (case mget m k of
        None \<Rightarrow> best
      | Some e \<Rightarrow> if fst best = [] \<or> ce_exp e < snd best then (k, ce_exp e) else best)"

definition evictLocked :: "env \<Rightarrow> 's CacheRepository \<Rightarrow> 's CacheRepository" where
  "evictLocked E c =
     (if int (length (ca_m c)) < maxEntries c then c
      else
        (let now = clk E CacheEvict;
             c = c\<lparr>ca_m := filter (\<lambda>(k, e). \<not> now > ce_exp e) (ca_m c)\<rparr>
         in if int (length (ca_m c)) < maxEntries c then c
            else
              (let (oldestKey, oldestExp) = fold (pick_oldest (ca_m c)) (range_keys E (keys (ca_m c))) ([], 0)
               in if oldestKey \<noteq> [] then c\<lparr>ca_m := mdel oldestKey (ca_m c)\<rparr> else c)))"

definition cache_set :: "env \<Rightarrow> string \<Rightarrow> User \<Rightarrow> 's CacheRepository \<Rightarrow> 's CacheRepository" where
  "cache_set E key user c =
     (let c = (if key \<notin> set (keys (ca_m c)) then evictLocked E c else c)
      in c\<lparr>ca_m := mput key \<lparr>ce_user = user, ce_exp = clk E CacheSet + ttl c\<rparr> (ca_m c)\<rparr>)"

definition cache_del :: "string \<Rightarrow> 's CacheRepository \<Rightarrow> 's CacheRepository" where
  "cache_del key c = c\<lparr>ca_m := mdel key (ca_m c)\<rparr>"

text \<open>Running an inner operation on the embedded repository.\<close>

definition on_inner :: "('s \<Rightarrow> 'r \<times> 's) \<Rightarrow> 's CacheRepository \<Rightarrow> 'r \<times> 's CacheRepository" where
  "on_inner op c = (case op (ca_inner c) of (r, s) \<Rightarrow> (r, c\<lparr>ca_inner := s\<rparr>))"

definition serves_stale :: "go_error \<Rightarrow> bool" where
  "serves_stale err \<longleftrightarrow>
     errors_Is err ErrUnavailable \<or> errors_Is err ctxCanceled \<or> errors_Is err ctxDeadlineExceeded"

definition cache_Get where
  "cache_Get R E ctx i c =
     (case cache_get E i c of
        Some u \<Rightarrow> (Inr u, c)
      | None \<Rightarrow>
          (case on_inner (Get R E ctx i) c of
             (Inl err, c') \<Rightarrow>
               if serves_stale err
               then (case cache_getStale i c' of Some stale \<Rightarrow> (Inr stale, c') | None \<Rightarrow> (Inl err, c'))
               else (Inl err, c')
           | (Inr u, c') \<Rightarrow> (Inr u, cache_set E i u c')))"

definition cache_Create where
  "cache_Create R E ctx user maxUsers c = on_inner (Create R E ctx user maxUsers) c"

definition cache_Update where
  "cache_Update R E ctx user c =
     (case on_inner (Update R E ctx user) c of
        (None, c') \<Rightarrow> (None, cache_del (case user of None \<Rightarrow> [] | Some u \<Rightarrow> u_Id u) c')
      | (Some err, c') \<Rightarrow> (Some err, c'))"

definition cache_ReadModifyUpdate where
  "cache_ReadModifyUpdate R E ctx i fn c =
     (case on_inner (ReadModifyUpdate R E ctx i fn) c of
        (Inr u, c') \<Rightarrow> (Inr u, cache_del i c')
      | (Inl err, c') \<Rightarrow>
          if errors_Is err ErrUnavailable
          then (case cache_getStale i c' of Some stale \<Rightarrow> (Inr stale, c') | None \<Rightarrow> (Inl err, c'))
          else (Inl err, c'))"

definition cache_Delete where
  "cache_Delete R E ctx i c =
     (case on_inner (Delete R E ctx i) c of
        (None, c') \<Rightarrow> (None, cache_del i c')
      | (Some err, c') \<Rightarrow> (Some err, c'))"

definition cache_ops :: "'s Repository \<Rightarrow> 's CacheRepository Repository" where
  "cache_ops R =
     \<lparr>Create = cache_Create R,
      CreateWithIdempotency = \<lambda>E ctx user n key. on_inner (CreateWithIdempotency R E ctx user n key),
      Get = cache_Get R,
      Update = cache_Update R,
      ReadModifyUpdate = cache_ReadModifyUpdate R,
      Delete = cache_Delete R,
      List = \<lambda>E ctx limit a. on_inner (List R E ctx limit a),
      Ping = \<lambda>E ctx. on_inner (Ping R E ctx),
      Close = on_inner (Close R)\<rparr>"

section \<open>Eviction\<close>

lemma mget_filter_entries: "gomap_ok m \<Longrightarrow>
   mget (filter (\<lambda>(k, e). P e) m) k = (case mget m k of Some e \<Rightarrow> if P e then Some e else None | None \<Rightarrow> None)"
  by (induction m) (auto split: option.splits dest: mget_SomeD)

lemma gomap_ok_filter [simp]: "gomap_ok m \<Longrightarrow> gomap_ok (filter P m)"
  by (rule distinct_map_filter)

text \<open>
  The scan finds an entry whose expiry no other entry undercuts, whatever the order in which
  the map is ranged over.
\<close>

definition holds_entry :: "(string, cacheEntry) gomap \<Rightarrow> string \<times> int \<Rightarrow> bool" where
  "holds_entry m best \<longleftrightarrow> fst best \<noteq> [] \<and> map_option ce_exp (mget m (fst best)) = Some (snd best)"

lemma pick_oldest_step:
  assumes "holds_entry m best" and "k \<noteq> []" and "mget m k = Some e"
  shows "holds_entry m (pick_oldest m k best)" "snd (pick_oldest m k best) \<le> snd best"
    "snd (pick_oldest m k best) \<le> ce_exp e"
  using assms by (simp_all add: pick_oldest_def holds_entry_def)

lemma pick_oldest_fold:
  assumes "set ks \<subseteq> fst ` set m" and "[] \<notin> set ks" and "holds_entry m best"
  shows "holds_entry m (fold (pick_oldest m) ks best) \<and> snd (fold (pick_oldest m) ks best) \<le> snd best \<and>
     (\<forall>k e. k \<in> set ks \<longrightarrow> mget m k = Some e \<longrightarrow> snd (fold (pick_oldest m) ks best) \<le> ce_exp e)"
  using assms
proof (induction ks arbitrary: best)
  case Nil
  then show ?case by simp
next
  case (Cons k ks)
  have "mget m k \<noteq> None" using Cons.prems(1) by simp
  then obtain e where e: "mget m k = Some e" by blast
  have k: "k \<noteq> []" and sub: "set ks \<subseteq> fst ` set m" "[] \<notin> set ks" using Cons.prems by auto
  note step = pick_oldest_step [OF Cons.prems(3) k e]
  from Cons.IH [OF sub step(1)] step(2,3) e show ?case
    by (simp add: order_trans)
qed

lemma pick_oldest_scan:
  assumes "set ks \<subseteq> fst ` set m" and "[] \<notin> set ks" and "ks \<noteq> []"
  shows "holds_entry m (fold (pick_oldest m) ks ([], 0))"
    and "\<And>k e. k \<in> set ks \<Longrightarrow> mget m k = Some e \<Longrightarrow> snd (fold (pick_oldest m) ks ([], 0)) \<le> ce_exp e"
proof -
  from assms(3) obtain k ks' where ks: "ks = k # ks'" by (cases ks) auto
  have "mget m k \<noteq> None" using assms(1) ks by simp
  then obtain e where e: "mget m k = Some e" by blast
  have sub: "set ks' \<subseteq> fst ` set m" "[] \<notin> set ks'" using assms(1,2) ks by auto
  have first: "pick_oldest m k ([], 0) = (k, ce_exp e)" using e by (simp add: pick_oldest_def)
  have "holds_entry m (k, ce_exp e)" using e assms(2) ks by (auto simp: holds_entry_def)
  note rest = pick_oldest_fold [OF sub this]
  show "holds_entry m (fold (pick_oldest m) ks ([], 0))" using rest by (simp add: ks first)
  show "snd (fold (pick_oldest m) ks ([], 0)) \<le> ce_exp e'" if "k' \<in> set ks" "mget m k' = Some e'" for k' e'
    using rest that e by (auto simp: ks first)
qed

definition cache_inv :: "'s CacheRepository \<Rightarrow> bool" where
  "cache_inv c \<longleftrightarrow> gomap_ok (ca_m c) \<and> [] \<notin> fst ` set (ca_m c) \<and> 0 < maxEntries c \<and>
     int (length (ca_m c)) \<le> maxEntries c"

lemma NewCache_inv: "cache_inv (NewCacheRepositoryWithLimit repo t n)"
  by (simp add: cache_inv_def NewCacheRepositoryWithLimit_def defaultCacheMaxEntries_def)

lemma evictLocked_frame [simp]:
  "ca_inner (evictLocked E c) = ca_inner c" "ttl (evictLocked E c) = ttl c"
  "maxEntries (evictLocked E c) = maxEntries c"
  by (simp_all add: evictLocked_def Let_def split: prod.splits)

lemma evictLocked_subset: "gomap_ok (ca_m c) \<Longrightarrow> gomap_ok (ca_m (evictLocked E c)) \<and>
    fst ` set (ca_m (evictLocked E c)) \<subseteq> fst ` set (ca_m c)"
  by (auto simp: evictLocked_def Let_def gomap_simps split: prod.splits)

lemma evictLocked_entry: "gomap_ok (ca_m c) \<Longrightarrow> mget (ca_m (evictLocked E c)) k = Some e \<Longrightarrow> mget (ca_m c) k = Some e"
  by (auto simp: evictLocked_def Let_def gomap_simps mget_filter_entries
      split: prod.splits if_splits option.splits)

text \<open>The entries an eviction keeps at least as candidates: those not yet expired.\<close>

definition live_entries :: "env \<Rightarrow> 's CacheRepository \<Rightarrow> (string, cacheEntry) gomap" where
  "live_entries E c = filter (\<lambda>(k, e). \<not> clk E CacheEvict > ce_exp e) (ca_m c)"

lemma live_entries_facts:
  assumes "cache_inv c"
  shows "gomap_ok (live_entries E c)" "[] \<notin> fst ` set (live_entries E c)"
    "length (live_entries E c) \<le> length (ca_m c)"
  using assms by (auto simp: cache_inv_def live_entries_def)

lemma evictLocked_full:
  assumes "cache_inv c" and "int (length (live_entries E c)) \<ge> maxEntries c"
  obtains k e where "ca_m (evictLocked E c) = mdel k (live_entries E c)" "k \<in> fst ` set (live_entries E c)"
    "mget (live_entries E c) k = Some e"
    "\<And>k' e'. mget (live_entries E c) k' = Some e' \<Longrightarrow> ce_exp e \<le> ce_exp e'"
proof -
  define m where "m = live_entries E c"
  define ks where "ks = range_keys E (keys m)"
  define best where "best = fold (pick_oldest m) ks ([], 0)"
  note facts = live_entries_facts [OF assms(1), of E, folded m_def]
  have full: "\<not> int (length (ca_m c)) < maxEntries c" "\<not> int (length m) < maxEntries c"
    using assms(2) facts(3) by (simp_all add: m_def)
  have "0 < maxEntries c" using assms(1) by (simp add: cache_inv_def)
  then have "m \<noteq> []" using full(2) by auto
  then have "set ks \<noteq> {}" by (simp add: ks_def)
  then have "ks \<noteq> []" by auto
  moreover have "set ks \<subseteq> fst ` set m" "[] \<notin> set ks" using facts(2) by (simp_all add: ks_def)
  ultimately have scan: "holds_entry m best"
      "\<And>k e. k \<in> set ks \<Longrightarrow> mget m k = Some e \<Longrightarrow> snd best \<le> ce_exp e"
    unfolding best_def by (blast intro: pick_oldest_scan(1), blast intro: pick_oldest_scan(2))
  from scan(1) obtain e where e: "fst best \<noteq> []" "mget m (fst best) = Some e" "ce_exp e = snd best"
    by (auto simp: holds_entry_def)
  have ev: "ca_m (evictLocked E c) = mdel (fst best) m"
    using full e(1) by (simp add: evictLocked_def Let_def case_prod_unfold m_def live_entries_def best_def ks_def)
  show thesis
  proof (rule that [folded m_def, OF ev mget_SomeD [OF e(2)] e(2)])
    fix k' e' assume "mget m k' = Some e'"
    then show "ce_exp e \<le> ce_exp e'" using scan(2) e(3) mget_SomeD [of m k' e'] by (simp add: ks_def)
  qed
qed

lemma evictLocked_roomy:
  assumes "int (length (live_entries E c)) < maxEntries c"
  shows "ca_m (evictLocked E c) = (if int (length (ca_m c)) < maxEntries c then ca_m c else live_entries E c)"
  using assms by (simp add: evictLocked_def Let_def live_entries_def)

lemma evictLocked_room:
  assumes "cache_inv c"
  shows "int (length (ca_m (evictLocked E c))) < maxEntries c"
proof (cases "int (length (live_entries E c)) < maxEntries c")
  case True
  then show ?thesis by (simp add: evictLocked_roomy)
next
  case False
  then have "int (length (live_entries E c)) \<ge> maxEntries c" by simp
  then obtain k where "ca_m (evictLocked E c) = mdel k (live_entries E c)" "k \<in> fst ` set (live_entries E c)"
    using evictLocked_full [OF assms] by metis
  moreover have "int (length (ca_m c)) \<le> maxEntries c" "0 < maxEntries c" using assms by (simp_all add: cache_inv_def)
  ultimately show ?thesis
    using False live_entries_facts [OF assms, of E] by (simp only: length_mdel if_True)
qed

lemma cache_set_inv:
  assumes "cache_inv c" and "key \<noteq> []"
  shows "cache_inv (cache_set E key u c)"
proof (cases "key \<in> fst ` set (ca_m c)")
  case True
  with assms show ?thesis by (simp add: cache_set_def cache_inv_def gomap_simps Let_def)
next
  case False
  have "gomap_ok (ca_m c)" using assms(1) by (simp add: cache_inv_def)
  note sub = evictLocked_subset [OF this, of E]
  from False assms evictLocked_room [OF assms(1), of E] sub show ?thesis
    by (auto simp: cache_set_def cache_inv_def gomap_simps Let_def)
qed

lemma cache_del_inv: "cache_inv c \<Longrightarrow> cache_inv (cache_del key c)"
  using length_mdel_le [of key "ca_m c"] by (auto simp: cache_del_def cache_inv_def gomap_simps)

section \<open>The cache over a repository\<close>

text \<open>
  A cache that sees every write of its repository is coherent: an entry, expired or not, is
  the stored user. The identifier "" cannot be cached (the eviction scan uses it as its
  "none yet"), so the repository must not hold it.
\<close>

definition coherent :: "store \<Rightarrow> (string, cacheEntry) gomap \<Rightarrow> bool" where
  "coherent m entries \<longleftrightarrow> (\<forall>k e. mget entries k = Some e \<longrightarrow> m k = Some (ce_user e))"

definition cache_ok :: "('s \<Rightarrow> store) \<Rightarrow> ('s \<Rightarrow> bool) \<Rightarrow> 's CacheRepository \<Rightarrow> bool" where
  "cache_ok view ok c \<longleftrightarrow> ok (ca_inner c) \<and> cache_inv c \<and> coherent (view (ca_inner c)) (ca_m c)"

lemma coherent_Nil [simp]: "coherent m []"
  by (simp add: coherent_def)

lemma coherent_insert: "coherent m es \<Longrightarrow> k \<notin> dom m \<Longrightarrow> coherent (m(k \<mapsto> u)) es"
  by (auto simp: coherent_def)

lemma coherent_mdel: "coherent m es \<Longrightarrow> coherent m (mdel k es)" "coherent m es \<Longrightarrow> coherent (m(k := v)) (mdel k es)"
  by (auto simp: coherent_def gomap_simps)

lemma coherent_cache_set:
  assumes "cache_inv c" and "coherent m (ca_m c)" and "m k = Some u"
  shows "coherent m (ca_m (cache_set E k u c))"
  using assms evictLocked_entry [of c E]
  by (auto simp: coherent_def cache_set_def Let_def gomap_simps cache_inv_def)

lemma cache_frames [simp]:
  "ca_inner (cache_set E k u c) = ca_inner c" "ca_inner (cache_del k c) = ca_inner c"
  "ca_m (cache_del k c) = mdel k (ca_m c)"
  by (simp_all add: cache_set_def cache_del_def Let_def)

lemma cache_inv_inner [simp]: "cache_inv (c\<lparr>ca_inner := s\<rparr>) = cache_inv c"
  by (simp add: cache_inv_def)

lemma on_inner_cases:
  assumes "on_inner op c = (r, c')"
  obtains s where "op (ca_inner c) = (r, s)" "c' = c\<lparr>ca_inner := s\<rparr>"
  using assms by (auto simp: on_inner_def split: prod.splits)

lemma cache_get_entry: "cache_get E i c = Some u \<Longrightarrow> \<exists>e. mget (ca_m c) i = Some e \<and> ce_user e = u"
  by (auto simp: cache_get_def split: option.splits if_splits)

lemma cache_getStale_entry: "cache_getStale i c = Some u \<Longrightarrow> \<exists>e. mget (ca_m c) i = Some e \<and> ce_user e = u"
  by (auto simp: cache_getStale_def)

locale cache_over = safe_repository +
  assumes no_empty_id: "inv s \<Longrightarrow> [] \<notin> dom (abs s)"
begin

abbreviation cached_inv :: "'a CacheRepository \<Rightarrow> bool" where
  "cached_inv \<equiv> cache_ok abs inv"

abbreviation cached_abs :: "'a CacheRepository \<Rightarrow> store" where
  "cached_abs c \<equiv> abs (ca_inner c)"

lemma cached_invI: "inv (ca_inner c) \<Longrightarrow> cache_inv c \<Longrightarrow> coherent (abs (ca_inner c)) (ca_m c) \<Longrightarrow> cached_inv c"
  by (simp add: cache_ok_def)

lemma cached_invD: "cached_inv c \<Longrightarrow> inv (ca_inner c)" "cached_inv c \<Longrightarrow> cache_inv c"
  "cached_inv c \<Longrightarrow> coherent (abs (ca_inner c)) (ca_m c)"
  by (simp_all add: cache_ok_def)

lemma cached_inv_New: "inv s \<Longrightarrow> cached_inv (NewCacheRepositoryWithLimit s t n)"
  by (rule cached_invI) (simp_all add: NewCache_inv, simp_all add: NewCacheRepositoryWithLimit_def)

lemma cached_inv_same: "cached_inv c \<Longrightarrow> inv s \<Longrightarrow> abs s = abs (ca_inner c) \<Longrightarrow> cached_inv (c\<lparr>ca_inner := s\<rparr>)"
  by (simp add: cache_ok_def)

lemma cached_inv_write:
  "cached_inv c \<Longrightarrow> inv s \<Longrightarrow> abs s = (abs (ca_inner c))(k := v) \<Longrightarrow> cached_inv (cache_del k (c\<lparr>ca_inner := s\<rparr>))"
  by (rule cached_invI) (auto simp: cache_ok_def cache_del_inv coherent_mdel)

lemma cached_inv_insert:
  "cached_inv c \<Longrightarrow> inv s \<Longrightarrow> k \<notin> dom (abs (ca_inner c)) \<Longrightarrow> abs s = (abs (ca_inner c))(k \<mapsto> u) \<Longrightarrow>
    cached_inv (c\<lparr>ca_inner := s\<rparr>)"
  by (rule cached_invI) (auto simp: cache_ok_def coherent_insert)

lemma cached_inv_set: "cached_inv c \<Longrightarrow> abs (ca_inner c) k = Some u \<Longrightarrow> cached_inv (cache_set E k u c)"
  using no_empty_id [of "ca_inner c"]
  by (intro cached_invI) (auto simp: cache_ok_def coherent_cache_set intro!: cache_set_inv)

lemma cached_entry: "cached_inv c \<Longrightarrow> mget (ca_m c) k = Some e \<Longrightarrow> abs (ca_inner c) k = Some (ce_user e)"
  by (simp add: cache_ok_def coherent_def)

lemma Create_cached:
  assumes "cached_inv c" and "cache_Create R E ctx user n c = (r, c')"
  shows "spec_Create (cached_abs c) user n r (cached_abs c') \<and> cached_inv c'"
proof -
  from assms(2) obtain s where op: "Create R E ctx user n (ca_inner c) = (r, s)" and c': "c' = c\<lparr>ca_inner := s\<rparr>"
    unfolding cache_Create_def by (rule on_inner_cases)
  from Create_ok [OF cached_invD(1) [OF assms(1)] op]
  have sp: "spec_Create (cached_abs c) user n r (abs s)" and i: "inv s" by simp_all
  from sp have "cached_inv c'"
    unfolding c' spec_Create_def
    by (auto split: option.splits intro: cached_inv_same [OF assms(1) i] cached_inv_insert [OF assms(1) i])
  with sp c' show ?thesis by simp
qed

lemma CreateWithIdempotency_cached:
  assumes "cached_inv c" and "on_inner (CreateWithIdempotency R E ctx user n key) c = (r, c')"
  shows "spec_CreateWithIdempotency (cached_abs c) user n key r (cached_abs c') \<and> cached_inv c'"
proof -
  from assms(2) obtain s where op: "CreateWithIdempotency R E ctx user n key (ca_inner c) = (r, s)"
    and c': "c' = c\<lparr>ca_inner := s\<rparr>" by (rule on_inner_cases)
  from CreateWithIdempotency_ok [OF cached_invD(1) [OF assms(1)] op]
  have sp: "spec_CreateWithIdempotency (cached_abs c) user n key r (abs s)" and i: "inv s" by simp_all
  from sp have "cached_inv c'"
    unfolding c' spec_CreateWithIdempotency_def
    by (auto split: sum.splits prod.splits bool.splits
        intro: cached_inv_same [OF assms(1) i] cached_inv_insert [OF assms(1) i])
  with sp c' show ?thesis by simp
qed

lemma Get_cached:
  assumes "cached_inv c" and "cache_Get R E ctx i c = (r, c')"
  shows "spec_Get (cached_abs c) i r (cached_abs c') \<and> cached_inv c'"
proof (cases "cache_get E i c")
  case (Some u)
  with assms cached_entry [OF assms(1)] show ?thesis
    by (auto simp: cache_Get_def spec_Get_def dest!: cache_get_entry)
next
  case None
  obtain rg s where op: "Get R E ctx i (ca_inner c) = (rg, s)" by fastforce
  let ?c = "c\<lparr>ca_inner := s\<rparr>"
  have on: "on_inner (Get R E ctx i) c = (rg, ?c)" by (simp add: on_inner_def op)
  from Get_ok [OF cached_invD(1) [OF assms(1)] op]
  have sp: "spec_Get (cached_abs c) i rg (abs s)" and inv: "inv s" by simp_all
  then have same: "abs s = cached_abs c" by (simp add: spec_Get_def)
  have ci: "cached_inv ?c" by (rule cached_inv_same [OF assms(1) inv same])
  show ?thesis
  proof (cases rg)
    case (Inl err)
    have "c' = ?c" using assms(2) None on Inl by (auto simp: cache_Get_def split: option.splits if_splits)
    moreover have "r = Inl err \<or> (\<exists>u. r = Inr u \<and> cache_getStale i ?c = Some u)"
      using assms(2) None on Inl by (auto simp: cache_Get_def split: option.splits if_splits)
    ultimately show ?thesis
      using sp ci same Inl cached_entry [OF assms(1)]
      by (auto simp: spec_Get_def dest!: cache_getStale_entry)
  next
    case (Inr u)
    have "cached_abs ?c i = Some u" using sp Inr same by (simp add: spec_Get_def)
    from cached_inv_set [OF ci this] have "cached_inv (cache_set E i u ?c)" .
    with assms(2) None on Inr sp same show ?thesis by (auto simp: cache_Get_def spec_Get_def)
  qed
qed

lemma Update_cached:
  assumes "cached_inv c" and "cache_Update R E ctx user c = (r, c')"
  shows "spec_Update (cached_abs c) user r (cached_abs c') \<and> cached_inv c'"
proof -
  obtain ru s where op: "Update R E ctx user (ca_inner c) = (ru, s)" by fastforce
  from Update_ok [OF cached_invD(1) [OF assms(1)] op]
  have sp: "spec_Update (cached_abs c) user ru (abs s)" and inv: "inv s" by simp_all
  then show ?thesis
    using assms(2) cached_inv_same [OF assms(1) inv] cached_inv_write [OF assms(1) inv]
    by (auto simp: cache_Update_def on_inner_def op spec_Update_def split: option.splits)
qed

lemma Delete_cached:
  assumes "cached_inv c" and "cache_Delete R E ctx i c = (r, c')"
  shows "spec_Delete (cached_abs c) i r (cached_abs c') \<and> cached_inv c'"
proof -
  obtain ru s where op: "Delete R E ctx i (ca_inner c) = (ru, s)" by fastforce
  from Delete_ok [OF cached_invD(1) [OF assms(1)] op]
  have sp: "spec_Delete (cached_abs c) i ru (abs s)" and inv: "inv s" by simp_all
  then show ?thesis
    using assms(2) cached_inv_same [OF assms(1) inv] cached_inv_write [OF assms(1) inv]
    by (auto simp: cache_Delete_def on_inner_def op spec_Delete_def split: option.splits)
qed

text \<open>
  A read-modify-write that reports success was applied, or the repository was unavailable and
  the caller got the unchanged stored user.
\<close>

lemma ReadModifyUpdate_cached:
  assumes "cached_inv c" and "cache_ReadModifyUpdate R E ctx i f c = (r, c')"
  shows "(spec_ReadModifyUpdate (cached_abs c) i f r (cached_abs c') \<or>
      cached_abs c' = cached_abs c \<and> i \<in> dom (cached_abs c) \<and> r = Inr (the (cached_abs c i))) \<and> cached_inv c'"
proof -
  obtain ru s where op: "ReadModifyUpdate R E ctx i f (ca_inner c) = (ru, s)" by fastforce
  let ?c = "c\<lparr>ca_inner := s\<rparr>"
  from ReadModifyUpdate_ok [OF cached_invD(1) [OF assms(1)] op]
  have sp: "spec_ReadModifyUpdate (cached_abs c) i f ru (abs s)" and inv: "inv s" by simp_all
  have on: "on_inner (ReadModifyUpdate R E ctx i f) c = (ru, ?c)" by (simp add: on_inner_def op)
  show ?thesis
  proof (cases ru)
    case (Inr u)
    then have "\<exists>u. abs s = (cached_abs c)(i \<mapsto> u)" using sp by (auto simp: spec_ReadModifyUpdate_def)
    then have "cached_inv (cache_del i ?c)" using cached_inv_write [OF assms(1) inv] by blast
    with assms(2) on Inr sp show ?thesis by (auto simp: cache_ReadModifyUpdate_def)
  next
    case (Inl err)
    then have same: "abs s = cached_abs c" using sp by (simp add: spec_ReadModifyUpdate_def)
    have ci: "cached_inv ?c" by (rule cached_inv_same [OF assms(1) inv same])
    have "c' = ?c" using assms(2) on Inl by (auto simp: cache_ReadModifyUpdate_def split: option.splits if_splits)
    moreover have "r = Inl err \<or> (\<exists>u. r = Inr u \<and> cache_getStale i ?c = Some u)"
      using assms(2) on Inl by (auto simp: cache_ReadModifyUpdate_def split: option.splits if_splits)
    ultimately show ?thesis
      using ci same cached_entry [OF assms(1)]
      by (auto simp: spec_ReadModifyUpdate_def dest!: cache_getStale_entry)
  qed
qed

sublocale cached: weak_repository "cache_ops R" cached_abs cached_inv
proof (unfold_locales, goal_cases)
  case 1 then show ?case by (rule fin [OF cached_invD(1)])
next
  case 2 then show ?case by (intro Create_cached) (simp_all add: cache_ops_def)
next
  case 3 then show ?case by (intro CreateWithIdempotency_cached) (simp_all add: cache_ops_def)
next
  case 4 then show ?case by (intro Get_cached) (simp_all add: cache_ops_def)
next
  case 5 then show ?case by (intro Update_cached) (simp_all add: cache_ops_def)
next
  case 6 then show ?case by (intro Delete_cached) (simp_all add: cache_ops_def)
next
  case (7 s E ctx limit after rl s')
  from 7(2) obtain t where op: "List R E ctx limit after (ca_inner s) = (rl, t)" and s': "s' = s\<lparr>ca_inner := t\<rparr>"
    by (auto simp: cache_ops_def elim: on_inner_cases)
  from List_ok [OF cached_invD(1) [OF 7(1)] op] s' show ?case
    by (auto simp: spec_List_def intro: cached_inv_same [OF 7(1)])
next
  case (8 s E ctx r s')
  from 8(2) obtain t where op: "Ping R E ctx (ca_inner s) = (r, t)" and s': "s' = s\<lparr>ca_inner := t\<rparr>"
    by (auto simp: cache_ops_def elim: on_inner_cases)
  from Ping_ok [OF cached_invD(1) [OF 8(1)] op] s' show ?case by (auto intro: cached_inv_same [OF 8(1)])
next
  case (9 s r s')
  from 9(2) obtain t where op: "Close R (ca_inner s) = (r, t)" and s': "s' = s\<lparr>ca_inner := t\<rparr>"
    by (auto simp: cache_ops_def elim: on_inner_cases)
  from Close_ok [OF cached_invD(1) [OF 9(1)] op] s' show ?case by (auto intro: cached_inv_same [OF 9(1)])
next
  case 10 then show ?case by (intro ReadModifyUpdate_cached) (simp_all add: cache_ops_def)
qed

end

interpretation cam: cache_over memory_ops mem_abs mem_inv
  by unfold_locales (auto simp: mem_inv_def)

interpretation cacb: cache_over "circuit_breaker_ops cfg memory_ops"
    "\<lambda>cb. mem_abs (cb_inner cb)" "\<lambda>cb. mem_inv (cb_inner cb)" for cfg
  by unfold_locales (auto simp: mem_inv_def)

section \<open>The entry bound\<close>

text \<open>
  The cache under concurrent callers: the atomic updates of its map in any interleaving, each
  with its own clock readings and map order. The map is only written by \<open>set\<close>, for the
  identifier of a user the repository returned, and by \<open>del\<close>.
\<close>

inductive cache_step :: "'s CacheRepository \<Rightarrow> 's CacheRepository \<Rightarrow> bool" where
  set: "key \<noteq> [] \<Longrightarrow> cache_step c (cache_set E key u c)"
| del: "cache_step c (cache_del key c)"
| inner: "cache_step c (c\<lparr>ca_inner := s\<rparr>)"

inductive_cases cache_stepE: "cache_step c c'"

lemma cache_step_inv: "cache_step c c' \<Longrightarrow> cache_inv c \<Longrightarrow> cache_inv c' \<and> maxEntries c' = maxEntries c"
  by (auto elim!: cache_stepE simp: cache_set_inv cache_del_inv, auto simp: cache_set_def cache_del_def Let_def)

lemma cache_steps_inv: "cache_step\<^sup>*\<^sup>* c c' \<Longrightarrow> cache_inv c \<Longrightarrow> cache_inv c' \<and> maxEntries c' = maxEntries c"
  by (induction rule: rtranclp_induct) (auto dest: cache_step_inv)

text \<open>
  However the updates of concurrent callers interleave and whatever the clock shows, a
  new cache never holds more entries than its limit (10000 when the configured limit is not
  positive).
\<close>

lemma cache_bounded:
  assumes "cache_step\<^sup>*\<^sup>* (NewCacheRepositoryWithLimit repo t n) c"
  shows "int (cache_size c) \<le> (if n \<le> 0 then defaultCacheMaxEntries else n)"
  using cache_steps_inv [OF assms NewCache_inv]
  by (simp add: cache_inv_def cache_size_def NewCacheRepositoryWithLimit_def)

text \<open>
  C21: inserting a new identifier into a full cache without expired entries drops exactly one
  entry, one that expires first among all of them, whatever the map order; every other entry
  stays as it was.
\<close>

theorem eviction_drops_first_to_expire:
  assumes "cache_inv c" and "int (cache_size c) = maxEntries c" and "key \<notin> fst ` set (ca_m c)"
    and "\<And>k e. mget (ca_m c) k = Some e \<Longrightarrow> clk E CacheEvict \<le> ce_exp e"
  shows "\<exists>k e. mget (ca_m c) k = Some e \<and> (\<forall>k' e'. mget (ca_m c) k' = Some e' \<longrightarrow> ce_exp e \<le> ce_exp e') \<and>
      mget (ca_m (cache_set E key u c)) =
        (mget (ca_m c))(k := None, key \<mapsto> \<lparr>ce_user = u, ce_exp = clk E CacheSet + ttl c\<rparr>)"
proof -
  have "gomap_ok (ca_m c)" using assms(1) by (simp add: cache_inv_def)
  then have "\<forall>p \<in> set (ca_m c). clk E CacheEvict \<le> ce_exp (snd p)" using assms(4) by (auto simp: map_of_eq_Some_iff)
  then have live: "live_entries E c = ca_m c"
    unfolding live_entries_def by (intro filter_True) (auto simp: not_less)
  have "maxEntries c \<le> int (length (live_entries E c))" using assms(2) by (simp add: live cache_size_def)
  then obtain k e where "ca_m (evictLocked E c) = mdel k (ca_m c)" "mget (ca_m c) k = Some e"
    "\<And>k' e'. mget (ca_m c) k' = Some e' \<Longrightarrow> ce_exp e \<le> ce_exp e'"
    using evictLocked_full [OF assms(1), of E] unfolding live by metis
  with assms(3) show ?thesis
    by (intro exI [of _ k] exI [of _ e]) (simp add: cache_set_def Let_def gomap_simps fun_eq_iff)
qed

section \<open>What readers see\<close>

definition cache_reads where
  "cache_reads R gets c = fold (\<lambda>(E, ctx, i) c. snd (cache_Get R E ctx i c)) gets c"

context cache_over
begin

lemma reads_keep: "cached_inv c \<Longrightarrow>
   cached_inv (cache_reads R gets c) \<and> cached_abs (cache_reads R gets c) = cached_abs c"
proof (induction gets arbitrary: c)
  case Nil
  then show ?case by (simp add: cache_reads_def)
next
  case (Cons g gets)
  obtain E ctx i where g: "g = (E, ctx, i)" by (cases g) auto
  obtain r c1 where get: "cache_Get R E ctx i c = (r, c1)" by fastforce
  from Get_cached [OF Cons.prems get] have "cached_inv c1" "cached_abs c1 = cached_abs c"
    by (auto simp: spec_Get_def)
  with Cons.IH [of c1] show ?case by (simp add: cache_reads_def g get)
qed

lemma update_visible:
  assumes "cached_inv c" and "cache_Update R E ctx (Some u) c = (None, c1)"
    and "cache_Get R E' ctx' (u_Id u) (cache_reads R gets c1) = (Inr v, c2)"
  shows "v = u"
proof -
  from Update_cached [OF assms(1,2)] have c1: "cached_inv c1" "cached_abs c1 (u_Id u) = Some u"
    by (auto simp: spec_Update_def)
  with reads_keep [OF c1(1), of gets] Get_cached [OF _ assms(3)] show ?thesis by (auto simp: spec_Get_def)
qed

lemma delete_visible:
  assumes "cached_inv c" and "cache_Delete R E ctx i c = (None, c1)"
  shows "\<exists>err. fst (cache_Get R E' ctx' i (cache_reads R gets c1)) = Inl err"
proof -
  obtain r c2 where get: "cache_Get R E' ctx' i (cache_reads R gets c1) = (r, c2)" by fastforce
  from Delete_cached [OF assms] have c1: "cached_inv c1" "cached_abs c1 i = None"
    by (auto simp: spec_Delete_def)
  with reads_keep [OF c1(1), of gets] Get_cached [OF _ get] show ?thesis
    by (auto simp: get spec_Get_def split: sum.splits)
qed

end

text \<open>
  C22: reads see writes. In the deployed stack (cache over circuit breaker over the store) and
  operations one after the other, after a successful update no read returns anything but the
  new user, and after a successful delete every read fails, however many reads refill the
  cache in between and whatever the cache's clock does.
\<close>

theorem reads_see_writes:
  fixes c :: "MemoryRepository CircuitBreakerRepository CacheRepository"
  defines "R cfg \<equiv> circuit_breaker_ops cfg memory_ops"
  assumes "cache_ok (\<lambda>cb. mem_abs (cb_inner cb)) (\<lambda>cb. mem_inv (cb_inner cb)) c"
  shows "(\<forall>c1 v c2. cache_Update (R cfg) E ctx (Some u) c = (None, c1) \<longrightarrow>
            cache_Get (R cfg) E' ctx' (u_Id u) (cache_reads (R cfg) gets c1) = (Inr v, c2) \<longrightarrow> v = u) \<and>
         (\<forall>c1. cache_Delete (R cfg) E ctx i c = (None, c1) \<longrightarrow>
            (\<exists>err. fst (cache_Get (R cfg) E' ctx' i (cache_reads (R cfg) gets c1)) = Inl err))"
  using cacb.update_visible [OF assms(2)] cacb.delete_visible [OF assms(2)] unfolding R_def by blast



text \<open>
  An open circuit breaker hides the cache. With the breaker open and its timeout not yet
  over, a lookup of an entry that is past its TTL fails with \<open>ErrCircuitOpen\<close> although the
  cache holds the user: the stale entry is served for \<open>ErrUnavailable\<close> and context errors only.
\<close>

lemma open_breaker_hides_stale_entry:
  assumes "cb_state (cb_brk (ca_inner c)) = CircuitBreakerOpen" and "\<not> timed_out cfg E (cb_brk (ca_inner c))"
    and "mget (ca_m c) i = Some e" and "ce_exp e < clk E CacheGet"
  shows "cache_Get (circuit_breaker_ops cfg R) E ctx i c = (Inl ErrCircuitOpen, c)"
  using assms by (simp add: cache_Get_def cache_get_def on_inner_def circuit_breaker_ops_def cb_Get_def guarded_def
      beforeCall_def timed_out_def serves_stale_def err_simps)

section \<open>The properties at concrete inputs\<close>

definition cache2 :: "MemoryRepository CacheRepository" where
  "cache2 = \<lparr>ca_inner = store1, ttl = 5, maxEntries = 2,
     ca_m = [(''user-1'', \<lparr>ce_user = user1, ce_exp = 7\<rparr>), (''user-2'', \<lparr>ce_user = user2, ce_exp = 3\<rparr>)]\<rparr>"

definition user1_renamed :: User where
  "user1_renamed = user1\<lparr>u_Name := ''Ada''\<rparr>"

theorem eviction_drops_first_to_expire_witness:
  "\<exists>k e. mget (ca_m cache2) k = Some e \<and> ce_exp e = 3 \<and>
     mget (ca_m (cache_set (at 2) ''user-3'' user1 cache2)) =
       (mget (ca_m cache2))(k := None, ''user-3'' \<mapsto> \<lparr>ce_user = user1, ce_exp = 7\<rparr>)"
proof -
  have i: "cache_inv cache2" by (simp add: cache_inv_def cache2_def)
  have n: "int (cache_size cache2) = maxEntries cache2" by (simp add: cache_size_def cache2_def)
  have k: "''user-3'' \<notin> fst ` set (ca_m cache2)" by (simp add: cache2_def)
  have l: "clk (at 2) CacheEvict \<le> ce_exp e" if "mget (ca_m cache2) k = Some e" for k e
    using that by (auto simp: cache2_def at_def split: if_splits)
  have t: "clk (at 2) CacheSet + ttl cache2 = 7" by (simp add: at_def cache2_def)
  from eviction_drops_first_to_expire [of cache2 "''user-3''" "at 2" user1, OF i n k] l obtain k e
    where ke: "mget (ca_m cache2) k = Some e"
      and m: "\<forall>k' e'. mget (ca_m cache2) k' = Some e' \<longrightarrow> ce_exp e \<le> ce_exp e'"
      and upd: "mget (ca_m (cache_set (at 2) ''user-3'' user1 cache2)) =
       (mget (ca_m cache2))(k := None, ''user-3'' \<mapsto> \<lparr>ce_user = user1, ce_exp = 7\<rparr>)"
    unfolding t by metis
  have "mget (ca_m cache2) ''user-2'' = Some \<lparr>ce_user = user2, ce_exp = 3\<rparr>" by (simp add: cache2_def)
  with m have "ce_exp e \<le> 3" by fastforce
  moreover from ke have "ce_exp e \<ge> 3" by (auto simp: cache2_def split: if_splits)
  ultimately have "ce_exp e = 3" by simp
  with ke upd show ?thesis by blast
qed

definition stack1 :: "MemoryRepository CircuitBreakerRepository CacheRepository" where
  "stack1 = NewCacheRepositoryWithLimit (NewCircuitBreakerRepository store1) 5 2"

theorem reads_see_writes_witness:
  "\<exists>err. fst (cache_Get (circuit_breaker_ops cfg1 memory_ops) (at 2) (Some Background) ''user-1''
     (snd (cache_Delete (circuit_breaker_ops cfg1 memory_ops) (at 1) (Some Background) ''user-1'' stack1))) = Inl err"
proof -
  have ok: "cache_ok (\<lambda>cb. mem_abs (cb_inner cb)) (\<lambda>cb. mem_inv (cb_inner cb)) stack1"
    unfolding stack1_def by (rule cacb.cached_inv_New)
      (simp add: NewCircuitBreakerRepository_def store1_def NewMemoryRepository_def mem_inv_def)
  obtain r c1 where d: "cache_Delete (circuit_breaker_ops cfg1 memory_ops) (at 1) (Some Background) ''user-1'' stack1 = (r, c1)"
    by fastforce
  have "r = None" using d
    by (simp add: stack1_def NewCacheRepositoryWithLimit_def NewCircuitBreakerRepository_def cache_Delete_def
        on_inner_def circuit_breaker_ops_def cb_Delete_def guarded_def beforeCall_def new_breaker_def
        memory_ops_def mem_Delete_def store1_def NewMemoryRepository_def)
  with d reads_see_writes [OF ok, of cfg1 "at 1" "Some Background" user1 "at 2" "Some Background" "[]" "''user-1''"]
  show ?thesis by (simp add: cache_reads_def)
qed

text \<open>A closed store answers \<open>ErrUnavailable\<close>.\<close>

lemma closed_update: "ReadModifyUpdate memory_ops E (Some Background) ''user-1'' (Some f) (r\<lparr>closed := True\<rparr>) =
   (Inl ErrUnavailable, r\<lparr>closed := True\<rparr>)"
proof -
  have "\<not> blank ''user-1''" by code_simp
  then show ?thesis by (simp add: memory_ops_def mem_ReadModifyUpdate_def)
qed



end
