(* ===== verification/User_Service.thy ===== *)
theory User_Service
  imports Cache_Repository
begin

text \<open>
  The transport-facing service of \<open>internal/service/user.go\<close>: request validation, page tokens,
  identifiers, the unary handlers over an injected repository, the three streaming handlers,
  and the mapping of storage errors. The unary handlers are proved against the repository
  contract and instantiated for the repositories the program builds.

  A nil request or repository is \<open>None\<close>. \<open>net/mail.ParseAddress\<close> is the parameter
  \<open>ParseAddress\<close>, the address it extracts or \<open>None\<close>; the theorems hold for any such function.
  A stream is given by what its calls return: one outcome of the \<open>select\<close> or of \<open>Recv\<close>, and
  of \<open>Send\<close>, per iteration.
\<close>

section \<open>Construction\<close>

record ServiceLimits =
  MaxUsers :: int
  MaxStreamMessages :: int
  MaxStringBytes :: int
  StreamInterval :: int

record 's UserService =
  us_repository :: "'s Repository option"
  maxUsers :: int
  maxStreamMessages :: int
  maxStringBytes :: int
  streamInterval :: int

definition normalize_limits :: "ServiceLimits \<Rightarrow> ServiceLimits" where
  "normalize_limits limits =
     \<lparr>MaxUsers = (if MaxUsers limits < 1 then 10000 else MaxUsers limits),
      MaxStreamMessages = (if MaxStreamMessages limits < 1 then 100 else MaxStreamMessages limits),
      MaxStringBytes = (if MaxStringBytes limits < 1 then 4096 else MaxStringBytes limits),
      StreamInterval = (if StreamInterval limits \<le> 0 then 2 * second else StreamInterval limits)\<rparr>"

definition NewUserServiceWithRepository :: "'s Repository option \<Rightarrow> ServiceLimits \<Rightarrow> 's UserService" where
  "NewUserServiceWithRepository repository limits0 =
     (let limits = normalize_limits limits0 in
      \<lparr>us_repository = repository, maxUsers = MaxUsers limits,
       maxStreamMessages = MaxStreamMessages limits, maxStringBytes = MaxStringBytes limits,
       streamInterval = StreamInterval limits\<rparr>)"

definition defaultServiceLimits :: ServiceLimits where
  "defaultServiceLimits =
     \<lparr>MaxUsers = 10000, MaxStreamMessages = 100, MaxStringBytes = 4096, StreamInterval = 2 * second\<rparr>"

text \<open>The service over a fresh in-memory repository, and that repository's state.\<close>

definition NewUserService :: "ServiceLimits list \<Rightarrow> MemoryRepository UserService \<times> MemoryRepository" where
  "NewUserService optional =
     (let limits = (case optional of [] \<Rightarrow> defaultServiceLimits | l # _ \<Rightarrow> l)
      in (NewUserServiceWithRepository (Some memory_ops) (normalize_limits limits), NewMemoryRepository))"

section \<open>Validation\<close>

definition validateText :: "'s UserService \<Rightarrow> string \<Rightarrow> string \<Rightarrow> go_error option" where
  "validateText s val field =
     (if length val = 0 \<or> int (length val) > maxStringBytes s \<or> blank val
      then Some (AppErr (appErrInvalidArgument (field @ '' is required and must be within the configured size limit'')))
      else None)"

definition validateOptionalText :: "string \<Rightarrow> int \<Rightarrow> string \<Rightarrow> go_error option" where
  "validateOptionalText val maxBytes field =
     (if val \<noteq> [] \<and> (int (length val) > maxBytes \<or> blank val)
      then Some (AppErr (WithField field ''is blank or exceeds the maximum length''
             (WithReason ''FIELD_INVALID'' (appErrInvalidArgument (field @ '' is invalid'')))))
      else None)"

definition parseEmail :: "(string \<Rightarrow> string option) \<Rightarrow> string \<Rightarrow> string result" where
  "parseEmail ParseAddress val =
     (if ContainsAny val [CHR 0x0D, CHR 0x0A] then Inl (ErrorString ''email contains control characters'')
      else case ParseAddress val of
             None \<Rightarrow> Inl (ErrorString ''invalid email'')
           | Some address \<Rightarrow>
               if address \<noteq> val \<or> \<not> Contains address ''@'' then Inl (ErrorString ''invalid email'')
               else Inr (TrimSpace val))"

definition validateUserFields ::
  "(string \<Rightarrow> string option) \<Rightarrow> string \<Rightarrow> string \<Rightarrow> int \<Rightarrow> int \<Rightarrow> (string \<times> string) result" where
  "validateUserFields ParseAddress name email age maxBytes =
     (if validateOptionalText name maxBytes ''name'' \<noteq> None \<or> blank name
      then Inl (AppErr (WithField ''name'' ''must not be empty''
             (WithReason ''FIELD_REQUIRED'' (appErrInvalidArgument ''name is required''))))
      else
        (case validateOptionalText email maxBytes ''email'' of
           Some err \<Rightarrow> Inl err
         | None \<Rightarrow>
             (case parseEmail ParseAddress email of
                Inl err \<Rightarrow> Inl (AppErr (WithField ''email'' ''must be a valid email address''
                   (WithReason ''FIELD_INVALID'' (appErrInvalidArgument ''email is invalid''))))
              | Inr normalizedEmail \<Rightarrow>
                  if age < 0 \<or> age > 150
                  then Inl (AppErr (WithField ''age'' ''must be between 0 and 150''
                     (WithReason ''FIELD_OUT_OF_RANGE'' (appErrInvalidArgument ''age must be between 0 and 150''))))
                  else Inr (TrimSpace name, normalizedEmail))))"

definition validateContext :: "Context option \<Rightarrow> go_error option" where
  "validateContext ctx =
     (case ctx of
        None \<Rightarrow> Some (AppErr (appErrInvalidArgument ''context is required''))
      | Some c \<Rightarrow> ctx_Err c)"

text \<open>\<open>crypto/rand\<close> fills the 16 bytes or fails.\<close>

definition newID :: "env \<Rightarrow> string \<Rightarrow> string option" where
  "newID E prefix = (case rnd E of None \<Rightarrow> None | Some bs \<Rightarrow> Some (prefix @ ''-'' @ hex_encode bs))"

definition mapStorageError :: "go_error \<Rightarrow> go_error" where
  "mapStorageError err =
     (if errors_Is err ctxCanceled \<or> errors_Is err ctxDeadlineExceeded then err
      else if errors_Is err ErrNotFound
        then AppErr (WithReason ''USER_NOT_FOUND'' (appErrNotFound ''user not found''))
      else if errors_Is err ErrCapacity
        then AppErr (WithReason ''USER_CAPACITY_REACHED'' (appErrResourceExhausted ''user capacity reached''))
      else if errors_Is err ErrAlreadyExists
        then AppErr (WithReason ''USER_ALREADY_EXISTS'' (appErrAlreadyExists ''user already exists''))
      else if errors_Is err ErrInvalid
        then AppErr (WithReason ''INVALID_USER_DATA'' (appErrInvalidArgument ''user data is invalid''))
      else AppErr (WithReason ''STORAGE_UNAVAILABLE'' (appErrUnavailable ''storage temporarily unavailable'')))"

definition encodePageToken :: "string \<Rightarrow> string" where
  "encodePageToken afterID = (if afterID = [] then [] else b64_encode afterID)"

text \<open>\<open>None\<close> is a decoding error.\<close>

definition decodePageToken :: "string \<Rightarrow> string option" where
  "decodePageToken token = (if token = [] then Some [] else b64_decode token)"

section \<open>Unary handlers\<close>

record GetUserRequest =
  gr_Id :: string

record ListUsersRequest =
  lr_PageSize :: int
  lr_PageToken :: string

record ListUsersResponse =
  lu_Users :: "User list"
  lu_NextPageToken :: string

record CreateUserRequest =
  cr_Name :: string
  cr_Email :: string
  cr_Age :: int
  cr_IdempotencyKey :: string

record UpdateUserRequest =
  ur_Id :: string
  ur_Name :: string
  ur_Email :: string
  ur_Age :: int

record DeleteUserRequest =
  dr_Id :: string

definition id_required :: go_error where
  "id_required = AppErr (WithField ''id'' ''must not be empty''
     (WithReason ''FIELD_REQUIRED'' (appErrInvalidArgument ''id is required'')))"

definition request_required :: go_error where
  "request_required = AppErr (WithReason ''REQUEST_REQUIRED'' (appErrInvalidArgument ''request is required''))"

text \<open>A storage result as a handler returns it.\<close>

definition mapped :: "'a result \<times> 's \<Rightarrow> 'a result \<times> 's" where
  "mapped p = (case p of (Inl err, s) \<Rightarrow> (Inl (mapStorageError err), s) | (Inr v, s) \<Rightarrow> (Inr v, s))"

definition GetUser where
  "GetUser svc E ctx req s =
     (case validateContext ctx of
        Some err \<Rightarrow> (Inl err, s)
      | None \<Rightarrow>
          (case req of
             None \<Rightarrow> (Inl id_required, s)
           | Some q \<Rightarrow>
               if blank (gr_Id q) then (Inl id_required, s)
               else case us_repository svc of
                      None \<Rightarrow> (Inl (mapStorageError ErrUnavailable), s)
                    | Some repository \<Rightarrow> mapped (Get repository E ctx (gr_Id q) s)))"

definition defaultPageSize :: int where "defaultPageSize = 50"
definition maxPageSize :: int where "maxPageSize = 1000"

definition page_size :: "int \<Rightarrow> int" where
  "page_size n = (if n \<le> 0 then defaultPageSize else if n > maxPageSize then maxPageSize else n)"

definition ListUsers where
  "ListUsers svc E ctx req s =
     (case validateContext ctx of
        Some err \<Rightarrow> (Inl err, s)
      | None \<Rightarrow>
          (case req of
             None \<Rightarrow> (Inl request_required, s)
           | Some q \<Rightarrow>
               (case us_repository svc of
                  None \<Rightarrow> (Inl (mapStorageError ErrUnavailable), s)
                | Some repository \<Rightarrow>
                    (case decodePageToken (lr_PageToken q) of
                       None \<Rightarrow> (Inl (AppErr (WithField ''page_token'' ''is not a valid continuation token''
                          (WithReason ''FIELD_INVALID'' (appErrInvalidArgument ''invalid page_token'')))), s)
                     | Some afterID \<Rightarrow>
                         (case List repository E ctx (page_size (lr_PageSize q)) afterID s of
                            (Inl err, s') \<Rightarrow> (Inl (mapStorageError err), s')
                          | (Inr (us, next), s') \<Rightarrow>
                              (Inr \<lparr>lu_Users = us, lu_NextPageToken = encodePageToken next\<rparr>, s'))))))"

definition CreateUser where
  "CreateUser ParseAddress svc E ctx req s =
     (case validateContext ctx of
        Some err \<Rightarrow> (Inl err, s)
      | None \<Rightarrow>
          (case req of
             None \<Rightarrow> (Inl request_required, s)
           | Some q \<Rightarrow>
               (case validateUserFields ParseAddress (cr_Name q) (cr_Email q) (cr_Age q) (maxStringBytes svc) of
                  Inl err \<Rightarrow> (Inl err, s)
                | Inr (name, email) \<Rightarrow>
                    (case validateOptionalText (cr_IdempotencyKey q) (maxStringBytes svc) ''idempotency_key'' of
                       Some err \<Rightarrow> (Inl err, s)
                     | None \<Rightarrow>
                         (case newID E ''user'' of
                            None \<Rightarrow> (Inl (AppErr (appErrInternal ''could not allocate user id'')), s)
                          | Some i \<Rightarrow>
                              (let now = timestamp_of (clk E HandlerNow);
                                   user = \<lparr>u_Id = i, u_Name = name, u_Email = email, u_Age = cr_Age q,
                                           u_CreatedAt = Some now, u_UpdatedAt = Some now\<rparr>
                               in case us_repository svc of
                                    None \<Rightarrow> (Inl (mapStorageError ErrUnavailable), s)
                                  | Some repository \<Rightarrow>
                                      (case CreateWithIdempotency repository E ctx (Some user) (maxUsers svc)
                                              (cr_IdempotencyKey q) s of
                                         (Inl err, s') \<Rightarrow> (Inl (mapStorageError err), s')
                                       | (Inr (stored, _), s') \<Rightarrow> (Inr stored, s'))))))))"

text \<open>The function \<open>UpdateUser\<close> passes to \<open>ReadModifyUpdate\<close>; it never fails.\<close>

definition apply_update :: "env \<Rightarrow> UpdateUserRequest \<Rightarrow> User \<Rightarrow> User" where
  "apply_update E q current =
     (let current = (if ur_Name q \<noteq> [] then current\<lparr>u_Name := TrimSpace (ur_Name q)\<rparr> else current);
          current = (if ur_Email q \<noteq> [] then current\<lparr>u_Email := TrimSpace (ur_Email q)\<rparr> else current);
          current = (if ur_Age q \<noteq> 0 then current\<lparr>u_Age := ur_Age q\<rparr> else current)
      in current\<lparr>u_UpdatedAt := Some (timestamp_of (clk E HandlerNow))\<rparr>)"

definition UpdateUser where
  "UpdateUser ParseAddress svc E ctx req s =
     (case validateContext ctx of
        Some err \<Rightarrow> (Inl err, s)
      | None \<Rightarrow>
          (case req of
             None \<Rightarrow> (Inl id_required, s)
           | Some q \<Rightarrow>
               if blank (ur_Id q) then (Inl id_required, s)
               else
                 (case us_repository svc of
                    None \<Rightarrow> (Inl (mapStorageError ErrUnavailable), s)
                  | Some repository \<Rightarrow>
                      (case validateOptionalText (ur_Name q) (maxStringBytes svc) ''name'' of
                         Some err \<Rightarrow> (Inl err, s)
                       | None \<Rightarrow>
                           (case validateOptionalText (ur_Email q) (maxStringBytes svc) ''email'' of
                              Some err \<Rightarrow> (Inl err, s)
                            | None \<Rightarrow>
                                if ur_Email q \<noteq> [] \<and> isl (parseEmail ParseAddress (ur_Email q))
                                then (Inl (AppErr (appErrInvalidArgument ''email is invalid'')), s)
                                else if ur_Age q < 0 \<or> ur_Age q > 150
                                then (Inl (AppErr (appErrInvalidArgument ''age must be between 0 and 150'')), s)
                                else mapped (ReadModifyUpdate repository E ctx (ur_Id q)
                                       (Some (\<lambda>current. Inr (apply_update E q current))) s))))))"

definition DeleteUser where
  "DeleteUser svc E ctx req s =
     (case validateContext ctx of
        Some err \<Rightarrow> (Some err, s)
      | None \<Rightarrow>
          (case req of
             None \<Rightarrow> (Some id_required, s)
           | Some q \<Rightarrow>
               if blank (dr_Id q) then (Some id_required, s)
               else case us_repository svc of
                      None \<Rightarrow> (Some (mapStorageError ErrUnavailable), s)
                    | Some repository \<Rightarrow>
                        (case Delete repository E ctx (dr_Id q) s of
                           (Some err, s') \<Rightarrow> (Some (mapStorageError err), s')
                         | (None, s') \<Rightarrow> (None, s'))))"

section \<open>Streaming handlers\<close>

record UserEvent =
  ue_UserId :: string
  ue_EventType :: string
  ue_Payload :: string
  ue_Timestamp :: Timestamp

record StreamUserEventsRequest =
  sr_UserId :: string
  sr_EventTypes :: "string list"

text \<open>What one \<open>select\<close> of the event loop observes: the end of the stream's context, or a tick
  with the clock reading and the outcome of \<open>Send\<close>.\<close>

datatype select_outcome = Done done_cause | Tick int "go_error option"

definition user_event :: "StreamUserEventsRequest \<Rightarrow> nat \<Rightarrow> int \<Rightarrow> UserEvent" where
  "user_event q i now =
     \<lparr>ue_UserId = sr_UserId q,
      ue_EventType = (if length (sr_EventTypes q) > 0
                      then sr_EventTypes q ! (i mod length (sr_EventTypes q))
                      else ''event_'' @ show_nat i),
      ue_Payload = ''{'' @ [CHR 0x22] @ ''data'' @ [CHR 0x22] @ '':'' @ show_nat i @ ''}'',
      ue_Timestamp = timestamp_of now\<rparr>"

text \<open>The loop from iteration \<open>i\<close> with \<open>n\<close> iterations left: its error and the events sent.\<close>

fun event_loop ::
  "(nat \<Rightarrow> select_outcome) \<Rightarrow> StreamUserEventsRequest \<Rightarrow> nat \<Rightarrow> nat \<Rightarrow> go_error option \<times> UserEvent list" where
  "event_loop sel q i 0 = (None, [])"
| "event_loop sel q i (Suc n) =
     (case sel i of
        Done cause \<Rightarrow> (Some (case cause of Cancelled \<Rightarrow> ctxCanceled | Expired \<Rightarrow> ctxDeadlineExceeded), [])
      | Tick now sent \<Rightarrow>
          (case sent of
             Some err \<Rightarrow> (Some err, [])
           | None \<Rightarrow> (case event_loop sel q (Suc i) n of (r, evs) \<Rightarrow> (r, user_event q i now # evs))))"

primrec first_invalid :: "'s UserService \<Rightarrow> string \<Rightarrow> string list \<Rightarrow> go_error option" where
  "first_invalid svc field [] = None"
| "first_invalid svc field (x # xs) =
     (case validateText svc x field of Some err \<Rightarrow> Some err | None \<Rightarrow> first_invalid svc field xs)"

definition StreamUserEvents where
  "StreamUserEvents svc E ctx sel req s =
     (case req of
        None \<Rightarrow> ((Some (AppErr (appErrInvalidArgument ''user_id is required'')), []), s)
      | Some q \<Rightarrow>
          if blank (sr_UserId q) then ((Some (AppErr (appErrInvalidArgument ''user_id is required'')), []), s)
          else
            (case validateText svc (sr_UserId q) ''user_id'' of
               Some err \<Rightarrow> ((Some err, []), s)
             | None \<Rightarrow>
                 if int (length (sr_EventTypes q)) > maxStreamMessages svc
                 then ((Some (AppErr (appErrResourceExhausted ''too many event types'')), []), s)
                 else
                   (case first_invalid svc ''event_type'' (sr_EventTypes q) of
                      Some err \<Rightarrow> ((Some err, []), s)
                    | None \<Rightarrow>
                        (case GetUser svc E ctx (Some \<lparr>gr_Id = sr_UserId q\<rparr>) s of
                           (Inl err, s') \<Rightarrow> ((Some err, []), s')
                         | (Inr _, s') \<Rightarrow> (event_loop sel q 0 (nat (maxStreamMessages svc)), s')))))"

text \<open>The \<open>float64\<close> arithmetic of the host, as the operations the handler uses.\<close>

record 'f float64 =
  f_zero :: 'f
  f_add :: "'f \<Rightarrow> 'f \<Rightarrow> 'f"
  f_div :: "'f \<Rightarrow> 'f \<Rightarrow> 'f"
  f_of_int :: "int \<Rightarrow> 'f"
  f_print :: "'f \<Rightarrow> string"
  IsNaN :: "'f \<Rightarrow> bool"
  IsInf :: "'f \<Rightarrow> bool"

record 'f UserMetric =
  um_UserId :: string
  um_MetricName :: string
  um_Value :: 'f

record 'f CollectMetricsResponse =
  cm_Count :: int
  cm_Sum :: 'f
  cm_Avg :: 'f

text \<open>Conversion to \<open>int32\<close> keeps the low 32 bits.\<close>

definition int32 :: "int \<Rightarrow> int" where
  "int32 x = (x + 2 ^ 31) mod 2 ^ 32 - 2 ^ 31"

definition recv_done :: "go_error \<Rightarrow> bool" where
  "recv_done err \<longleftrightarrow> errors_Is err io_EOF"

text \<open>
  The loop over the results of \<open>Recv\<close>; it ends with an error or with the count and the sum.
  \<open>None\<close> stands for a handler that is still waiting for the next message.
\<close>

fun metrics_loop ::
  "'s UserService \<Rightarrow> 'f float64 \<Rightarrow> ('f UserMetric option) result list \<Rightarrow> int \<Rightarrow> 'f \<Rightarrow> (int \<times> 'f) result option" where
  "metrics_loop svc F [] count acc = None"
| "metrics_loop svc F (r # recvs) count acc =
     (case r of
        Inl err \<Rightarrow> if recv_done err then Some (Inr (count, acc)) else Some (Inl err)
      | Inr metric \<Rightarrow>
          (case metric of
             None \<Rightarrow> Some (Inl (AppErr (appErrInvalidArgument ''metric is required'')))
           | Some m \<Rightarrow>
               if count \<ge> int32 (maxStreamMessages svc)
               then Some (Inl (AppErr (appErrResourceExhausted ''metric stream limit reached'')))
               else
                 (case validateText svc (um_UserId m) ''user_id'' of
                    Some err \<Rightarrow> Some (Inl err)
                  | None \<Rightarrow>
                      (case validateText svc (um_MetricName m) ''metric_name'' of
                         Some err \<Rightarrow> Some (Inl err)
                       | None \<Rightarrow>
                           if IsNaN F (um_Value m) \<or> IsInf F (um_Value m)
                           then Some (Inl (AppErr (appErrInvalidArgument ''metric value must be finite'')))
                           else
                             (let acc = f_add F acc (um_Value m)
                              in if IsInf F acc
                                 then Some (Inl (AppErr (appErrInvalidArgument ''metric sum is out of range'')))
                                 else metrics_loop svc F recvs (int32 (count + 1)) acc)))))"

text \<open>
  The handler's error and the summary it handed to \<open>SendAndClose\<close>, whose own outcome is
  \<open>closeErr\<close>.
\<close>

definition CollectUserMetrics ::
  "'s UserService \<Rightarrow> 'f float64 \<Rightarrow> ('f UserMetric option) result list \<Rightarrow> go_error option \<Rightarrow>
     (go_error option \<times> 'f CollectMetricsResponse option) option" where
  "CollectUserMetrics svc F recvs closeErr =
     (case metrics_loop svc F recvs 0 (f_zero F) of
        None \<Rightarrow> None
      | Some (Inl err) \<Rightarrow> Some (Some err, None)
      | Some (Inr (count, acc)) \<Rightarrow>
          (let average = (if count > 0 then f_div F acc (f_of_int F count) else f_zero F)
           in Some (closeErr, Some \<lparr>cm_Count = count, cm_Sum = acc, cm_Avg = average\<rparr>)))"

record ChatMessage =
  ch_Id :: string
  ch_UserId :: string
  ch_Message :: string
  ch_Timestamp :: "Timestamp option"

text \<open>
  One iteration of the chat loop: the result of \<open>Recv\<close>, the clock and the random bytes of the
  iteration, and the outcome of \<open>Send\<close>. The loop returns the handler's result (\<open>None\<close> while
  it waits) and the replies sent.
\<close>

fun ChatStream ::
  "'s UserService \<Rightarrow> ((ChatMessage option) result \<times> env \<times> go_error option) list \<Rightarrow>
     (go_error option) option \<times> ChatMessage list" where
  "ChatStream svc [] = (None, [])"
| "ChatStream svc ((r, E, sent) # steps) =
     (case r of
        Inl err \<Rightarrow> (Some (if errors_Is err io_EOF then None else Some err), [])
      | Inr msg \<Rightarrow>
          (case msg of
             None \<Rightarrow> (Some (Some (AppErr (appErrInvalidArgument ''message is required''))), [])
           | Some m \<Rightarrow>
               (case validateText svc (ch_UserId m) ''user_id'' of
                  Some err \<Rightarrow> (Some (Some err), [])
                | None \<Rightarrow>
                    (case validateText svc (ch_Message m) ''message'' of
                       Some err \<Rightarrow> (Some (Some err), [])
                     | None \<Rightarrow>
                         (case newID E ''msg'' of
                            None \<Rightarrow> (Some (Some (AppErr (appErrInternal ''could not allocate message id''))), [])
                          | Some i \<Rightarrow>
                              (case sent of
                                 Some err \<Rightarrow> (Some (Some err), [])
                               | None \<Rightarrow>
                                   (case ChatStream svc steps of
                                      (res, replies) \<Rightarrow>
                                        (res, m\<lparr>ch_Id := i, ch_Timestamp := Some (timestamp_of (clk E HandlerNow))\<rparr>
                                           # replies))))))))"

section \<open>The service over a repository that keeps the contract\<close>

text \<open>The unary methods of the service as one call type, for runs of requests.\<close>

datatype unary_call =
    CallGet "GetUserRequest option"
  | CallList "ListUsersRequest option"
  | CallCreate "CreateUserRequest option"
  | CallUpdate "UpdateUserRequest option"
  | CallDelete "DeleteUserRequest option"

definition drop_value :: "'a result \<times> 's \<Rightarrow> go_error option \<times> 's" where
  "drop_value p = (err_of (fst p), snd p)"

fun serve ::
  "(string \<Rightarrow> string option) \<Rightarrow> 's UserService \<Rightarrow> env \<times> Context option \<times> unary_call \<Rightarrow> 's \<Rightarrow> go_error option \<times> 's" where
  "serve P svc (E, ctx, CallGet q) s = drop_value (GetUser svc E ctx q s)"
| "serve P svc (E, ctx, CallList q) s = drop_value (ListUsers svc E ctx q s)"
| "serve P svc (E, ctx, CallCreate q) s = drop_value (CreateUser P svc E ctx q s)"
| "serve P svc (E, ctx, CallUpdate q) s = drop_value (UpdateUser P svc E ctx q s)"
| "serve P svc (E, ctx, CallDelete q) s = DeleteUser svc E ctx q s"

definition serve_all where
  "serve_all P svc calls s = fold (\<lambda>c s. snd (serve P svc c s)) calls s"

text \<open>What the service guarantees of every user it lets into the store.\<close>

definition user_ok :: "'s UserService \<Rightarrow> string \<Rightarrow> User \<Rightarrow> bool" where
  "user_ok svc i u \<longleftrightarrow> i \<noteq> [] \<and> u_Id u = i \<and> u_Name u \<noteq> [] \<and> int (length (u_Name u)) \<le> maxStringBytes svc \<and>
     int (length (u_Email u)) \<le> maxStringBytes svc \<and> 0 \<le> u_Age u \<and> u_Age u \<le> 150 \<and> has_times u"

definition store_ok :: "'s UserService \<Rightarrow> store \<Rightarrow> bool" where
  "store_ok svc m \<longleftrightarrow> (\<forall>i u. m i = Some u \<longrightarrow> user_ok svc i u) \<and> int (card (dom m)) \<le> maxUsers svc"

lemma validateOptionalText_None: "validateOptionalText v n f = None \<Longrightarrow> int (length v) \<le> n \<or> v = []"
  "validateOptionalText v n f = None \<Longrightarrow> v \<noteq> [] \<Longrightarrow> \<not> blank v"
  by (auto simp: validateOptionalText_def split: if_splits)

lemma length_TrimSpace_le: "int (length v) \<le> n \<Longrightarrow> int (length (TrimSpace v)) \<le> n"
  using length_TrimSpace [of v] by linarith

lemma validateUserFields_Inr:
  assumes "validateUserFields P n e a l = Inr (name, email)"
  shows "name = TrimSpace n" "\<not> blank n" "email = TrimSpace e" "0 \<le> a" "a \<le> 150"
    "int (length n) \<le> l" "0 \<le> l \<Longrightarrow> int (length e) \<le> l"
  using assms validateOptionalText_None [of n l "''name''"] validateOptionalText_None [of e l "''email''"]
  by (auto simp: validateUserFields_def parseEmail_def split: if_splits option.splits sum.splits)

definition created_user :: "env \<Rightarrow> CreateUserRequest \<Rightarrow> User \<Rightarrow> bool" where
  "created_user E q u \<longleftrightarrow> newID E ''user'' = Some (u_Id u) \<and> u_Name u = TrimSpace (cr_Name q) \<and>
     u_Email u = TrimSpace (cr_Email q) \<and> u_Age u = cr_Age q \<and>
     u_CreatedAt u = Some (timestamp_of (clk E HandlerNow)) \<and> u_UpdatedAt u = u_CreatedAt u"

lemma CreateUser_cases:
  assumes "CreateUser P svc E ctx req s = (r, s')" and "us_repository svc = Some R"
  obtains (rejected) err where "r = Inl err" "s' = s"
  | (called) q u r0 where "req = Some q" "created_user E q u"
      "validateUserFields P (cr_Name q) (cr_Email q) (cr_Age q) (maxStringBytes svc) = Inr (u_Name u, u_Email u)"
      "CreateWithIdempotency R E ctx (Some u) (maxUsers svc) (cr_IdempotencyKey q) s = (r0, s')"
      "r = map_sum mapStorageError fst r0"
proof -
  consider "\<exists>err. r = Inl err \<and> s' = s"
    | q name email i where "req = Some q"
      "validateUserFields P (cr_Name q) (cr_Email q) (cr_Age q) (maxStringBytes svc) = Inr (name, email)"
      "newID E ''user'' = Some i"
      "(case CreateWithIdempotency R E ctx
          (Some \<lparr>u_Id = i, u_Name = name, u_Email = email, u_Age = cr_Age q,
             u_CreatedAt = Some (timestamp_of (clk E HandlerNow)), u_UpdatedAt = Some (timestamp_of (clk E HandlerNow))\<rparr>)
          (maxUsers svc) (cr_IdempotencyKey q) s of
         (Inl err, s') \<Rightarrow> (Inl (mapStorageError err), s') | (Inr (stored, _), s') \<Rightarrow> (Inr stored, s')) = (r, s')"
    using assms by (auto simp: CreateUser_def Let_def split: option.splits sum.splits prod.splits)
  then show thesis
  proof cases
    case 1
    then show thesis using rejected by blast
  next
    case 2
    let ?u = "\<lparr>u_Id = i, u_Name = name, u_Email = email, u_Age = cr_Age q,
             u_CreatedAt = Some (timestamp_of (clk E HandlerNow)), u_UpdatedAt = Some (timestamp_of (clk E HandlerNow))\<rparr>"
    have "created_user E q ?u" using 2(3) validateUserFields_Inr [OF 2(2)] by (simp add: created_user_def)
    moreover obtain r0 s0 where op: "CreateWithIdempotency R E ctx (Some ?u) (maxUsers svc) (cr_IdempotencyKey q) s = (r0, s0)"
      by fastforce
    moreover have "s0 = s'" "r = map_sum mapStorageError fst r0"
      using 2(4) unfolding op by (auto split: sum.splits)
    ultimately show thesis using called 2(1,2) by (metis User.select_convs(2,3))
  qed
qed

lemma UpdateUser_cases:
  assumes "UpdateUser P svc E ctx req s = (r, s')" and "us_repository svc = Some R"
  obtains (rejected) err where "r = Inl err" "s' = s"
  | (called) q r0 where "req = Some q" "validateOptionalText (ur_Name q) (maxStringBytes svc) ''name'' = None"
      "validateOptionalText (ur_Email q) (maxStringBytes svc) ''email'' = None" "0 \<le> ur_Age q" "ur_Age q \<le> 150"
      "ReadModifyUpdate R E ctx (ur_Id q) (Some (\<lambda>u. Inr (apply_update E q u))) s = (r0, s')"
      "r = map_sum mapStorageError (\<lambda>u. u) r0"
proof -
  consider "\<exists>err. r = Inl err \<and> s' = s"
    | q where "req = Some q" "validateOptionalText (ur_Name q) (maxStringBytes svc) ''name'' = None"
      "validateOptionalText (ur_Email q) (maxStringBytes svc) ''email'' = None" "0 \<le> ur_Age q" "ur_Age q \<le> 150"
      "mapped (ReadModifyUpdate R E ctx (ur_Id q) (Some (\<lambda>u. Inr (apply_update E q u))) s) = (r, s')"
    using assms by (auto simp: UpdateUser_def split: option.splits if_splits)
  then show thesis
  proof cases
    case 1
    then show thesis using rejected by blast
  next
    case 2
    obtain r0 s0 where op: "ReadModifyUpdate R E ctx (ur_Id q) (Some (\<lambda>u. Inr (apply_update E q u))) s = (r0, s0)"
      by fastforce
    have "s0 = s'" "r = map_sum mapStorageError (\<lambda>u. u) r0"
      using 2(6) unfolding op by (auto simp: mapped_def split: sum.splits)
    with called 2 op show thesis by blast
  qed
qed

lemma apply_update_frame [simp]: "u_Id (apply_update E q u) = u_Id u" "u_CreatedAt (apply_update E q u) = u_CreatedAt u"
  by (simp_all add: apply_update_def Let_def)

lemma apply_update_ok:
  assumes "user_ok svc i u" and "validateOptionalText (ur_Name q) (maxStringBytes svc) ''name'' = None"
    and "validateOptionalText (ur_Email q) (maxStringBytes svc) ''email'' = None" "0 \<le> ur_Age q" "ur_Age q \<le> 150"
  shows "user_ok svc i (apply_update E q u)"
  using assms validateOptionalText_None [OF assms(2)] validateOptionalText_None [OF assms(3)]
  by (auto simp: user_ok_def apply_update_def has_times_def Let_def intro: length_TrimSpace_le)

lemma store_ok_insert:
  assumes "store_ok svc m" and "user_ok svc i u" and "finite (dom m)" and "i \<notin> dom m" and "int (card (dom m)) < maxUsers svc"
  shows "store_ok svc (m(i \<mapsto> u))"
  using assms by (auto simp: store_ok_def)

lemma store_ok_replace: "store_ok svc m \<Longrightarrow> user_ok svc i u \<Longrightarrow> i \<in> dom m \<Longrightarrow> store_ok svc (m(i \<mapsto> u))"
  by (auto simp: store_ok_def insert_absorb)

lemma store_ok_remove:
  assumes "store_ok svc m" and "finite (dom m)"
  shows "store_ok svc (m(i := None))"
proof -
  have "card (dom m - {i}) \<le> card (dom m)" by (rule card_mono) (use assms(2) in auto)
  with assms(1) show ?thesis by (auto simp: store_ok_def)
qed

lemma created_user_ok:
  assumes "created_user E q u" and "u_Id u \<noteq> []" and "0 \<le> maxStringBytes svc"
    and "validateUserFields P (cr_Name q) (cr_Email q) (cr_Age q) (maxStringBytes svc) = Inr (u_Name u, u_Email u)"
  shows "user_ok svc (u_Id u) u"
  using assms(1-3) validateUserFields_Inr [OF assms(4)]
  by (auto simp: user_ok_def created_user_def has_times_def intro: length_TrimSpace_le)

locale service_over = weak_repository +
  fixes svc :: "'a UserService"
  assumes svc_repo: "us_repository svc = Some R" and svc_bytes: "0 \<le> maxStringBytes svc"
begin

lemma GetUser_ok:
  assumes "inv s" and "GetUser svc E ctx req s = (r, s')"
  shows "abs s' = abs s \<and> inv s' \<and> (\<forall>u. r = Inr u \<longrightarrow> (\<exists>q. req = Some q \<and> abs s (gr_Id q) = Some u))"
proof -
  consider "\<exists>err. r = Inl err \<and> s' = s" | q where "req = Some q" "mapped (Get R E ctx (gr_Id q) s) = (r, s')"
    using assms(2) svc_repo by (auto simp: GetUser_def split: option.splits if_splits)
  then show ?thesis
  proof cases
    case 1
    with assms(1) show ?thesis by auto
  next
    case 2
    obtain r0 s0 where op: "Get R E ctx (gr_Id q) s = (r0, s0)" by fastforce
    from Get_ok [OF assms(1) op] 2 show ?thesis
      unfolding op by (auto simp: mapped_def spec_Get_def split: sum.splits)
  qed
qed

lemma ListUsers_ok:
  assumes "inv s" and "ListUsers svc E ctx req s = (r, s')"
  shows "abs s' = abs s \<and> inv s' \<and>
    (\<forall>p. r = Inr p \<longrightarrow> (\<exists>q after. req = Some q \<and> decodePageToken (lr_PageToken q) = Some after \<and>
       lu_Users p = fst (page_of (abs s) (nat (page_size (lr_PageSize q))) after) \<and>
       lu_NextPageToken p = encodePageToken (snd (page_of (abs s) (nat (page_size (lr_PageSize q))) after))))"
proof -
  consider "\<exists>err. r = Inl err \<and> s' = s"
    | q after where "req = Some q" "decodePageToken (lr_PageToken q) = Some after"
      "(case List R E ctx (page_size (lr_PageSize q)) after s of (Inl err, s') \<Rightarrow> (Inl (mapStorageError err), s')
        | (Inr (us, next), s') \<Rightarrow> (Inr \<lparr>lu_Users = us, lu_NextPageToken = encodePageToken next\<rparr>, s')) = (r, s')"
    using assms(2) svc_repo by (auto simp: ListUsers_def split: option.splits)
  then show ?thesis
  proof cases
    case 1
    with assms(1) show ?thesis by auto
  next
    case 2
    obtain r0 s0 where op: "List R E ctx (page_size (lr_PageSize q)) after s = (r0, s0)" by fastforce
    from List_ok [OF assms(1) op] have sp: "abs s0 = abs s" "inv s0"
      "\<And>p. r0 = Inr p \<Longrightarrow> p = page_of (abs s) (nat (page_size (lr_PageSize q))) after"
      by (auto simp: spec_List_def)
    show ?thesis
    proof (cases r0)
      case (Inl err)
      with 2(3) sp show ?thesis unfolding op by auto
    next
      case (Inr p)
      from 2(3) have "s' = s0" "r = Inr \<lparr>lu_Users = fst p, lu_NextPageToken = encodePageToken (snd p)\<rparr>"
        unfolding op Inr by (auto split: prod.splits)
      with 2(1,2) sp Inr show ?thesis by auto
    qed
  qed
qed

lemma CreateUser_ok:
  assumes "inv s" and "CreateUser P svc E ctx req s = (r, s')"
  shows "inv s' \<and> (case r of
      Inl err \<Rightarrow> abs s' = abs s
    | Inr u \<Rightarrow> \<exists>q. req = Some q \<and>
        (abs s' = abs s \<and> cr_IdempotencyKey q \<noteq> [] \<and> u \<in> ran (abs s) \<or>
         created_user E q u \<and> user_ok svc (u_Id u) u \<and> u_Id u \<notin> dom (abs s) \<and>
         int (card (dom (abs s))) < maxUsers svc \<and> abs s' = (abs s)(u_Id u \<mapsto> u)))"
  using assms(2) svc_repo
proof (cases rule: CreateUser_cases)
  case (rejected err)
  with assms(1) show ?thesis by simp
next
  case (called q u r0)
  note sp = CreateWithIdempotency_ok [OF assms(1) called(4)]
  show ?thesis
  proof (cases r0)
    case (Inl err)
    with sp called(5) show ?thesis by (simp add: spec_CreateWithIdempotency_def)
  next
    case (Inr vb)
    obtain v b where vb: "vb = (v, b)" by fastforce
    show ?thesis
    proof (cases b)
      case True
      with sp called(1,5) Inr vb show ?thesis by (simp add: spec_CreateWithIdempotency_def)
    next
      case False
      with sp Inr vb have "v = u" "u_Id u \<noteq> []" "u_Id u \<notin> dom (abs s)" "int (card (dom (abs s))) < maxUsers svc"
        "abs s' = (abs s)(u_Id u \<mapsto> u)" "inv s'"
        by (auto simp: spec_CreateWithIdempotency_def)
      with called Inr vb created_user_ok [OF called(2) _ svc_bytes called(3)] show ?thesis by auto
    qed
  qed
qed

lemma UpdateUser_ok:
  assumes "inv s" and "UpdateUser P svc E ctx req s = (r, s')"
  shows "inv s' \<and> (abs s' = abs s \<and> (\<forall>u. r = Inr u \<longrightarrow> (\<exists>i. abs s i = Some u)) \<or> (\<exists>q old. req = Some q \<and> abs s (ur_Id q) = Some old \<and>
      r = Inr (apply_update E q old) \<and> abs s' = (abs s)(ur_Id q \<mapsto> apply_update E q old) \<and>
      (\<forall>i. user_ok svc i old \<longrightarrow> user_ok svc i (apply_update E q old))))"
  using assms(2) svc_repo
proof (cases rule: UpdateUser_cases)
  case (rejected err)
  with assms(1) show ?thesis by simp
next
  case (called q r0)
  note keeps = apply_update_ok [OF _ called(2-5)]
  from ReadModifyUpdate_weak [OF assms(1) called(6)] show ?thesis
    using called(1,7) keeps by (auto simp: spec_ReadModifyUpdate_def split: sum.splits)
qed

lemma DeleteUser_ok:
  assumes "inv s" and "DeleteUser svc E ctx req s = (r, s')"
  shows "inv s' \<and> (case r of Some err \<Rightarrow> abs s' = abs s
    | None \<Rightarrow> \<exists>q. req = Some q \<and> dr_Id q \<in> dom (abs s) \<and> abs s' = (abs s)(dr_Id q := None))"
proof -
  consider "r \<noteq> None" "s' = s"
    | q where "req = Some q" "(case Delete R E ctx (dr_Id q) s of (Some err, s') \<Rightarrow> (Some (mapStorageError err), s')
        | (None, s') \<Rightarrow> (None, s')) = (r, s')"
    using assms(2) svc_repo
    by (cases "validateContext ctx") (auto simp: DeleteUser_def split: option.splits if_splits, metis)
  then show ?thesis
  proof cases
    case 1
    with assms(1) show ?thesis by auto
  next
    case 2
    obtain r0 s0 where op: "Delete R E ctx (dr_Id q) s = (r0, s0)" by fastforce
    from Delete_ok [OF assms(1) op] 2 show ?thesis
      unfolding op by (auto simp: spec_Delete_def split: option.splits)
  qed
qed

text \<open>What one request does to the store, whatever the method.\<close>

lemma serve_effect:
  assumes "inv s" and "serve P svc c s = (r, s')"
  shows "inv s' \<and> (abs s' = abs s \<or> r = None \<and>
     ((\<exists>i u. user_ok svc i u \<and> i \<notin> dom (abs s) \<and> int (card (dom (abs s))) < maxUsers svc \<and> abs s' = (abs s)(i \<mapsto> u)) \<or>
      (\<exists>i old new. abs s i = Some old \<and> abs s' = (abs s)(i \<mapsto> new) \<and> (user_ok svc i old \<longrightarrow> user_ok svc i new)) \<or>
      (\<exists>i. abs s' = (abs s)(i := None))))"
proof (cases c)
  case (fields E ctx q)
  show ?thesis
  proof (cases q)
    case (CallGet x)
    obtain r0 s0 where op: "GetUser svc E ctx x s = (r0, s0)" by fastforce
    from GetUser_ok [OF assms(1) op] assms(2) fields CallGet op show ?thesis by (simp add: drop_value_def)
  next
    case (CallList x)
    obtain r0 s0 where op: "ListUsers svc E ctx x s = (r0, s0)" by fastforce
    from ListUsers_ok [OF assms(1) op] assms(2) fields CallList op show ?thesis by (simp add: drop_value_def)
  next
    case (CallCreate x)
    obtain r0 s0 where op: "CreateUser P svc E ctx x s = (r0, s0)" by fastforce
    have "r = err_of r0" "s' = s0" using assms(2) fields CallCreate op by (simp_all add: drop_value_def)
    with CreateUser_ok [OF assms(1) op] show ?thesis by (cases r0) auto
  next
    case (CallUpdate x)
    obtain r0 s0 where op: "UpdateUser P svc E ctx x s = (r0, s0)" by fastforce
    have "r = err_of r0" "s' = s0" using assms(2) fields CallUpdate op by (simp_all add: drop_value_def)
    with UpdateUser_ok [OF assms(1) op] show ?thesis by auto
  next
    case (CallDelete x)
    with assms(2) fields have "DeleteUser svc E ctx x s = (r, s')" by simp
    from DeleteUser_ok [OF assms(1) this] show ?thesis by (cases r) auto
  qed
qed

lemma failed_keeps: "inv s \<Longrightarrow> serve P svc c s = (Some err, s') \<Longrightarrow> abs s' = abs s"
  using serve_effect by blast

lemma serve_store_ok:
  assumes "inv s" and "store_ok svc (abs s)" and "serve P svc c s = (r, s')"
  shows "inv s' \<and> store_ok svc (abs s')"
proof -
  note fin = fin [OF assms(1)]
  have replaced: "store_ok svc ((abs s)(i \<mapsto> new))"
    if "abs s i = Some old" "user_ok svc i old \<longrightarrow> user_ok svc i new" for i old new
    using that assms(2) store_ok_replace [of svc "abs s" i new] by (auto simp: store_ok_def [of svc "abs s"])
  from serve_effect [OF assms(1,3)] show ?thesis
    using assms(2) replaced store_ok_insert [OF assms(2) _ fin] store_ok_remove [OF assms(2) fin] by metis
qed

lemma serve_all_store_ok: "inv s \<Longrightarrow> store_ok svc (abs s) \<Longrightarrow>
   inv (serve_all P svc calls s) \<and> store_ok svc (abs (serve_all P svc calls s))"
proof (induction calls arbitrary: s)
  case Nil
  then show ?case by (simp add: serve_all_def)
next
  case (Cons c calls)
  from serve_store_ok [OF Cons.prems prod.collapse [symmetric]] Cons.IH show ?case
    by (simp add: serve_all_def)
qed

end

lemma svc_fields [simp]:
  "us_repository (NewUserServiceWithRepository r l) = r"
  "maxUsers (NewUserServiceWithRepository r l) = MaxUsers (normalize_limits l)"
  "maxStringBytes (NewUserServiceWithRepository r l) = MaxStringBytes (normalize_limits l)"
  "maxStreamMessages (NewUserServiceWithRepository r l) = MaxStreamMessages (normalize_limits l)"
  by (simp_all add: NewUserServiceWithRepository_def Let_def)

lemma normalize_limits_pos: "0 < MaxUsers (normalize_limits l)" "0 < MaxStringBytes (normalize_limits l)"
  "0 < MaxStreamMessages (normalize_limits l)" "0 < StreamInterval (normalize_limits l)"
  by (simp_all add: normalize_limits_def)

text \<open>The repository stack of the program: the cache over the circuit breaker over the store.\<close>

type_synonym stack = "MemoryRepository CircuitBreakerRepository CacheRepository"

abbreviation stack_ops :: "CircuitBreakerConfig \<Rightarrow> stack Repository" where
  "stack_ops cfg \<equiv> cache_ops (circuit_breaker_ops cfg memory_ops)"

abbreviation stack_store :: "stack \<Rightarrow> store" where
  "stack_store c \<equiv> mem_abs (cb_inner (ca_inner c))"

abbreviation stack_ok :: "stack \<Rightarrow> bool" where
  "stack_ok \<equiv> cache_ok (\<lambda>cb. mem_abs (cb_inner cb)) (\<lambda>cb. mem_inv (cb_inner cb))"

abbreviation stack_service :: "CircuitBreakerConfig \<Rightarrow> ServiceLimits \<Rightarrow> stack UserService" where
  "stack_service cfg limits \<equiv> NewUserServiceWithRepository (Some (stack_ops cfg)) limits"

definition new_stack :: "int \<Rightarrow> stack" where
  "new_stack cacheTTL = NewCacheRepository (NewCircuitBreakerRepository NewMemoryRepository) cacheTTL"

interpretation uss: service_over "stack_ops cfg" stack_store stack_ok "stack_service cfg limits" for cfg limits
  by unfold_locales (use normalize_limits_pos(2) [of limits] in simp_all)

interpretation usb: service_over "circuit_breaker_ops cfg memory_ops" "\<lambda>cb. mem_abs (cb_inner cb)"
    "\<lambda>cb. mem_inv (cb_inner cb)" "NewUserServiceWithRepository (Some (circuit_breaker_ops cfg memory_ops)) limits" for cfg limits
  by unfold_locales (use normalize_limits_pos(2) [of limits] in simp_all)

lemma new_stack_ok: "stack_ok (new_stack t)" "stack_store (new_stack t) = Map.empty"
  unfolding new_stack_def NewCacheRepository_def
  by (rule cacb.cached_inv_New)
     (simp_all add: NewCircuitBreakerRepository_def mem_inv_New, simp add: mem_abs_def NewMemoryRepository_def
        NewCacheRepositoryWithLimit_def)

text \<open>
  Whatever requests arrive in whatever order, with any clock, contexts and random bytes,
  the store behind the service holds at most \<open>MaxUsers\<close> users, and every stored user is filed
  under its own non-empty identifier, has a non-blank name, a name and an email within the
  configured size, an age from 0 to 150 and valid times of its creation and its last update.
\<close>

lemma service_invariant:
  "store_ok (stack_service cfg limits)
     (stack_store (serve_all P (stack_service cfg limits) calls (new_stack t)))"
proof -
  have "store_ok (stack_service cfg limits) (stack_store (new_stack t))"
    unfolding new_stack_ok(2) using normalize_limits_pos(1) [of limits] by (simp add: store_ok_def)
  from uss.serve_all_store_ok [OF new_stack_ok(1) this] show ?thesis by simp
qed


text \<open>
  C26: a successful \<open>CreateUser\<close> answers with a user that is stored. Either the request replays
  an idempotency key and nothing changes, or the user is new: its identifier is fresh and made
  from the random bytes, name and email are the trimmed ones of the request, both times are the
  clock's, there was room for it, and the store gains exactly this user.
\<close>

theorem create_user_stores:
  assumes "stack_ok s" and "CreateUser P (stack_service cfg limits) E ctx (Some q) s = (Inr u, s')"
  shows "stack_store s' = stack_store s \<and> cr_IdempotencyKey q \<noteq> [] \<and> u \<in> ran (stack_store s) \<or>
     created_user E q u \<and> u_Id u \<notin> dom (stack_store s) \<and>
       int (card (dom (stack_store s))) < MaxUsers (normalize_limits limits) \<and>
       stack_store s' = (stack_store s)(u_Id u \<mapsto> u)"
  using uss.CreateUser_ok [OF assms] by auto

text \<open>
  C27: without the cache, a successful \<open>UpdateUser\<close> has merged the request into the stored user
  in one step: each non-empty or non-zero field replaces the stored one (trimmed), the others
  and the creation time stay, and the store changes at this identifier only.
\<close>

theorem update_user_merges:
  fixes s :: "MemoryRepository CircuitBreakerRepository"
  assumes "mem_inv (cb_inner s)"
    and "UpdateUser P (NewUserServiceWithRepository (Some (circuit_breaker_ops cfg memory_ops)) limits) E ctx (Some q) s
      = (Inr u, s')"
  shows "\<exists>old. mem_abs (cb_inner s) (ur_Id q) = Some old \<and>
     u = old\<lparr>u_Name := (if ur_Name q = [] then u_Name old else TrimSpace (ur_Name q)),
             u_Email := (if ur_Email q = [] then u_Email old else TrimSpace (ur_Email q)),
             u_Age := (if ur_Age q = 0 then u_Age old else ur_Age q),
             u_UpdatedAt := Some (timestamp_of (clk E HandlerNow))\<rparr> \<and>
     mem_abs (cb_inner s') = (mem_abs (cb_inner s))(ur_Id q \<mapsto> u)"
  using assms(2) svc_fields(1)
proof (cases rule: UpdateUser_cases)
  case (called q' r0)
  then have "r0 = Inr u" by (cases r0) auto
  with cbm.wrapped.ReadModifyUpdate_ok [OF assms(1) called(6)] called(1) show ?thesis
    by (auto simp: spec_ReadModifyUpdate_def apply_update_def Let_def)
qed simp

section \<open>Pagination\<close>

lemma page_token_roundtrip: "decodePageToken (encodePageToken i) = Some i"
proof (cases "i = []")
  case False
  have "b64_encode i \<noteq> []"
  proof
    assume "b64_encode i = []"
    then have "b64_decode (b64_encode i) = b64_decode []" by simp
    then show False using b64_roundtrip [of i] False by (simp add: b64_decode_def)
  qed
  with False show ?thesis by (simp add: encodePageToken_def decodePageToken_def b64_roundtrip)
qed (simp add: encodePageToken_def decodePageToken_def)

lemma encodePageToken_Nil: "encodePageToken i = [] \<longleftrightarrow> i = []"
  using page_token_roundtrip [of i] by (auto simp: encodePageToken_def decodePageToken_def)

text \<open>A client that follows the page tokens until there is none, for at most \<open>n\<close> pages.\<close>

fun list_pages where
  "list_pages svc E ctx pageSize 0 token s = None"
| "list_pages svc E ctx pageSize (Suc n) token s =
     (case ListUsers svc E ctx (Some \<lparr>lr_PageSize = pageSize, lr_PageToken = token\<rparr>) s of
        (Inl err, s') \<Rightarrow> Some (Inl err)
      | (Inr p, s') \<Rightarrow>
          if lu_NextPageToken p = [] then Some (Inr [lu_Users p])
          else map_option (map_sum (\<lambda>err. err) (\<lambda>ps. lu_Users p # ps))
                 (list_pages svc E ctx pageSize n (lu_NextPageToken p) s'))"

lemma page_size_range: "1 \<le> page_size n" "page_size n \<le> 1000"
  by (simp_all add: page_size_def defaultPageSize_def maxPageSize_def)

lemma mem_ListUsers:
  assumes "mem_inv r" and "\<not> closed r" and "validateContext ctx = None" and "decodePageToken token = Some a"
  shows "ListUsers (NewUserServiceWithRepository (Some memory_ops) limits) E ctx
      (Some \<lparr>lr_PageSize = k, lr_PageToken = token\<rparr>) r =
    (Inr \<lparr>lu_Users = fst (page_of (mem_abs r) (nat (page_size k)) a),
          lu_NextPageToken = encodePageToken (snd (page_of (mem_abs r) (nat (page_size k)) a))\<rparr>, r)"
proof -
  have "contextError ctx = None"
    using assms(3) by (auto simp: validateContext_def contextError_def split: option.splits)
  then obtain p r' where op: "mem_List E ctx (page_size k) a r = (Inr p, r')"
    using assms(2) page_size_range(1) [of k] by (auto simp: mem_List_def Let_def split: if_splits)
  from mem_List_page [OF assms(1) op] op assms(3,4) show ?thesis
    by (simp add: ListUsers_def memory_ops_def case_prod_unfold)
qed

lemma list_pages_from:
  assumes "mem_inv r" and "\<not> closed r" and "validateContext ctx = None"
    and "decodePageToken token = Some a" and "length (ids_after (mem_abs r) a) < fuel"
  shows "\<exists>pages. list_pages (NewUserServiceWithRepository (Some memory_ops) limits) E ctx k fuel token r = Some (Inr pages) \<and>
     concat pages = map (\<lambda>i. the (mem_abs r i)) (ids_after (mem_abs r) a) \<and>
     (\<forall>p \<in> set pages. int (length p) \<le> page_size k)"
  using assms(4,5)
proof (induction fuel arbitrary: token a)
  case 0
  then show ?case by simp
next
  case (Suc fuel)
  let ?m = "mem_abs r" and ?n = "nat (page_size k)"
  define ids where "ids = ids_after ?m a"
  have n: "0 < ?n" "int ?n = page_size k" using page_size_range(1) [of k] by simp_all
  note step = mem_ListUsers [OF assms(1-3) Suc.prems(1), of limits E k]
  show ?case
  proof (cases "length ids > ?n")
    case False
    then have "page_of ?m ?n a = (map (\<lambda>i. the (?m i)) ids, [])"
      by (simp add: page_of_def Let_def ids_def)
    with step False n show ?thesis by (simp add: encodePageToken_def ids_def)
  next
    case True
    define x where "x = ids ! (?n - 1)"
    have split: "ids = take (?n - 1) ids @ x # drop ?n ids"
      using True n(1) id_take_nth_drop [of "?n - 1" ids] by (simp add: x_def)
    have last: "last (take ?n ids) = x" using True n(1) by (subst last_conv_nth) (auto simp: x_def)
    have pg: "page_of ?m ?n a = (map (\<lambda>i. the (?m i)) (take ?n ids), x)"
      using True last by (simp add: page_of_def Let_def ids_def)
    have fin: "finite (dom ?m)" by simp
    have "x \<in> set ids" using True n(1) by (simp add: x_def)
    then have "x \<noteq> []" using assms(1) fin by (auto simp: ids_def mem_inv_def)
    then have tok: "encodePageToken x \<noteq> []" by (simp add: encodePageToken_Nil)
    have rest: "ids_after ?m x = drop ?n ids"
      by (rule ids_after_resume [OF fin]) (use split in \<open>simp add: ids_def\<close>)
    have "length (ids_after ?m x) < fuel" using Suc.prems(2) True n(1) by (simp add: rest flip: ids_def)
    from Suc.IH [OF page_token_roundtrip this] obtain pages where
      pages: "list_pages (NewUserServiceWithRepository (Some memory_ops) limits) E ctx k fuel (encodePageToken x) r = Some (Inr pages)"
        "concat pages = map (\<lambda>i. the (?m i)) (drop ?n ids)" "\<forall>p \<in> set pages. int (length p) \<le> page_size k"
      unfolding rest by blast
    have "map (\<lambda>i. the (?m i)) (take ?n ids) @ map (\<lambda>i. the (?m i)) (drop ?n ids) = map (\<lambda>i. the (?m i)) ids"
      by (simp flip: map_append)
    with step tok pages n(2) True show ?thesis by (simp add: pg ids_def [symmetric])
  qed
qed

text \<open>
  C28: paging is complete. A client that starts with the empty token and follows the returned
  tokens reaches the end after at most one page more than there are users, for every page size
  it may ask for, and has then received every stored user exactly once, in the order of the
  identifiers, in pages of at most the clamped size.
\<close>

theorem pagination_complete:
  assumes "mem_inv r" and "\<not> closed r" and "validateContext ctx = None" and "length (users r) < fuel"
  shows "\<exists>pages. list_pages (NewUserServiceWithRepository (Some memory_ops) limits) E ctx k fuel [] r = Some (Inr pages) \<and>
     concat pages = map (\<lambda>i. the (mem_abs r i)) (sorted_list_of_set (dom (mem_abs r))) \<and>
     (\<forall>p \<in> set pages. int (length p) \<le> page_size k) \<and> page_size k \<le> 1000"
proof -
  have "[] < i" if "i \<in> dom (mem_abs r)" for i
    using that assms(1) by (cases i) (auto simp: mem_inv_def)
  then have "{i \<in> dom (mem_abs r). [] < i} = dom (mem_abs r)" by blast
  then have ids: "ids_after (mem_abs r) [] = sorted_list_of_set (dom (mem_abs r))" by (simp add: ids_after_def)
  have "length (ids_after (mem_abs r) []) < fuel"
    using assms(1,4) unfolding ids length_sorted_list_of_set by (simp only: card_mem_abs)
  from list_pages_from [OF assms(1-3) _ this, of "[]" limits E k] show ?thesis
    unfolding ids using page_size_range(2) [of k] by (simp add: decodePageToken_def)
qed

section \<open>Errors and streams\<close>

definition client_code :: "code \<Rightarrow> bool" where
  "client_code c \<longleftrightarrow>
     c \<in> {InvalidArgument, NotFound, AlreadyExists, ResourceExhausted, Unavailable, Internal}"

definition presentable :: "go_error \<Rightarrow> bool" where
  "presentable err \<longleftrightarrow> (\<exists>a. err = AppErr a \<and> client_code (ae_Code a)) \<or>
     errors_Is err ctxCanceled \<or> errors_Is err ctxDeadlineExceeded"

lemma mapStorageError_presentable [simp]: "presentable (mapStorageError err)"
  by (simp add: mapStorageError_def presentable_def client_code_def err_simps WithReason_def mkAppError_def
      appErrNotFound_def appErrResourceExhausted_def appErrAlreadyExists_def appErrInvalidArgument_def
      appErrUnavailable_def)

lemma validation_presentable [simp]: "presentable id_required" "presentable request_required"
  "presentable (AppErr (appErrInvalidArgument m))" "presentable (AppErr (appErrInternal m))"
  "presentable (AppErr (WithField f d (WithReason r (appErrInvalidArgument m))))"
  by (simp_all add: id_required_def request_required_def presentable_def client_code_def WithField_def WithReason_def
      appErrInvalidArgument_def appErrInternal_def mkAppError_def)

lemma validateContext_presentable: "validateContext ctx = Some err \<Longrightarrow> presentable err"
  by (auto simp: validateContext_def ctx_Err_def split: option.splits done_cause.splits)
     (simp_all add: presentable_def err_simps)

lemma validateUserFields_presentable: "validateUserFields P n e a l = Inl err \<Longrightarrow> presentable err"
  "validateOptionalText v l f = Some err \<Longrightarrow> presentable err"
  by (auto simp: validateUserFields_def validateOptionalText_def split: if_splits option.splits sum.splits)

lemmas presentable_intros = validateContext_presentable validateUserFields_presentable

lemma handlers_presentable:
  "GetUser svc E ctx rq s = (Inl err, s') \<Longrightarrow> presentable err"
  "ListUsers svc E ctx lq s = (Inl err, s') \<Longrightarrow> presentable err"
  "CreateUser P svc E ctx cq s = (Inl err, s') \<Longrightarrow> presentable err"
  "UpdateUser P svc E ctx uq s = (Inl err, s') \<Longrightarrow> presentable err"
  "DeleteUser svc E ctx dq s = (Some err, s') \<Longrightarrow> presentable err"
      apply (auto simp: GetUser_def mapped_def split: option.splits if_splits sum.splits prod.splits dest: presentable_intros) [1]
     apply (auto simp: ListUsers_def split: option.splits sum.splits prod.splits dest: presentable_intros) [1]
    apply (auto simp: CreateUser_def Let_def split: option.splits sum.splits prod.splits dest: presentable_intros) [1]
   apply (auto simp: UpdateUser_def mapped_def split: option.splits if_splits sum.splits prod.splits dest: presentable_intros) [1]
  apply (auto simp: DeleteUser_def split: option.splits if_splits prod.splits dest: presentable_intros) [1]
  done

lemma drop_value_Inl: "drop_value p = (Some err, s') \<longleftrightarrow> p = (Inl err, s')"
  by (cases p) (auto simp: drop_value_def err_of_def split: sum.splits)

text \<open>
  C29: a unary method never leaks an internal error, whatever its repository does. Every error
  it returns is an application error with one of six gRPC codes, or the error of an ended
  context.
\<close>

theorem unary_errors_presentable:
  assumes "serve P svc (E, ctx, call) s = (Some err, s')"
  shows "presentable err"
  using assms by (cases call) (auto simp: drop_value_Inl dest: handlers_presentable)

lemma event_loop_events:
  "event_loop sel q i n = (r, evs) \<Longrightarrow> length evs \<le> n \<and>
     (\<forall>j < length evs. \<exists>now. sel (i + j) = Tick now None \<and> evs ! j = user_event q (i + j) now) \<and>
     (r = None \<longrightarrow> length evs = n)"
proof (induction n arbitrary: i r evs)
  case 0
  then show ?case by simp
next
  case (Suc n)
  show ?case
  proof (cases "\<exists>now. sel i = Tick now None")
    case False
    with Suc.prems show ?thesis by (auto split: select_outcome.splits option.splits)
  next
    case True
    then obtain now where now: "sel i = Tick now None" by blast
    with Suc.prems obtain evs' where evs: "event_loop sel q (Suc i) n = (r, evs')" "evs = user_event q i now # evs'"
      by (auto split: prod.splits)
    from Suc.IH [OF evs(1)] now show ?thesis
      by (auto simp: evs(2) nth_Cons split: nat.splits)
  qed
qed

text \<open>
  An event stream is bounded and complete: \<open>StreamUserEvents\<close> sends the events of its ticks in
  order, at most \<open>MaxStreamMessages\<close> of them, and all when it returns without an error.
\<close>

lemma event_stream_bounded:
  assumes "0 \<le> maxStreamMessages svc" and "StreamUserEvents svc E ctx sel (Some q) s = ((r, evs), s')"
  shows "int (length evs) \<le> maxStreamMessages svc \<and>
     (\<forall>i < length evs. \<exists>now. sel i = Tick now None \<and> evs ! i = user_event q i now) \<and>
     (r = None \<longrightarrow> int (length evs) = maxStreamMessages svc)"
proof (cases "event_loop sel q 0 (nat (maxStreamMessages svc)) = (r, evs)")
  case True
  from event_loop_events [OF True] assms(1) show ?thesis by auto
next
  case False
  with assms(2) have "r \<noteq> None" "evs = []"
    by (auto simp: StreamUserEvents_def split: option.splits if_splits sum.splits prod.splits) metis+
  with assms(1) show ?thesis by auto
qed

lemma int32_small [simp]: "0 \<le> x \<Longrightarrow> x < 2 ^ 31 \<Longrightarrow> int32 x = x"
  by (simp add: int32_def)

lemma metrics_loop_sum:
  assumes "0 \<le> maxStreamMessages svc" and "maxStreamMessages svc < 2 ^ 31"
    and "metrics_loop svc F recvs c acc = Some (Inr (count, total'))" and "0 \<le> c" and "c \<le> maxStreamMessages svc"
  shows "\<exists>ms eof rest. recvs = map (\<lambda>m. Inr (Some m)) ms @ Inl eof # rest \<and> errors_Is eof io_EOF \<and>
     count = c + int (length ms) \<and> count \<le> maxStreamMessages svc \<and>
     total' = foldl (f_add F) acc (map um_Value ms) \<and>
     (\<forall>m \<in> set ms. \<not> IsNaN F (um_Value m) \<and> \<not> IsInf F (um_Value m)) \<and> (ms \<noteq> [] \<longrightarrow> \<not> IsInf F total')"
  using assms(3-5)
proof (induction recvs arbitrary: c acc)
  case Nil
  then show ?case by simp
next
  case (Cons r recvs)
  show ?case
  proof (cases r)
    case (Inl err)
    with Cons.prems show ?thesis
      by (intro exI [of _ "[]"] exI [of _ err] exI [of _ recvs]) (auto simp: recv_done_def split: if_splits)
  next
    case (Inr mo)
    with Cons.prems(1) obtain m where m: "mo = Some m" by (auto split: option.splits)
    have lim: "int32 (maxStreamMessages svc) = maxStreamMessages svc" using assms(1,2) by simp
    from Cons.prems(1) have c: "c < maxStreamMessages svc"
      and fin: "\<not> IsNaN F (um_Value m)" "\<not> IsInf F (um_Value m)" "\<not> IsInf F (f_add F acc (um_Value m))"
      and rec: "metrics_loop svc F recvs (int32 (c + 1)) (f_add F acc (um_Value m)) = Some (Inr (count, total'))"
      by (auto simp: Inr m lim Let_def split: if_splits option.splits)
    have c1: "int32 (c + 1) = c + 1" using c Cons.prems(2) assms(2) by simp
    from Cons.IH [OF rec [unfolded c1]] c Cons.prems(2) obtain ms eof rest where
      "recvs = map (\<lambda>m. Inr (Some m)) ms @ Inl eof # rest" "errors_Is eof io_EOF" "count = c + 1 + int (length ms)"
      "count \<le> maxStreamMessages svc" "total' = foldl (f_add F) (f_add F acc (um_Value m)) (map um_Value ms)"
      "\<forall>m \<in> set ms. \<not> IsNaN F (um_Value m) \<and> \<not> IsInf F (um_Value m)" "ms \<noteq> [] \<longrightarrow> \<not> IsInf F total'"
      by auto
    with fin Inr m show ?thesis
      by (intro exI [of _ "m # ms"] exI [of _ eof] exI [of _ rest]) (cases ms; auto)
  qed
qed

text \<open>
  With a limit below $2^{31}$, the summary of a metrics stream is exact and comes only after the
  client closed its stream.
\<close>

lemma metrics_summary_exact:
  assumes "0 \<le> maxStreamMessages svc" and "maxStreamMessages svc < 2 ^ 31"
    and "CollectUserMetrics svc F recvs closeErr = Some (e, Some resp)"
  shows "\<exists>ms eof rest. recvs = map (\<lambda>m. Inr (Some m)) ms @ Inl eof # rest \<and> errors_Is eof io_EOF \<and>
     cm_Count resp = int (length ms) \<and> cm_Count resp \<le> maxStreamMessages svc \<and>
     cm_Sum resp = foldl (f_add F) (f_zero F) (map um_Value ms) \<and>
     cm_Avg resp = (if ms = [] then f_zero F else f_div F (cm_Sum resp) (f_of_int F (cm_Count resp))) \<and>
     (\<forall>m \<in> set ms. \<not> IsNaN F (um_Value m) \<and> \<not> IsInf F (um_Value m)) \<and> (ms \<noteq> [] \<longrightarrow> \<not> IsInf F (cm_Sum resp))"
proof -
  from assms(3) have loop: "metrics_loop svc F recvs 0 (f_zero F) = Some (Inr (cm_Count resp, cm_Sum resp))"
    and avg: "cm_Avg resp = (if cm_Count resp > 0 then f_div F (cm_Sum resp) (f_of_int F (cm_Count resp)) else f_zero F)"
    by (auto simp: CollectUserMetrics_def Let_def split: option.splits sum.splits prod.splits)
  from metrics_loop_sum [OF assms(1,2) loop] assms(1) obtain ms eof rest where
    "recvs = map (\<lambda>m. Inr (Some m)) ms @ Inl eof # rest \<and> errors_Is eof io_EOF \<and> cm_Count resp = int (length ms) \<and>
     cm_Count resp \<le> maxStreamMessages svc \<and> cm_Sum resp = foldl (f_add F) (f_zero F) (map um_Value ms) \<and>
     (\<forall>m \<in> set ms. \<not> IsNaN F (um_Value m) \<and> \<not> IsInf F (um_Value m)) \<and> (ms \<noteq> [] \<longrightarrow> \<not> IsInf F (cm_Sum resp))" by auto
  with avg show ?thesis by (intro exI [of _ ms] exI [of _ eof] exI [of _ rest]) auto
qed

section \<open>The properties at concrete inputs\<close>

definition limits1 :: ServiceLimits where
  "limits1 = \<lparr>MaxUsers = 2, MaxStreamMessages = 3, MaxStringBytes = 64, StreamInterval = 1\<rparr>"

text \<open>An address parser for the examples: an address is any text with an at sign.\<close>

definition ParseAddress1 :: "string \<Rightarrow> string option" where
  "ParseAddress1 v = (if Contains v ''@'' then Some v else None)"

definition create1 :: CreateUserRequest where
  "create1 = \<lparr>cr_Name = ''Ada'', cr_Email = ''ada@example.com'', cr_Age = 36, cr_IdempotencyKey = ''k1''\<rparr>"

definition env1 :: env where
  "env1 = env0\<lparr>rnd := Some (replicate 16 (CHR 0x0A)), clk := \<lambda>_. 5\<rparr>"

lemma not_blank_examples [simp]: "\<not> blank ''Ada''" "\<not> blank ''ada@example.com''" "\<not> blank ''k1''" "\<not> blank ''user-1''"
  "\<not> blank ''user-9''" "\<not> blank ''signup''"
  by code_simp+

lemma normalize_limits1 [simp]: "normalize_limits limits1 = limits1"
  by (simp add: normalize_limits_def limits1_def)

lemma limits1_fields [simp]: "MaxStringBytes limits1 = 64" "MaxUsers limits1 = 2" "MaxStreamMessages limits1 = 3"
  by (simp_all add: limits1_def)

lemma validate1 [simp]: "validateUserFields ParseAddress1 ''Ada'' ''ada@example.com'' 36 64 = Inr (''Ada'', ''ada@example.com'')"
  by code_simp

lemma Background_valid [simp]: "validateContext (Some Background) = None"
  by (simp add: validateContext_def ctx_Err_def Background_def)


lemma new_stack_create: "u_Id u \<noteq> [] \<Longrightarrow> key \<noteq> [] \<Longrightarrow>
  \<exists>s'. CreateWithIdempotency (stack_ops cfg1) E (Some Background) (Some u) 2 key (new_stack 5) = (Inr (u, False), s')"
  by (simp add: cache_ops_def on_inner_def circuit_breaker_ops_def cb_CreateWithIdempotency_def
      guarded_def beforeCall_def new_breaker_def new_stack_def NewCacheRepository_def NewCacheRepositoryWithLimit_def
      NewCircuitBreakerRepository_def memory_ops_def mem_CreateWithIdempotency_def NewMemoryRepository_def nil_or_no_id_def)

theorem create_user_stores_witness:
  "\<exists>u s'. CreateUser ParseAddress1 (stack_service cfg1 limits1) env1 (Some Background) (Some create1) (new_stack 5) = (Inr u, s') \<and>
     u_Name u = ''Ada'' \<and> stack_store s' = [u_Id u \<mapsto> u]"
proof -
  let ?u = "\<lparr>u_Id = ''user-'' @ hex_encode (replicate 16 (CHR 0x0A)), u_Name = ''Ada'', u_Email = ''ada@example.com'', u_Age = 36,
     u_CreatedAt = Some (timestamp_of 5), u_UpdatedAt = Some (timestamp_of 5)\<rparr>"
  obtain s0 where "CreateWithIdempotency (stack_ops cfg1) env1 (Some Background) (Some ?u) 2 ''k1'' (new_stack 5) = (Inr (?u, False), s0)"
    using new_stack_create [of ?u "''k1''" env1] by auto
  then obtain u s' where cr: "CreateUser ParseAddress1 (stack_service cfg1 limits1) env1 (Some Background) (Some create1) (new_stack 5) = (Inr u, s')"
    by (simp add: CreateUser_def create1_def validateOptionalText_def newID_def env1_def Let_def)
  have "TrimSpace ''Ada'' = ''Ada''" by code_simp
  with create_user_stores [OF new_stack_ok(1) cr] cr show ?thesis
    by (auto simp: new_stack_ok(2) created_user_def create1_def)
qed

theorem update_user_merges_witness:
  "\<exists>u s'. UpdateUser ParseAddress1 (NewUserServiceWithRepository (Some (circuit_breaker_ops cfg1 memory_ops)) limits1)
      env1 (Some Background) (Some \<lparr>ur_Id = ''user-1'', ur_Name = [], ur_Email = [], ur_Age = 40\<rparr>)
      (NewCircuitBreakerRepository store1) = (Inr u, s') \<and> u_Age u = 40 \<and> u_Name u = u_Name user1"
proof -
  let ?q = "\<lparr>ur_Id = ''user-1'', ur_Name = [], ur_Email = [], ur_Age = 40\<rparr>"
  obtain u s' where up: "UpdateUser ParseAddress1 (NewUserServiceWithRepository (Some (circuit_breaker_ops cfg1 memory_ops)) limits1)
      env1 (Some Background) (Some ?q) (NewCircuitBreakerRepository store1) = (Inr u, s')"
    by (simp add: UpdateUser_def validateOptionalText_def mapped_def circuit_breaker_ops_def cb_ReadModifyUpdate_def
        guarded_def beforeCall_def new_breaker_def NewCircuitBreakerRepository_def memory_ops_def mem_ReadModifyUpdate_def
        store1_def NewMemoryRepository_def)
  have "mem_inv (cb_inner (NewCircuitBreakerRepository store1))"
    by (simp add: NewCircuitBreakerRepository_def store1_def NewMemoryRepository_def mem_inv_def)
  from update_user_merges [OF this up] up show ?thesis
    by (auto simp: NewCircuitBreakerRepository_def store1_def NewMemoryRepository_def mem_abs_def)
qed

theorem pagination_complete_witness:
  "\<exists>pages. list_pages (NewUserServiceWithRepository (Some memory_ops) limits1) env0 (Some Background) 1 2 [] store1 = Some (Inr pages) \<and>
     concat pages = [user1]"
proof -
  have "mem_inv store1" "\<not> closed store1" "length (users store1) < 2"
    by (simp_all add: store1_def NewMemoryRepository_def mem_inv_def)
  moreover have "dom (mem_abs store1) = {''user-1''}" "mem_abs store1 ''user-1'' = Some user1"
    by (auto simp: store1_def NewMemoryRepository_def mem_abs_def split: if_splits)
  ultimately show ?thesis
    using pagination_complete [OF _ _ Background_valid, of store1 2 limits1 env0 1] by auto
qed

theorem unary_errors_presentable_witness:
  "presentable (mapStorageError ErrUnavailable)"
proof -
  have "serve ParseAddress1 (NewUserServiceWithRepository None limits1 :: unit UserService)
      (env0, Some Background, CallGet (Some \<lparr>gr_Id = ''user-1''\<rparr>)) () = (Some (mapStorageError ErrUnavailable), ())"
    by (simp add: GetUser_def drop_value_def)
  then show ?thesis by (rule unary_errors_presentable)
qed

definition signup1 :: StreamUserEventsRequest where
  "signup1 = \<lparr>sr_UserId = ''user-1'', sr_EventTypes = [''signup'']\<rparr>"

definition ints :: "int float64" where
  "ints = \<lparr>f_zero = 0, f_add = (+), f_div = (div), f_of_int = (\<lambda>x. x), f_print = show_int, IsNaN = (\<lambda>_. False), IsInf = (\<lambda>_. False)\<rparr>"

definition metric1 :: "int UserMetric" where
  "metric1 = \<lparr>um_UserId = ''user-1'', um_MetricName = ''signup'', um_Value = 4\<rparr>"

end
