(* ===== verification/Postgres_Retry.thy ===== *)
theory Postgres_Retry
  imports Storage
begin

text \<open>
  The retry machinery of \<open>internal/storage/postgres.go\<close>: the exponential backoff with jitter at
  the width of \<open>time.Duration\<close>, the classification of transient errors, the retry loop around
  every database operation and the start-up loop of \<open>NewPostgresRepository\<close>.

  What a retry observes of its surroundings is a \<open>retry_env\<close>: the state of the context when it is
  polled, which of timer and context ends a wait (given how long the wait is), and the draws of
  \<open>crypto/rand\<close>.
\<close>

section \<open>Configuration\<close>

definition defaultRetryAttempts :: int where "defaultRetryAttempts = 3"
definition defaultRetryBackoff :: int where "defaultRetryBackoff = 250 * millisecond"
definition defaultRetryMaxBackoff :: int where "defaultRetryMaxBackoff = 5 * second"

record PostgresConfig =
  pc_URL :: string
  pc_MaxOpenConns :: int
  pc_MaxIdleConns :: int
  pc_ConnMaxLifetime :: int
  pc_PingTimeout :: int
  pc_RetryAttempts :: int
  pc_RetryBackoff :: int
  pc_RetryMaxBackoff :: int

record retryConfig =
  maxAttempts :: int
  baseBackoff :: int
  maxBackoff :: int

text \<open>The retry settings the constructor stores and \<open>retryCfg\<close> hands to every operation.\<close>

definition retryCfg :: "PostgresConfig \<Rightarrow> retryConfig" where
  "retryCfg cfg =
     \<lparr>maxAttempts = (if pc_RetryAttempts cfg \<le> 0 then defaultRetryAttempts else pc_RetryAttempts cfg),
      baseBackoff = (if pc_RetryBackoff cfg \<le> 0 then defaultRetryBackoff else pc_RetryBackoff cfg),
      maxBackoff = (if pc_RetryMaxBackoff cfg \<le> 0 then defaultRetryMaxBackoff else pc_RetryMaxBackoff cfg)\<rparr>"

section \<open>Backoff\<close>

text \<open>
  \<open>base * (1 << attempt)\<close> is computed at \<open>int64\<close>; \<open>draw half\<close> is the result of \<open>rand.Int\<close> below
  \<open>half\<close>, \<open>None\<close> its failure.
\<close>

definition backoffDuration :: "(int \<Rightarrow> int option) \<Rightarrow> int \<Rightarrow> nat \<Rightarrow> int \<Rightarrow> int" where
  "backoffDuration draw base attempt cap =
     (let d = wrap64 (base * shl1 attempt);
          d = (if d > cap then cap else d);
          half = go_div d 2
      in if half \<le> 0 then d
         else case draw half of
                None \<Rightarrow> d
              | Some n \<Rightarrow> (let jitter = wrap64 (n - go_div d 4) in wrap64 (d + jitter)))"

definition draws_below :: "(int \<Rightarrow> int option) \<Rightarrow> bool" where
  "draws_below draw \<longleftrightarrow> (\<forall>b n. 0 < b \<longrightarrow> draw b = Some n \<longrightarrow> 0 \<le> n \<and> n < b)"

section \<open>Transient errors\<close>

definition retryable_codes :: "string list" where
  "retryable_codes =
     [''40001'', ''40P01'', ''55P03'', ''08000'', ''08001'', ''08003'', ''08004'', ''08006'',
      ''53300'', ''53400'', ''57P01'', ''57P02'', ''57P03'', ''58000'', ''58030'', ''XX000'']"

definition isRetryableError :: "go_error \<Rightarrow> bool" where
  "isRetryableError err \<longleftrightarrow>
     (if errors_Is err ctxCanceled \<or> errors_Is err ctxDeadlineExceeded then False
      else if errors_Is err io_EOF \<or> errors_Is err io_ErrUnexpectedEOF then True
      else case errors_As_PgError err of None \<Rightarrow> False | Some code \<Rightarrow> code \<in> set retryable_codes)"

definition isUniqueViolation :: "go_error \<Rightarrow> bool" where
  "isUniqueViolation err \<longleftrightarrow> errors_As_PgError err = Some ''23505''"

definition IsContextError :: "go_error \<Rightarrow> bool" where
  "IsContextError err \<longleftrightarrow> errors_Is err ctxCanceled \<or> errors_Is err ctxDeadlineExceeded"

section \<open>The retry loop\<close>

record retry_env =
  re_done :: "nat \<Rightarrow> done_cause option"
  re_wait :: "nat \<Rightarrow> int \<Rightarrow> done_cause option"
  re_draw :: "nat \<Rightarrow> int \<Rightarrow> int option"

definition cause_err :: "done_cause \<Rightarrow> go_error" where
  "cause_err c = (case c of Cancelled \<Rightarrow> ctxCanceled | Expired \<Rightarrow> ctxDeadlineExceeded)"

text \<open>The pause before attempt \<open>attempt > 0\<close>: the context's error if it ends the retrying.\<close>

definition retry_pause :: "retry_env \<Rightarrow> retryConfig \<Rightarrow> nat \<Rightarrow> go_error option" where
  "retry_pause V cfg attempt =
     (case re_done V attempt of
        Some c \<Rightarrow> Some (cause_err c)
      | None \<Rightarrow>
          map_option cause_err
            (re_wait V attempt (backoffDuration (re_draw V attempt) (baseBackoff cfg) (attempt - 1) (maxBackoff cfg))))"

text \<open>
  The loop from attempt \<open>attempt\<close> with \<open>n\<close> attempts left; \<open>prev\<close> is what the caller has if no
  attempt follows (the zero value of the result before the first one).
\<close>

fun retry_loop ::
  "retry_env \<Rightarrow> retryConfig \<Rightarrow> ('d \<Rightarrow> 'a result \<times> 'd) \<Rightarrow> nat \<Rightarrow> nat \<Rightarrow> 'a result \<Rightarrow> 'd \<Rightarrow> 'a result \<times> 'd" where
  "retry_loop V cfg op attempt 0 prev d = (prev, d)"
| "retry_loop V cfg op attempt (Suc n) prev d =
     (case (if attempt > 0 then retry_pause V cfg attempt else None) of
        Some err \<Rightarrow> (Inl err, d)
      | None \<Rightarrow>
          (case op d of
             (Inr v, d') \<Rightarrow> (Inr v, d')
           | (Inl err, d') \<Rightarrow>
               if isRetryableError err then retry_loop V cfg op (Suc attempt) n (Inl err) d'
               else (Inl err, d')))"

definition retryOperation ::
  "retry_env \<Rightarrow> retryConfig \<Rightarrow> 'a \<Rightarrow> ('d \<Rightarrow> 'a result \<times> 'd) \<Rightarrow> 'd \<Rightarrow> 'a result \<times> 'd" where
  "retryOperation V cfg zero op d = retry_loop V cfg op 0 (nat (maxAttempts cfg)) (Inr zero) d"

text \<open>
  The start-up loop: \<open>step\<close> is one \<open>migrateAndPing\<close> under its ping timeout; between attempts it
  waits \<open>(attempt + 1) * backoff\<close> or for the end of the caller's context. \<open>Inr ()\<close> is the opened
  repository.
\<close>

fun startup_loop ::
  "(nat \<Rightarrow> int \<Rightarrow> done_cause option) \<Rightarrow> int \<Rightarrow> ('d \<Rightarrow> go_error option \<times> 'd) \<Rightarrow> nat \<Rightarrow> nat \<Rightarrow> go_error option \<Rightarrow> 'd \<Rightarrow>
     unit result \<times> 'd" where
  "startup_loop sel backoff step attempt 0 lastErr d =
     (Inl (Wrapf ''initialize postgres: '' (case lastErr of None \<Rightarrow> ErrorString ''%!w(<nil>)'' | Some e \<Rightarrow> e)), d)"
| "startup_loop sel backoff step attempt (Suc n) lastErr d =
     (case step d of
        (None, d') \<Rightarrow> (Inr (), d')
      | (Some err, d') \<Rightarrow>
          if n > 0
          then (case sel attempt (wrap64 (int (attempt + 1) * backoff)) of
                  Some c \<Rightarrow> (Inl (cause_err c), d')
                | None \<Rightarrow> startup_loop sel backoff step (Suc attempt) n (Some err) d')
          else startup_loop sel backoff step (Suc attempt) n (Some err) d')"

text \<open>\<open>sql.Open\<close> may refuse the URL; the pool settings have no other effect here.\<close>

definition NewPostgresRepository where
  "NewPostgresRepository sqlOpen sel step cfg d =
     (case sqlOpen (pc_URL cfg) of
        Some err \<Rightarrow> (Inl (Wrapf ''open postgres: '' err), d)
      | None \<Rightarrow>
          (case startup_loop sel (baseBackoff (retryCfg cfg)) step 0 (nat (maxAttempts (retryCfg cfg))) None d of
             (Inl err, d') \<Rightarrow> (Inl err, d')
           | (Inr _, d') \<Rightarrow> (Inr (retryCfg cfg), d')))"

section \<open>Backoff bounds\<close>

lemma shl1_small:
  assumes "n < 63"
  shows "shl1 n = 2 ^ n"
proof -
  have lt: "(2::int) ^ n < 2 ^ 63" by (rule power_strict_increasing) (use assms in simp_all)
  have "- (2 ^ 63) \<le> (2::int) ^ n" by (rule order_trans [of _ 0]) simp_all
  with lt have "in_int64 (2 ^ n)" unfolding in_int64_def by blast
  with assms show ?thesis by (simp add: shl1_def)
qed

lemma go_div_bounds: "0 \<le> d \<Longrightarrow> go_div d 2 = d div 2" "0 \<le> d \<Longrightarrow> go_div d 4 = d div 4"
  by (simp_all add: go_div_pos)

text \<open>
  C30: as long as the doubled base fits an \<open>int64\<close>, the wait before a retry lies within a quarter
  of the capped exponential backoff: between three and five quarters of
  \<open>min (base * 2^attempt) cap\<close>. So it is positive for backoffs of at least two nanoseconds and
  exceeds the cap by at most a quarter.
\<close>

theorem backoff_within_quarter:
  assumes "0 < base" and "0 < cap" and "attempt < 63" and "base * 2 ^ attempt < 2 ^ 63" and "cap < 2 ^ 62"
    and "draws_below draw"
  shows "let d = min (base * 2 ^ attempt) cap; w = backoffDuration draw base attempt cap
    in d - d div 4 \<le> w \<and> w \<le> d + d div 4"
proof -
  define d where "d = min (base * 2 ^ attempt) cap"
  define w where "w = backoffDuration draw base attempt cap"
  have pos: "0 < base * 2 ^ attempt" using assms(1) by simp
  have "in_int64 (base * 2 ^ attempt)" using assms(4) pos unfolding in_int64_def by linarith
  then have "wrap64 (base * shl1 attempt) = base * 2 ^ attempt" using assms(3) by (simp add: shl1_small)
  then have d: "(if wrap64 (base * shl1 attempt) > cap then cap else wrap64 (base * shl1 attempt)) = d"
    by (simp add: d_def)
  have range: "0 < d" "d < 2 ^ 62" using pos assms(2,5) by (auto simp: d_def)
  note unfolded = backoffDuration_def [of draw base attempt cap, unfolded Let_def d, folded w_def]
  have halves: "go_div d 2 = d div 2" "go_div d 4 = d div 4" using range(1) by (simp_all add: go_div_bounds)
  have "d - d div 4 \<le> w \<and> w \<le> d + d div 4"
  proof (cases "0 < d div 2 \<and> draw (d div 2) \<noteq> None")
    case True
    then obtain n where n: "draw (d div 2) = Some n" by blast
    with True assms(6) have bn: "0 \<le> n" "n < d div 2" unfolding draws_below_def by blast+
    have q: "0 \<le> d div 4" "d div 4 \<le> d" "d div 2 \<le> d" using range(1) by linarith+
    have p: "(2::int) ^ 63 = 2 * 2 ^ 62" by simp
    have fit1: "in_int64 (n - d div 4)"
      unfolding in_int64_def p by (rule conjI) (use bn range q in linarith)+
    have fit2: "in_int64 (d + (n - d div 4))"
      unfolding in_int64_def p by (rule conjI) (use bn range q in linarith)+
    have "w = d + (n - d div 4)" using True n by (simp add: unfolded halves wrap64_id [OF fit1] wrap64_id [OF fit2])
    with bn show ?thesis by linarith
  next
    case False
    then have "w = d" by (auto simp: unfolded halves split: option.splits)
    with range show ?thesis by simp
  qed
  then show ?thesis by (simp add: Let_def d_def w_def)
qed

text \<open>
  The backoff overflows. With the default base of 250 ms the 37th retry computes a negative
  wait, whatever the cap and the random draws, so the loop retries without waiting.
\<close>

lemma backoff_overflows:
  "backoffDuration draw defaultRetryBackoff 36 defaultRetryMaxBackoff < 0"
  by (simp add: backoffDuration_def defaultRetryBackoff_def defaultRetryMaxBackoff_def shl1_def wrap64_def go_div_def Let_def)

section \<open>What a retried operation does\<close>

definition after_attempts :: "('d \<Rightarrow> 'a result \<times> 'd) \<Rightarrow> nat \<Rightarrow> 'd \<Rightarrow> 'd" where
  "after_attempts op k d = ((\<lambda>d. snd (op d)) ^^ k) d"

definition transient_at :: "('d \<Rightarrow> 'a result \<times> 'd) \<Rightarrow> nat \<Rightarrow> 'd \<Rightarrow> bool" where
  "transient_at op j d \<longleftrightarrow> (\<exists>err. fst (op (after_attempts op j d)) = Inl err \<and> isRetryableError err)"

lemma after_attempts_simps [simp]: "after_attempts op 0 d = d" "after_attempts op (Suc k) d = after_attempts op k (snd (op d))"
  by (simp_all add: after_attempts_def funpow_Suc_right del: funpow.simps)

lemma transient_at_Suc: "transient_at op (Suc j) d \<longleftrightarrow> transient_at op j (snd (op d))"
  by (simp add: transient_at_def)

lemma cause_err_cases: "cause_err c = ctxCanceled \<or> cause_err c = ctxDeadlineExceeded"
  by (cases c) (simp_all add: cause_err_def)

lemma retry_pause_ctx: "retry_pause V cfg a = Some err \<Longrightarrow> err = ctxCanceled \<or> err = ctxDeadlineExceeded"
  using cause_err_cases by (auto simp: retry_pause_def split: option.splits)

text \<open>How a retry loop ends after \<open>k\<close> calls of the operation.\<close>

definition retry_ends :: "('d \<Rightarrow> 'a result \<times> 'd) \<Rightarrow> nat \<Rightarrow> nat \<Rightarrow> 'd \<Rightarrow> 'a result \<Rightarrow> bool" where
  "retry_ends op n k d r \<longleftrightarrow>
     0 < k \<and> k \<le> n \<and> (\<forall>j < k - 1. transient_at op j d) \<and>
       r = fst (op (after_attempts op (k - 1) d)) \<and> (k < n \<longrightarrow> \<not> transient_at op (k - 1) d)
   \<or> k < n \<and> (\<forall>j < k. transient_at op j d) \<and> r \<in> {Inl ctxCanceled, Inl ctxDeadlineExceeded}"

lemma retry_ends_Suc:
  assumes "retry_ends op n k (snd (op d)) r" and "transient_at op 0 d"
  shows "retry_ends op (Suc n) (Suc k) d r"
proof -
  have all: "(\<forall>j < Suc m. transient_at op j d) \<longleftrightarrow> (\<forall>j < m. transient_at op j (snd (op d)))" for m
    using assms(2) by (auto simp: transient_at_Suc less_Suc_eq_0_disj)
  from assms(1) show ?thesis unfolding retry_ends_def
  proof
    assume "0 < k \<and> k \<le> n \<and> (\<forall>j < k - 1. transient_at op j (snd (op d))) \<and>
       r = fst (op (after_attempts op (k - 1) (snd (op d)))) \<and> (k < n \<longrightarrow> \<not> transient_at op (k - 1) (snd (op d)))"
    moreover from this obtain k' where "k = Suc k'" by (cases k) auto
    ultimately show "0 < Suc k \<and> Suc k \<le> Suc n \<and> (\<forall>j < Suc k - 1. transient_at op j d) \<and>
       r = fst (op (after_attempts op (Suc k - 1) d)) \<and> (Suc k < Suc n \<longrightarrow> \<not> transient_at op (Suc k - 1) d) \<or>
       Suc k < Suc n \<and> (\<forall>j < Suc k. transient_at op j d) \<and> r \<in> {Inl ctxCanceled, Inl ctxDeadlineExceeded}"
      using all [of k'] by (simp add: transient_at_Suc)
  next
    assume "k < n \<and> (\<forall>j < k. transient_at op j (snd (op d))) \<and> r \<in> {Inl ctxCanceled, Inl ctxDeadlineExceeded}"
    then show "0 < Suc k \<and> Suc k \<le> Suc n \<and> (\<forall>j < Suc k - 1. transient_at op j d) \<and>
       r = fst (op (after_attempts op (Suc k - 1) d)) \<and> (Suc k < Suc n \<longrightarrow> \<not> transient_at op (Suc k - 1) d) \<or>
       Suc k < Suc n \<and> (\<forall>j < Suc k. transient_at op j d) \<and> r \<in> {Inl ctxCanceled, Inl ctxDeadlineExceeded}"
      using all [of k] by simp
  qed
qed

lemma retry_loop_ends:
  "retry_loop V cfg op attempt (Suc n) prev d = (r, d') \<Longrightarrow>
     \<exists>k. d' = after_attempts op k d \<and> retry_ends op (Suc n) k d r \<and> (attempt = 0 \<longrightarrow> 0 < k)"
proof (induction n arbitrary: attempt prev d)
  case 0
  then show ?case
  proof (cases "if attempt > 0 then retry_pause V cfg attempt else None")
    case (Some err)
    with 0 retry_pause_ctx [of V cfg attempt err] show ?thesis
      by (intro exI [of _ 0]) (auto simp: retry_ends_def split: if_splits)
  next
    case None
    with 0 show ?thesis
      by (intro exI [of _ 1]) (auto simp: retry_ends_def split: sum.splits prod.splits if_splits)
  qed
next
  case (Suc n)
  show ?case
  proof (cases "if attempt > 0 then retry_pause V cfg attempt else None")
    case (Some err)
    with Suc.prems retry_pause_ctx [of V cfg attempt err] show ?thesis
      by (intro exI [of _ 0]) (auto simp: retry_ends_def split: if_splits)
  next
    case None
    obtain r0 d0 where op: "op d = (r0, d0)" by fastforce
    show ?thesis
    proof (cases "transient_at op 0 d")
      case False
      with None op Suc.prems have "r = r0" "d' = d0"
        by (auto simp: transient_at_def split: sum.splits if_splits)
      with False op show ?thesis by (intro exI [of _ 1]) (simp add: retry_ends_def)
    next
      case True
      then obtain err where "r0 = Inl err" "isRetryableError err" using op by (auto simp: transient_at_def)
      with Suc.prems None op have "retry_loop V cfg op (Suc attempt) (Suc n) (Inl err) d0 = (r, d')"
        by (simp split: if_splits)
      from Suc.IH [OF this] obtain k where "d' = after_attempts op k d0" "retry_ends op (Suc n) k d0 r" by blast
      with retry_ends_Suc [of op "Suc n" k d r] True op show ?thesis
        by (intro exI [of _ "Suc k"]) simp
    qed
  qed
qed

text \<open>
  C31: what a retried database operation does. With a positive attempt limit the operation runs
  at least once and at most that often; every attempt but the last one failed with a transient
  error; and the caller receives the result of the last attempt, which is final unless the limit
  is reached, or the context's error when the context ended between two attempts.
\<close>

theorem retry_operation_outcome:
  assumes "0 < maxAttempts cfg" and "retryOperation V cfg zero op d = (r, d')"
  shows "\<exists>k. 0 < k \<and> int k \<le> maxAttempts cfg \<and> d' = after_attempts op k d \<and>
     retry_ends op (nat (maxAttempts cfg)) k d r"
proof -
  from assms(1) obtain n where n: "nat (maxAttempts cfg) = Suc n" by (metis gr0_conv_Suc zero_less_nat_eq)
  from assms(2) retry_loop_ends [of V cfg op 0 n "Inr zero" d r d']
  obtain k where k: "d' = after_attempts op k d" "retry_ends op (Suc n) k d r" "0 < k"
    by (auto simp: retryOperation_def n)
  then have "k \<le> Suc n" by (auto simp: retry_ends_def)
  then have "int k \<le> maxAttempts cfg" using n by linarith
  with k n show ?thesis by auto
qed

lemma retryCfg_positive: "0 < maxAttempts (retryCfg cfg)" "0 < baseBackoff (retryCfg cfg)" "0 < maxBackoff (retryCfg cfg)"
  by (simp_all add: retryCfg_def defaultRetryAttempts_def defaultRetryBackoff_def defaultRetryMaxBackoff_def)

text \<open>The start-up loop gives up with the last error after the configured number of attempts.\<close>

lemma startup_succeeds:
  "startup_loop sel backoff step attempt n lastErr d = (Inr u, d') \<Longrightarrow>
     \<exists>k < n. d' = snd (step (((\<lambda>d. snd (step d)) ^^ k) d)) \<and> fst (step (((\<lambda>d. snd (step d)) ^^ k) d)) = None"
proof (induction n arbitrary: attempt lastErr d)
  case 0
  then show ?case by simp
next
  case (Suc n)
  show ?case
  proof (cases "step d")
    case (Pair e d1)
    show ?thesis
    proof (cases e)
      case None
      with Pair Suc.prems show ?thesis by (intro exI [of _ 0]) simp
    next
      case (Some err)
      with Pair Suc.prems have "startup_loop sel backoff step (Suc attempt) n (Some err) d1 = (Inr u, d')"
        by (auto split: if_splits option.splits)
      from Suc.IH [OF this] obtain k where "k < n" "d' = snd (step (((\<lambda>d. snd (step d)) ^^ k) d1))"
        "fst (step (((\<lambda>d. snd (step d)) ^^ k) d1)) = None" by blast
      with Pair show ?thesis by (intro exI [of _ "Suc k"]) (simp add: funpow_Suc_right del: funpow.simps)
    qed
  qed
qed

section \<open>The properties at concrete inputs\<close>

theorem backoff_within_quarter_witness:
  "backoffDuration (\<lambda>b. Some (b - 1)) (250 * millisecond) 2 (5 * second) \<le> 1250 * millisecond"
  using backoff_within_quarter [of "250 * millisecond" "5 * second" 2 "\<lambda>b. Some (b - 1)"]
  by (simp add: draws_below_def Let_def)

theorem retry_operation_outcome_witness:
  "\<exists>k. 0 < k \<and> int k \<le> 3 \<and>
     snd (retryOperation \<lparr>re_done = \<lambda>_. None, re_wait = \<lambda>_ _. None, re_draw = \<lambda>_ _. None\<rparr>
       \<lparr>maxAttempts = 3, baseBackoff = 1, maxBackoff = 1\<rparr> () (\<lambda>n. (if n < 2 then Inl io_EOF else Inr (), Suc n)) 0) =
     after_attempts (\<lambda>n. (if n < 2 then Inl io_EOF else Inr (), Suc n)) k 0"
  using retry_operation_outcome [of "\<lparr>maxAttempts = 3, baseBackoff = 1, maxBackoff = 1\<rparr>"
    "\<lparr>re_done = \<lambda>_. None, re_wait = \<lambda>_ _. None, re_draw = \<lambda>_ _. None\<rparr>" "()"
    "\<lambda>n. (if n < 2 then Inl io_EOF else Inr (), Suc n)" 0, OF _ prod.collapse [symmetric]]
  by auto

end
