(* ===== verification/Postgres_Migrations.thy ===== *)
theory Postgres_Migrations
  imports Postgres_Retry
begin

text \<open>
  Schema migrations of \<open>internal/storage/postgres.go\<close>: the versions of the embedded files, the
  pending and the reversible migrations, the chain check, the start-up transaction
  \<open>migrateAndPing\<close> and the explicit rollback \<open>ApplyDownMigrations\<close>.

  The database is not part of the program: a \<open>MigDB\<close> is what the statements the code sends do to
  a database state and what they return. The embedded directory is given by its entries in the
  order of \<open>ReadDir\<close> and by the contents of its files. Transactions follow the code: every return
  after \<open>BeginTx\<close> runs the deferred \<open>Rollback\<close>.
\<close>

record 'd TxDB =
  db_Begin :: "'d \<Rightarrow> go_error option \<times> 'd"
  db_Lock :: "'d \<Rightarrow> go_error option \<times> 'd"
  db_Commit :: "'d \<Rightarrow> go_error option \<times> 'd"
  db_Rollback :: "'d \<Rightarrow> 'd"

text \<open>A query gives its rows one \<open>Scan\<close> at a time and the error \<open>rows.Err\<close> reports after them.\<close>

type_synonym 'row rows = "'row result list \<times> go_error option"

record 'd MigDB = "'d TxDB" +
  db_Ping :: "'d \<Rightarrow> go_error option \<times> 'd"
  db_CreateVersions :: "'d \<Rightarrow> go_error option \<times> 'd"
  db_SelectVersions :: "'d \<Rightarrow> (int rows) result \<times> 'd"
  db_ExecScript :: "string \<Rightarrow> 'd \<Rightarrow> go_error option \<times> 'd"
  db_InsertVersion :: "int \<Rightarrow> 'd \<Rightarrow> go_error option \<times> 'd"
  db_DeleteVersion :: "int \<Rightarrow> 'd \<Rightarrow> go_error option \<times> 'd"

text \<open>The embedded file system: \<open>ReadDir\<close> of the directory and \<open>ReadFile\<close> by name.\<close>

record dir_entry =
  de_Name :: string
  de_IsDir :: bool

record embed_fs =
  fs_ReadDir :: "dir_entry list result"
  fs_ReadFile :: "string \<Rightarrow> string result"

record migrationRecord =
  m_name :: string
  m_version :: int

section \<open>Running statements\<close>

text \<open>
  \<open>sbind\<close> runs a step and stops at its error; \<open>check\<close> turns an error-only step into one with a
  wrapped error; \<open>in_tx\<close> is \<open>BeginTx\<close>, the body and the deferred \<open>Rollback\<close>.
\<close>

definition sbind :: "('d \<Rightarrow> 'a result \<times> 'd) \<Rightarrow> ('a \<Rightarrow> 'd \<Rightarrow> 'b result \<times> 'd) \<Rightarrow> 'd \<Rightarrow> 'b result \<times> 'd" where
  "sbind m f d = (case m d of (Inl err, d') \<Rightarrow> (Inl err, d') | (Inr v, d') \<Rightarrow> f v d')"

definition ret :: "'a \<Rightarrow> 'd \<Rightarrow> 'a result \<times> 'd" where
  "ret v d = (Inr v, d)"

definition fail :: "go_error \<Rightarrow> 'd \<Rightarrow> 'a result \<times> 'd" where
  "fail err d = (Inl err, d)"

definition check :: "(go_error \<Rightarrow> go_error) \<Rightarrow> ('d \<Rightarrow> go_error option \<times> 'd) \<Rightarrow> 'd \<Rightarrow> unit result \<times> 'd" where
  "check wrap m d = (case m d of (Some err, d') \<Rightarrow> (Inl (wrap err), d') | (None, d') \<Rightarrow> (Inr (), d'))"

definition query :: "(go_error \<Rightarrow> go_error) \<Rightarrow> ('d \<Rightarrow> 'a result \<times> 'd) \<Rightarrow> 'd \<Rightarrow> 'a result \<times> 'd" where
  "query wrap m d = (case m d of (Inl err, d') \<Rightarrow> (Inl (wrap err), d') | (Inr v, d') \<Rightarrow> (Inr v, d'))"

definition in_tx ::
  "('d, 'z) TxDB_scheme \<Rightarrow> (go_error \<Rightarrow> go_error) \<Rightarrow> ('d \<Rightarrow> 'a result \<times> 'd) \<Rightarrow> 'd \<Rightarrow> 'a result \<times> 'd" where
  "in_tx D wrap body d =
     (case db_Begin D d of
        (Some err, d1) \<Rightarrow> (Inl (wrap err), d1)
      | (None, d1) \<Rightarrow> (case body d1 of (r, d2) \<Rightarrow> (r, db_Rollback D d2)))"

section \<open>Versions\<close>

text \<open>The error of \<open>strconv.ParseInt\<close> on a text it refuses.\<close>

definition ParseInt_error :: "string \<Rightarrow> go_error" where
  "ParseInt_error s =
     (let ds = (if HasPrefix s ''-'' \<or> HasPrefix s ''+'' then tl s else s)
      in ErrorString (''strconv.ParseInt: parsing '' @ quote s @
           (if ds \<noteq> [] \<and> digits_val 0 ds \<noteq> None then '': value out of range'' else '': invalid syntax'')))"

definition parseMigrationVersion :: "string \<Rightarrow> int result" where
  "parseMigrationVersion name =
     (case (if HasSuffix name ''.down.sql'' then Some (TrimSuffix name ''.down.sql'')
            else if HasSuffix name ''.sql'' then Some (TrimSuffix name ''.sql'') else None) of
        None \<Rightarrow> Inl (ErrorString (''migration '' @ quote name @ '' has an unrecognized extension''))
      | Some base \<Rightarrow>
          (case IndexByte CHR ''_'' base of
             None \<Rightarrow> Inl (ErrorString (''migration '' @ quote name @ '' is missing a numeric version prefix''))
           | Some idx \<Rightarrow>
               if idx = 0 then Inl (ErrorString (''migration '' @ quote name @ '' is missing a numeric version prefix''))
               else case ParseInt (take idx base) of
                      None \<Rightarrow> Inl (Wrapf (''migration '' @ quote name @ '' has an invalid version prefix: '')
                               (ParseInt_error (take idx base)))
                    | Some version \<Rightarrow> Inr version))"

definition is_up :: "dir_entry \<Rightarrow> bool" where
  "is_up e \<longleftrightarrow> \<not> de_IsDir e \<and> HasSuffix (de_Name e) ''.sql'' \<and> \<not> HasSuffix (de_Name e) ''.down.sql''"

definition is_down :: "dir_entry \<Rightarrow> bool" where
  "is_down e \<longleftrightarrow> \<not> de_IsDir e \<and> HasSuffix (de_Name e) ''.down.sql''"

text \<open>The loop over the directory: the selected entries with their versions, or the first error.\<close>

fun versioned :: "(dir_entry \<Rightarrow> bool) \<Rightarrow> dir_entry list \<Rightarrow> migrationRecord list result" where
  "versioned sel [] = Inr []"
| "versioned sel (e # es) =
     (if \<not> sel e then versioned sel es
      else case parseMigrationVersion (de_Name e) of
             Inl err \<Rightarrow> Inl err
           | Inr v \<Rightarrow>
               (case versioned sel es of
                  Inl err \<Rightarrow> Inl err
                | Inr ms \<Rightarrow> Inr (\<lparr>m_name = de_Name e, m_version = v\<rparr> # ms)))"

definition read_versions ::
  "embed_fs \<Rightarrow> (dir_entry \<Rightarrow> bool) \<Rightarrow> migrationRecord list result" where
  "read_versions fs sel =
     (case fs_ReadDir fs of
        Inl err \<Rightarrow> Inl (Wrapf ''read migrations: '' err)
      | Inr entries \<Rightarrow> versioned sel entries)"

fun scan_versions :: "int result list \<Rightarrow> int list result" where
  "scan_versions [] = Inr []"
| "scan_versions (Inl err # rs) = Inl (Wrapf ''scan schema_migrations: '' err)"
| "scan_versions (Inr v # rs) =
     (case scan_versions rs of Inl err \<Rightarrow> Inl err | Inr vs \<Rightarrow> Inr (v # vs))"

text \<open>The applied versions, as the keys of the map the code builds.\<close>

definition loadAppliedVersions :: "('d, 'z) MigDB_scheme \<Rightarrow> 'd \<Rightarrow> int list result \<times> 'd" where
  "loadAppliedVersions D =
     sbind (query (Wrapf ''read schema_migrations: '') (db_SelectVersions D)) (\<lambda>(rs, rowsErr).
       case scan_versions rs of
         Inl err \<Rightarrow> fail err
       | Inr vs \<Rightarrow>
           (case rowsErr of
              Some err \<Rightarrow> fail (Wrapf ''iterate schema_migrations: '' err)
            | None \<Rightarrow> ret (remdups vs)))"

definition pendingMigrations :: "embed_fs \<Rightarrow> ('d, 'z) MigDB_scheme \<Rightarrow> 'd \<Rightarrow> migrationRecord list result \<times> 'd" where
  "pendingMigrations fs D =
     (case read_versions fs is_up of
        Inl err \<Rightarrow> fail err
      | Inr ms \<Rightarrow>
          sbind (loadAppliedVersions D) (\<lambda>applied.
            ret (filter (\<lambda>m. m_version m \<notin> set applied) (sort_key m_version ms))))"

text \<open>A later entry with the same version replaces an earlier one in the map of down files.\<close>

definition down_by_version :: "migrationRecord list \<Rightarrow> int \<Rightarrow> string option" where
  "down_by_version ms v = map_of (rev (map (\<lambda>m. (m_version m, m_name m)) ms)) v"

definition range_ints :: "(int list \<Rightarrow> int list) \<Rightarrow> int list \<Rightarrow> int list" where
  "range_ints ord ks = (if distinct (ord ks) \<and> set (ord ks) = set ks then ord ks else ks)"

definition pendingDownMigrations ::
  "embed_fs \<Rightarrow> (int list \<Rightarrow> int list) \<Rightarrow> ('d, 'z) MigDB_scheme \<Rightarrow> 'd \<Rightarrow> migrationRecord list result \<times> 'd" where
  "pendingDownMigrations fs ord D =
     (case read_versions fs is_down of
        Inl err \<Rightarrow> fail err
      | Inr ms \<Rightarrow>
          if ms = [] then ret []
          else
            sbind (loadAppliedVersions D) (\<lambda>applied.
              ret (sort_key (\<lambda>m. - m_version m)
                (List.map_filter (\<lambda>v. map_option (\<lambda>name. \<lparr>m_name = name, m_version = v\<rparr>) (down_by_version ms v))
                  (range_ints ord applied)))))"

text \<open>
  The search for the first missing version from \<open>expected\<close> on; every step finds another of the
  finitely many versions, so \<open>length vs\<close> steps are enough.
\<close>

fun next_missing :: "int list \<Rightarrow> nat \<Rightarrow> int \<Rightarrow> int" where
  "next_missing vs 0 expected = expected"
| "next_missing vs (Suc n) expected =
     (if expected \<in> set vs then next_missing vs n (expected + 1) else expected)"

text \<open>The check that every applied version still exists, in the order of the map range.\<close>

definition check_applied :: "(int list \<Rightarrow> int list) \<Rightarrow> int list \<Rightarrow> int list \<Rightarrow> 'd \<Rightarrow> unit result \<times> 'd" where
  "check_applied ord upVersions applied =
     (case find (\<lambda>v. v \<notin> set upVersions) (range_ints ord applied) of
        Some v \<Rightarrow> fail (ErrorString (''applied migration version '' @ show_int v @ '' not found in embedded migrations''))
      | None \<Rightarrow> ret ())"

definition verifyMigrations ::
  "embed_fs \<Rightarrow> (int list \<Rightarrow> int list) \<Rightarrow> ('d, 'z) MigDB_scheme \<Rightarrow> 'd \<Rightarrow> unit result \<times> 'd" where
  "verifyMigrations fs ord D =
     (case read_versions fs is_up of
        Inl err \<Rightarrow> fail err
      | Inr ms \<Rightarrow>
          (let upVersions = map m_version ms;
               expected = next_missing upVersions (length upVersions) 1
           in if expected = 1 \<and> length upVersions > 0
              then fail (ErrorString ''migration chain does not start at version 1'')
              else
                sbind (loadAppliedVersions D) (check_applied ord upVersions)))"

section \<open>Applying and rolling back\<close>

definition mig_file :: "embed_fs \<Rightarrow> migrationRecord \<Rightarrow> string result" where
  "mig_file fs m = fs_ReadFile fs (''migrations/'' @ m_name m)"

fun apply_migrations :: "embed_fs \<Rightarrow> ('d, 'z) MigDB_scheme \<Rightarrow> migrationRecord list \<Rightarrow> 'd \<Rightarrow> unit result \<times> 'd" where
  "apply_migrations fs D [] = ret ()"
| "apply_migrations fs D (m # ms) =
     (case mig_file fs m of
        Inl err \<Rightarrow> fail (Wrapf (''read migration '' @ m_name m @ '': '') err)
      | Inr body \<Rightarrow>
          sbind (check (Wrapf (''apply migration '' @ m_name m @ '': '')) (db_ExecScript D body)) (\<lambda>_.
          sbind (check (Wrapf (''record migration '' @ show_int (m_version m) @ '': '')) (db_InsertVersion D (m_version m))) (\<lambda>_.
          apply_migrations fs D ms)))"

definition migrateAndPing ::
  "embed_fs \<Rightarrow> (int list \<Rightarrow> int list) \<Rightarrow> ('d, 'z) MigDB_scheme \<Rightarrow> 'd \<Rightarrow> unit result \<times> 'd" where
  "migrateAndPing fs ord D =
     sbind (check (\<lambda>e. e) (db_Ping D)) (\<lambda>_.
     in_tx D (\<lambda>e. e)
       (sbind (check (\<lambda>e. e) (db_Lock D)) (\<lambda>_.
        sbind (check (\<lambda>e. e) (db_CreateVersions D)) (\<lambda>_.
        sbind (pendingMigrations fs D) (\<lambda>pending.
        sbind (verifyMigrations fs ord D) (\<lambda>_.
        sbind (apply_migrations fs D pending) (\<lambda>_.
        check (\<lambda>e. e) (db_Commit D))))))))"

text \<open>The rollback loop: the number of migrations rolled back and the error that ended it.\<close>

fun roll_back ::
  "embed_fs \<Rightarrow> ('d, 'z) MigDB_scheme \<Rightarrow> int \<Rightarrow> migrationRecord list \<Rightarrow> int \<Rightarrow> 'd \<Rightarrow> (int \<times> go_error option) \<times> 'd" where
  "roll_back fs D count [] applied d = ((applied, None), d)"
| "roll_back fs D count (m # ms) applied d =
     (if applied \<ge> count then ((applied, None), d)
      else
        (case mig_file fs m of
           Inl err \<Rightarrow> ((applied, Some (Wrapf (''read down migration '' @ m_name m @ '': '') err)), d)
         | Inr body \<Rightarrow>
             (case db_ExecScript D body d of
                (Some err, d1) \<Rightarrow> ((applied, Some (Wrapf (''apply down migration '' @ m_name m @ '': '') err)), d1)
              | (None, d1) \<Rightarrow>
                  (case db_DeleteVersion D (m_version m) d1 of
                     (Some err, d2) \<Rightarrow>
                       ((applied, Some (Wrapf (''unrecord migration '' @ show_int (m_version m) @ '': '') err)), d2)
                   | (None, d2) \<Rightarrow> roll_back fs D count ms (applied + 1) d2))))"

definition ApplyDownMigrations ::
  "embed_fs \<Rightarrow> (int list \<Rightarrow> int list) \<Rightarrow> ('d, 'z) MigDB_scheme \<Rightarrow> int \<Rightarrow> 'd \<Rightarrow> (int \<times> go_error option) \<times> 'd" where
  "ApplyDownMigrations fs ord D count d =
     (case db_Begin D d of
        (Some err, d1) \<Rightarrow> ((0, Some err), d1)
      | (None, d1) \<Rightarrow>
          (case db_Lock D d1 of
             (Some err, d2) \<Rightarrow> ((0, Some err), db_Rollback D d2)
           | (None, d2) \<Rightarrow>
               (case pendingDownMigrations fs ord D d2 of
                  (Inl err, d3) \<Rightarrow> ((0, Some err), db_Rollback D d3)
                | (Inr down, d3) \<Rightarrow>
                    (case roll_back fs D count down 0 d3 of
                       ((applied, Some err), d4) \<Rightarrow> ((applied, Some err), db_Rollback D d4)
                     | ((applied, None), d4) \<Rightarrow>
                         if applied = 0 then ((0, None), db_Rollback D d4)
                         else (case db_Commit D d4 of (r, d5) \<Rightarrow> ((applied, r), db_Rollback D d5))))))"

section \<open>What the statements do\<close>

text \<open>
  What the code relies on of the database: the committed state, the state a transaction sees, and
  the documented effect of every statement the migrations send. \<open>versions = None\<close> is a missing
  table \<open>schema_migrations\<close>; \<open>drops\<close> tells which scripts drop it.
\<close>

record mig_state =
  versions :: "int list option"
  scripts :: "string list"

definition run_script :: "(string \<Rightarrow> bool) \<Rightarrow> string \<Rightarrow> mig_state \<Rightarrow> mig_state" where
  "run_script drops body s =
     s\<lparr>scripts := scripts s @ [body], versions := (if drops body then None else versions s)\<rparr>"

definition mig_laws ::
  "(string \<Rightarrow> bool) \<Rightarrow> ('d, 'z) MigDB_scheme \<Rightarrow> ('d \<Rightarrow> mig_state) \<Rightarrow> ('d \<Rightarrow> mig_state) \<Rightarrow> bool" where
  "mig_laws drops D com wrk \<longleftrightarrow>
     (\<forall>d r d'. db_Ping D d = (r, d') \<longrightarrow> com d' = com d) \<and>
     (\<forall>d r d'. db_Begin D d = (r, d') \<longrightarrow> com d' = com d \<and> (r = None \<longrightarrow> wrk d' = com d)) \<and>
     (\<forall>d r d'. db_Lock D d = (r, d') \<longrightarrow> com d' = com d \<and> (r = None \<longrightarrow> wrk d' = wrk d)) \<and>
     (\<forall>d r d'. db_CreateVersions D d = (r, d') \<longrightarrow> com d' = com d \<and>
        (r = None \<longrightarrow> wrk d' = (wrk d)\<lparr>versions := Some (case versions (wrk d) of None \<Rightarrow> [] | Some vs \<Rightarrow> vs)\<rparr>)) \<and>
     (\<forall>d r d'. db_SelectVersions D d = (r, d') \<longrightarrow> com d' = com d \<and>
        (\<forall>rs. r = Inr (rs, None) \<longrightarrow> wrk d' = wrk d \<and>
           (\<forall>vs. scan_versions rs = Inr vs \<longrightarrow> versions (wrk d) \<noteq> None \<and> set vs = set (the (versions (wrk d)))))) \<and>
     (\<forall>body d r d'. db_ExecScript D body d = (r, d') \<longrightarrow> com d' = com d \<and>
        (r = None \<longrightarrow> wrk d' = run_script drops body (wrk d))) \<and>
     (\<forall>v d r d'. db_InsertVersion D v d = (r, d') \<longrightarrow> com d' = com d \<and>
        (r = None \<longrightarrow> (\<exists>vs. versions (wrk d) = Some vs \<and> wrk d' = (wrk d)\<lparr>versions := Some (v # vs)\<rparr>))) \<and>
     (\<forall>v d r d'. db_DeleteVersion D v d = (r, d') \<longrightarrow> com d' = com d \<and>
        (r = None \<longrightarrow> (\<exists>vs. versions (wrk d) = Some vs \<and> wrk d' = (wrk d)\<lparr>versions := Some (removeAll v vs)\<rparr>))) \<and>
     (\<forall>d r d'. db_Commit D d = (r, d') \<longrightarrow> com d' = (if r = None then wrk d else com d)) \<and>
     (\<forall>d. com (db_Rollback D d) = com d)"

lemma mig_lawsD:
  assumes "mig_laws drops D com wrk"
  shows "db_Ping D d = (r, d') \<Longrightarrow> com d' = com d"
    and "db_Begin D d = (r, d') \<Longrightarrow> com d' = com d \<and> (r = None \<longrightarrow> wrk d' = com d)"
    and "db_Lock D d = (r, d') \<Longrightarrow> com d' = com d \<and> (r = None \<longrightarrow> wrk d' = wrk d)"
    and "db_CreateVersions D d = (r, d') \<Longrightarrow> com d' = com d \<and>
        (r = None \<longrightarrow> wrk d' = (wrk d)\<lparr>versions := Some (case versions (wrk d) of None \<Rightarrow> [] | Some vs \<Rightarrow> vs)\<rparr>)"
    and "db_SelectVersions D d = (rv, d') \<Longrightarrow> com d' = com d"
    and "db_SelectVersions D d = (Inr (rs, None), d') \<Longrightarrow> scan_versions rs = Inr vs \<Longrightarrow>
        wrk d' = wrk d \<and> versions (wrk d) \<noteq> None \<and> set vs = set (the (versions (wrk d)))"
    and "db_ExecScript D body d = (r, d') \<Longrightarrow> com d' = com d \<and> (r = None \<longrightarrow> wrk d' = run_script drops body (wrk d))"
    and "db_InsertVersion D v d = (r, d') \<Longrightarrow> com d' = com d \<and>
        (r = None \<longrightarrow> (\<exists>vs. versions (wrk d) = Some vs \<and> wrk d' = (wrk d)\<lparr>versions := Some (v # vs)\<rparr>))"
    and "db_DeleteVersion D v d = (r, d') \<Longrightarrow> com d' = com d \<and>
        (r = None \<longrightarrow> (\<exists>vs. versions (wrk d) = Some vs \<and> wrk d' = (wrk d)\<lparr>versions := Some (removeAll v vs)\<rparr>))"
    and "db_Commit D d = (r, d') \<Longrightarrow> com d' = (if r = None then wrk d else com d)"
    and "com (db_Rollback D d) = com d"
  using assms unfolding mig_laws_def by metis+

text \<open>Case rules for composed steps.\<close>

lemma sbindE:
  assumes "sbind m f d = (r, d')"
  obtains (error) err where "m d = (Inl err, d')" "r = Inl err"
  | (ok) v d1 where "m d = (Inr v, d1)" "f v d1 = (r, d')"
  using assms by (auto simp: sbind_def split: prod.splits sum.splits)

lemma checkE:
  assumes "check w m d = (r, d')"
  obtains (error) err where "m d = (Some err, d')" "r = Inl (w err)"
  | (ok) "m d = (None, d')" "r = Inr ()"
  using assms by (auto simp: check_def split: prod.splits option.splits)

lemma queryE:
  assumes "query w m d = (r, d')"
  obtains (error) err where "m d = (Inl err, d')" "r = Inl (w err)"
  | (ok) v where "m d = (Inr v, d')" "r = Inr v"
  using assms by (auto simp: query_def split: prod.splits sum.splits)

lemma in_txE:
  assumes "in_tx D w body d = (r, d')"
  obtains (no_tx) err where "db_Begin D d = (Some err, d')" "r = Inl (w err)"
  | (body) d1 d2 where "db_Begin D d = (None, d1)" "body d1 = (r, d2)" "d' = db_Rollback D d2"
  using assms by (auto simp: in_tx_def split: prod.splits option.splits)

lemma ret_fail [simp]: "ret v d = (r, d') \<longleftrightarrow> r = Inr v \<and> d' = d" "fail err d = (r, d') \<longleftrightarrow> r = Inl err \<and> d' = d"
  by (auto simp: ret_def fail_def)

lemma loadAppliedVersions_effect:
  assumes "mig_laws drops D com wrk" and "loadAppliedVersions D d = (r, d')"
  shows "com d' = com d \<and> (\<forall>vs. r = Inr vs \<longrightarrow> wrk d' = wrk d \<and> versions (wrk d) \<noteq> None \<and> set vs = set (the (versions (wrk d))))"
  using assms(2) unfolding loadAppliedVersions_def
proof (cases rule: sbindE)
  case (error err)
  then show ?thesis using mig_lawsD(5) [OF assms(1)] by (auto elim: queryE)
next
  case (ok p d1)
  then have sel: "db_SelectVersions D d = (Inr p, d1)" by (auto elim: queryE)
  obtain rs rowsErr where p: "p = (rs, rowsErr)" by fastforce
  have "com d1 = com d" by (rule mig_lawsD(5) [OF assms(1) sel])
  moreover have "d' = d1" using ok(2) by (auto simp: p split: sum.splits option.splits)
  moreover have "\<exists>us. rowsErr = None \<and> scan_versions rs = Inr us \<and> vs = remdups us" if "r = Inr vs" for vs
    using ok(2) that by (auto simp: p split: sum.splits option.splits)
  ultimately show ?thesis using mig_lawsD(6) [OF assms(1)] sel p by (metis set_remdups)
qed

lemma pendingMigrations_effect:
  assumes "mig_laws drops D com wrk" and "pendingMigrations fs D d = (r, d')"
  shows "com d' = com d \<and> (\<forall>p. r = Inr p \<longrightarrow> (\<exists>ms vs. read_versions fs is_up = Inr ms \<and> versions (wrk d) = Some vs \<and>
     wrk d' = wrk d \<and> p = filter (\<lambda>m. m_version m \<notin> set vs) (sort_key m_version ms)))"
proof (cases "read_versions fs is_up")
  case (Inl err)
  with assms(2) show ?thesis by (simp add: pendingMigrations_def)
next
  case (Inr ms)
  from assms(2) have "sbind (loadAppliedVersions D)
      (\<lambda>applied. ret (filter (\<lambda>m. m_version m \<notin> set applied) (sort_key m_version ms))) d = (r, d')"
    by (simp add: pendingMigrations_def Inr)
  then show ?thesis
  proof (cases rule: sbindE)
    case (error err)
    with loadAppliedVersions_effect [OF assms(1) error(1)] show ?thesis by simp
  next
    case (ok us d1)
    from loadAppliedVersions_effect [OF assms(1) ok(1)] ok(2) Inr show ?thesis by auto
  qed
qed

lemma verifyMigrations_effect:
  assumes "mig_laws drops D com wrk" and "verifyMigrations fs ord D d = (r, d')"
  shows "com d' = com d \<and> (r = Inr () \<longrightarrow> wrk d' = wrk d)"
proof (cases "read_versions fs is_up")
  case (Inl err)
  with assms(2) show ?thesis by (simp add: verifyMigrations_def)
next
  case (Inr ms)
  show ?thesis
  proof (cases "next_missing (map m_version ms) (length ms) 1 = 1 \<and> ms \<noteq> []")
    case True
    with assms(2) Inr show ?thesis by (simp add: verifyMigrations_def)
  next
    case False
    with assms(2) Inr have "sbind (loadAppliedVersions D) (check_applied ord (map m_version ms)) d = (r, d')"
      by (auto simp: verifyMigrations_def Let_def)
    then show ?thesis
    proof (cases rule: sbindE)
      case (error err)
      with loadAppliedVersions_effect [OF assms(1) error(1)] show ?thesis by simp
    next
      case (ok us d1)
      from ok(2) have "d' = d1" by (simp add: check_applied_def split: option.splits)
      with loadAppliedVersions_effect [OF assms(1) ok(1)] show ?thesis by simp
    qed
  qed
qed

definition files_keep :: "(string \<Rightarrow> bool) \<Rightarrow> embed_fs \<Rightarrow> migrationRecord list \<Rightarrow> bool" where
  "files_keep drops fs ms \<longleftrightarrow> (\<forall>m \<in> set ms. \<forall>body. mig_file fs m = Inr body \<longrightarrow> \<not> drops body)"

lemma apply_migrations_effect:
  assumes "mig_laws drops D com wrk" and "files_keep drops fs ms"
    and "apply_migrations fs D ms d = (r, d')" and "versions (wrk d) = Some vs"
  shows "com d' = com d \<and> (r = Inr () \<longrightarrow>
     (\<exists>bodies. map (mig_file fs) ms = map Inr bodies \<and>
        wrk d' = (wrk d)\<lparr>versions := Some (rev (map m_version ms) @ vs), scripts := scripts (wrk d) @ bodies\<rparr>))"
  using assms(2-4)
proof (induction ms arbitrary: d vs)
  case Nil
  then show ?case by simp
next
  case (Cons m ms)
  have keep: "files_keep drops fs ms" using Cons.prems(1) by (simp add: files_keep_def)
  show ?case
  proof (cases "mig_file fs m")
    case (Inl err)
    with Cons.prems(2) show ?thesis by simp
  next
    case (Inr body)
    have nd: "\<not> drops body" using Cons.prems(1) Inr by (simp add: files_keep_def)
    let ?w = "Wrapf (''apply migration '' @ m_name m @ '': '')"
    let ?w' = "Wrapf (''record migration '' @ show_int (m_version m) @ '': '')"
    have "sbind (check ?w (db_ExecScript D body)) (\<lambda>_. sbind (check ?w' (db_InsertVersion D (m_version m)))
        (\<lambda>_. apply_migrations fs D ms)) d = (r, d')"
      using Cons.prems(2) Inr by simp
    then show ?thesis
    proof (cases rule: sbindE)
      case (error err)
      then show ?thesis using mig_lawsD(7) [OF assms(1)] by (auto elim!: checkE)
    next
      case (ok u d1)
      from ok(1) have ex: "db_ExecScript D body d = (None, d1)" by (auto elim: checkE)
      note e1 = mig_lawsD(7) [OF assms(1) ex]
      from ok(2) show ?thesis
      proof (cases rule: sbindE)
        case (error err)
        then show ?thesis using mig_lawsD(8) [OF assms(1)] e1 by (auto elim!: checkE)
      next
        case ins: (ok u2 d2)
        from ins(1) have "db_InsertVersion D (m_version m) d1 = (None, d2)" by (auto elim: checkE)
        note e2 = mig_lawsD(8) [OF assms(1) this]
        have w2: "wrk d2 = (wrk d)\<lparr>versions := Some (m_version m # vs), scripts := scripts (wrk d) @ [body]\<rparr>"
          using e1 e2 nd Cons.prems(3) by (auto simp: run_script_def)
        have v2: "versions (wrk d2) = Some (m_version m # vs)" by (simp add: w2)
        have c2: "com d2 = com d" using e1 e2 by simp
        note rest = Cons.IH [OF keep ins(2) v2]
        have "\<exists>bodies. map (mig_file fs) (m # ms) = map Inr bodies \<and>
            wrk d' = (wrk d)\<lparr>versions := Some (rev (map m_version (m # ms)) @ vs), scripts := scripts (wrk d) @ bodies\<rparr>"
          if "r = Inr ()"
        proof -
          from rest that obtain bodies where b: "map (mig_file fs) ms = map Inr bodies"
            "wrk d' = (wrk d2)\<lparr>versions := Some (rev (map m_version ms) @ m_version m # vs), scripts := scripts (wrk d2) @ bodies\<rparr>"
            by blast
          show ?thesis by (rule exI [of _ "body # bodies"]) (simp add: b Inr w2)
        qed
        with rest c2 show ?thesis by simp
      qed
    qed
  qed
qed

lemma sorted_pending: "sorted (map m_version (filter P (sort_key m_version ms)))"
  by (rule sorted_filter) simp

lemma migration_tail:
  assumes "mig_laws drops D com wrk"
    and "sbind (pendingMigrations fs D) (\<lambda>pending. sbind (verifyMigrations fs ord D) (\<lambda>_.
        sbind (apply_migrations fs D pending) (\<lambda>_. check (\<lambda>e. e) (db_Commit D)))) d = (r, d')"
    and "\<And>ms. read_versions fs is_up = Inr ms \<Longrightarrow> files_keep drops fs ms"
    and "versions (wrk d) = Some old"
  shows "case r of
      Inl err \<Rightarrow> com d' = com d
    | Inr _ \<Rightarrow> \<exists>ms bodies. read_versions fs is_up = Inr ms \<and>
        (let pending = filter (\<lambda>m. m_version m \<notin> set old) (sort_key m_version ms) in
          map (mig_file fs) pending = map Inr bodies \<and>
          com d' = (wrk d)\<lparr>versions := Some (rev (map m_version pending) @ old), scripts := scripts (wrk d) @ bodies\<rparr>)"
  using assms(2)
proof (cases rule: sbindE)
  case (error err)
  with pendingMigrations_effect [OF assms(1) error(1)] show ?thesis by simp
next
  case (ok pending d1)
  from pendingMigrations_effect [OF assms(1) ok(1)] assms(4) obtain ms where ms: "read_versions fs is_up = Inr ms"
    and p: "pending = filter (\<lambda>m. m_version m \<notin> set old) (sort_key m_version ms)" and w1: "wrk d1 = wrk d" "com d1 = com d"
    by auto
  have keep: "files_keep drops fs pending" using assms(3) [OF ms] by (auto simp: files_keep_def p)
  from ok(2) show ?thesis
  proof (cases rule: sbindE)
    case (error err)
    with verifyMigrations_effect [OF assms(1) error(1)] w1 show ?thesis by simp
  next
    case v: (ok u2 d2)
    note e2 = verifyMigrations_effect [OF assms(1) v(1)]
    have w2: "wrk d2 = wrk d" "com d2 = com d" using e2 w1 by simp_all
    have v2: "versions (wrk d2) = Some old" using w2 assms(4) by simp
    from v(2) show ?thesis
    proof (cases rule: sbindE)
      case (error err)
      with apply_migrations_effect [OF assms(1) keep error(1) v2] w2 show ?thesis by simp
    next
      case a: (ok u3 d3)
      note e3 = apply_migrations_effect [OF assms(1) keep a(1) v2]
      from a(2) show ?thesis
      proof (cases rule: checkE)
        case (error err)
        with mig_lawsD(10) [OF assms(1) error(1)] e3 w2 show ?thesis by simp
      next
        case c: ok
        from mig_lawsD(10) [OF assms(1) c(1)] e3 w2 ms p c(2) show ?thesis by (auto simp: Let_def)
      qed
    qed
  qed
qed

lemma migration_body:
  assumes "mig_laws drops D com wrk"
    and "sbind (check (\<lambda>e. e) (db_Lock D)) (\<lambda>_. sbind (check (\<lambda>e. e) (db_CreateVersions D)) (\<lambda>_.
        sbind (pendingMigrations fs D) (\<lambda>pending. sbind (verifyMigrations fs ord D) (\<lambda>_.
        sbind (apply_migrations fs D pending) (\<lambda>_. check (\<lambda>e. e) (db_Commit D)))))) d = (r, d')"
    and "\<And>ms. read_versions fs is_up = Inr ms \<Longrightarrow> files_keep drops fs ms"
  shows "case r of
      Inl err \<Rightarrow> com d' = com d
    | Inr _ \<Rightarrow> \<exists>ms bodies. read_versions fs is_up = Inr ms \<and>
        (let old = (case versions (wrk d) of None \<Rightarrow> [] | Some vs \<Rightarrow> vs);
             pending = filter (\<lambda>m. m_version m \<notin> set old) (sort_key m_version ms) in
          map (mig_file fs) pending = map Inr bodies \<and>
          com d' = (wrk d)\<lparr>versions := Some (rev (map m_version pending) @ old), scripts := scripts (wrk d) @ bodies\<rparr>)"
  using assms(2)
proof (cases rule: sbindE)
  case (error err)
  then show ?thesis using mig_lawsD(3) [OF assms(1)] by (auto elim!: checkE)
next
  case (ok u1 d1)
  from ok(1) have "db_Lock D d = (None, d1)" by (auto elim: checkE)
  note l1 = mig_lawsD(3) [OF assms(1) this]
  from ok(2) show ?thesis
  proof (cases rule: sbindE)
    case (error err)
    then show ?thesis using mig_lawsD(4) [OF assms(1)] l1 by (auto elim!: checkE)
  next
    case ct: (ok u2 d2)
    from ct(1) have "db_CreateVersions D d1 = (None, d2)" by (auto elim: checkE)
    note l2 = mig_lawsD(4) [OF assms(1) this]
    define old where "old = (case versions (wrk d) of None \<Rightarrow> [] | Some vs \<Rightarrow> vs)"
    have w2: "wrk d2 = (wrk d)\<lparr>versions := Some old\<rparr>" "com d2 = com d" using l1 l2 by (simp_all add: old_def)
    have "case r of
        Inl err \<Rightarrow> com d' = com d2
      | Inr _ \<Rightarrow> \<exists>ms bodies. read_versions fs is_up = Inr ms \<and>
          (let pending = filter (\<lambda>m. m_version m \<notin> set old) (sort_key m_version ms) in
            map (mig_file fs) pending = map Inr bodies \<and>
            com d' = (wrk d2)\<lparr>versions := Some (rev (map m_version pending) @ old), scripts := scripts (wrk d2) @ bodies\<rparr>)"
      by (rule migration_tail [OF assms(1) ct(2) assms(3)]) (simp_all add: w2)
    then show ?thesis by (simp add: w2 old_def Let_def split: sum.splits)
  qed
qed


section \<open>The chain check and the rollback\<close>

lemma next_missing_ge: "expected \<le> next_missing vs n expected"
proof (induction n arbitrary: expected)
  case (Suc n)
  from Suc.IH [of "expected + 1"] show ?case by simp
qed simp

lemma next_missing_start: "vs \<noteq> [] \<Longrightarrow> next_missing vs (length vs) e = e \<longleftrightarrow> e \<notin> set vs"
proof -
  assume "vs \<noteq> []"
  then obtain n where "length vs = Suc n" by (cases vs) auto
  then show ?thesis using next_missing_ge [of "e + 1" vs n] by auto
qed

text \<open>The bound on the search is enough: it ends at a version that is missing.\<close>

lemma next_missing_missing: "next_missing vs (length vs) e \<notin> set vs"
proof -
  have "next_missing vs n e \<notin> set vs \<or> {e ..< e + int n} \<subseteq> set vs \<and> next_missing vs n e = e + int n" for n
  proof (induction n arbitrary: e)
    case (Suc n)
    show ?case
    proof (cases "e \<in> set vs")
      case True
      have "{e ..< e + int (Suc n)} = insert e {e + 1 ..< e + 1 + int n}" by auto
      with True Suc.IH [of "e + 1"] show ?thesis by auto
    qed simp
  qed simp
  from this [of "length vs"] show ?thesis
  proof
    assume all: "{e ..< e + int (length vs)} \<subseteq> set vs \<and> next_missing vs (length vs) e = e + int (length vs)"
    show ?thesis
    proof
      assume "next_missing vs (length vs) e \<in> set vs"
      with all have "insert (e + int (length vs)) {e ..< e + int (length vs)} \<subseteq> set vs" by auto
      from card_mono [OF _ this] have "Suc (length vs) \<le> card (set vs)" by simp
      with card_length [of vs] show False by simp
    qed
  qed
qed

lemma set_range_ints [simp]: "set (range_ints ord ks) = set ks"
  by (simp add: range_ints_def)

lemma check_applied_ok: "check_applied ord ups applied d = (Inr (), d') \<longleftrightarrow> set applied \<subseteq> set ups \<and> d' = d"
proof -
  have "find (\<lambda>v. v \<notin> set ups) (range_ints ord applied) = None \<longleftrightarrow> set applied \<subseteq> set ups"
    unfolding find_None_iff set_range_ints by blast
  then show ?thesis by (cases "find (\<lambda>v. v \<notin> set ups) (range_ints ord applied)") (auto simp: check_applied_def)
qed

text \<open>
  What the chain check accepts. When the directory and the version table can be read,
  \<open>verifyMigrations\<close> succeeds exactly if there are no up migrations or one of them has version 1,
  and every applied version is embedded. Gaps in the sequence of versions are accepted.
\<close>

lemma verify_accepts_gaps:
  assumes "read_versions fs is_up = Inr ms" and "loadAppliedVersions D d = (Inr applied, d1)"
  shows "verifyMigrations fs ord D d = (Inr (), d1) \<longleftrightarrow>
     (ms = [] \<or> 1 \<in> set (map m_version ms)) \<and> set applied \<subseteq> set (map m_version ms)"
proof (cases "ms = []")
  case True
  with assms show ?thesis
    by (simp add: verifyMigrations_def Let_def sbind_def check_applied_ok)
next
  case False
  with next_missing_start [of "map m_version ms" 1] assms show ?thesis
    by (auto simp: verifyMigrations_def Let_def sbind_def check_applied_ok)
qed

lemma pendingDown_single:
  assumes "mig_laws drops D com wrk" and "pendingDownMigrations fs ord D d = (r, d')"
    and "read_versions fs is_down = Inr ms" and "down_by_version ms v = Some name"
    and "versions (wrk d) = Some vs" and "set vs = {v}"
  shows "com d' = com d \<and> (\<forall>down. r = Inr down \<longrightarrow> wrk d' = wrk d \<and> down = [\<lparr>m_name = name, m_version = v\<rparr>])"
proof -
  have "ms \<noteq> []" using assms(4) by (auto simp: down_by_version_def)
  with assms(2,3) have "sbind (loadAppliedVersions D) (\<lambda>applied. ret (sort_key (\<lambda>m. - m_version m)
      (List.map_filter (\<lambda>v. map_option (\<lambda>name. \<lparr>m_name = name, m_version = v\<rparr>) (down_by_version ms v)) (range_ints ord applied)))) d = (r, d')"
    by (simp add: pendingDownMigrations_def)
  then show ?thesis
  proof (cases rule: sbindE)
    case (error err)
    with loadAppliedVersions_effect [OF assms(1) error(1)] show ?thesis by simp
  next
    case (ok us d1)
    have "distinct us" using ok(1) by (auto simp: loadAppliedVersions_def sbind_def split: prod.splits sum.splits option.splits)
    moreover have us: "set us = {v}" using loadAppliedVersions_effect [OF assms(1) ok(1)] assms(5,6) by simp
    ultimately have "distinct (range_ints ord us)" "set (range_ints ord us) = {v}" by (auto simp: range_ints_def)
    then have "range_ints ord us = [v]"
      by (metis distinct.simps(2) distinct_singleton empty_iff insert_iff list.exhaust list.set(1) list.set(2) list.set_intros(1) singleton_iff)
    with ok(2) assms(4) loadAppliedVersions_effect [OF assms(1) ok(1)] show ?thesis
      by (simp add: List.map_filter_def)
  qed
qed

text \<open>
  C32: the first migration cannot be rolled back. Its down script drops the version table, so the
  statement that should unrecord it fails: with only this migration applied,
  \<open>ApplyDownMigrations\<close> with any positive count reports an error and changes nothing.
\<close>

theorem first_migration_stays:
  assumes "mig_laws drops D com wrk" and "versions (com d) = Some vs" and "set vs = {v}"
    and "read_versions fs is_down = Inr ms" and "down_by_version ms v = Some name"
    and "fs_ReadFile fs (''migrations/'' @ name) = Inr body" and "drops body" and "0 < count"
  shows "\<exists>n err d'. ApplyDownMigrations fs ord D count d = ((n, Some err), d') \<and> com d' = com d"
proof -
  note rb = mig_lawsD(11) [OF assms(1)]
  obtain rb1 d1 where B: "db_Begin D d = (rb1, d1)" by fastforce
  note b = mig_lawsD(2) [OF assms(1) B]
  obtain rl d2 where L: "db_Lock D d1 = (rl, d2)" by fastforce
  note l = mig_lawsD(3) [OF assms(1) L]
  obtain rp d3 where P: "pendingDownMigrations fs ord D d2 = (rp, d3)" by fastforce
  show ?thesis
  proof (cases "rb1 = None \<and> rl = None")
    case False
    with B L b l rb show ?thesis by (cases rb1; cases rl) (auto simp: ApplyDownMigrations_def)
  next
    case True
    have "versions (wrk d2) = Some vs" using True b l assms(2) by simp
    note p = pendingDown_single [OF assms(1) P assms(4,5) this assms(3)]
    show ?thesis
    proof (cases rp)
      case (Inl err)
      with True B L P b l p rb show ?thesis by (auto simp: ApplyDownMigrations_def)
    next
      case (Inr down)
      then have down: "down = [\<lparr>m_name = name, m_version = v\<rparr>]" using p by simp
      obtain re d4 where X: "db_ExecScript D body d3 = (re, d4)" by fastforce
      note x = mig_lawsD(7) [OF assms(1) X]
      obtain rd d5 where Y: "db_DeleteVersion D v d4 = (rd, d5)" by fastforce
      note y = mig_lawsD(9) [OF assms(1) Y]
      have "re = None \<Longrightarrow> rd \<noteq> None" using x y assms(7) by (auto simp: run_script_def)
      then obtain err d6 where "roll_back fs D count down 0 d3 = ((0, Some err), d6)" "com d6 = com d3"
        using X Y x y assms(6,8) by (cases re; cases rd) (auto simp: down mig_file_def)
      with True B L P Inr b l p rb show ?thesis by (auto simp: ApplyDownMigrations_def)
    qed
  qed
qed

section \<open>The properties at concrete inputs\<close>

text \<open>
  A database that executes the statements on two copies of its state, the committed one and the
  one its transaction works on, and the embedded directory of the program.
\<close>

record eng =
  e_com :: mig_state
  e_wrk :: mig_state

definition drops_versions :: "string \<Rightarrow> bool" where
  "drops_versions body \<longleftrightarrow> Contains body ''DROP TABLE IF EXISTS schema_migrations''"

definition on_versions :: "(int list \<Rightarrow> int list) \<Rightarrow> eng \<Rightarrow> go_error option \<times> eng" where
  "on_versions f d =
     (case versions (e_wrk d) of
        None \<Rightarrow> (Some (PgError ''42P01'' ''relation does not exist''), d)
      | Some vs \<Rightarrow> (None, d\<lparr>e_wrk := (e_wrk d)\<lparr>versions := Some (f vs)\<rparr>\<rparr>))"

definition engine :: "eng MigDB" where
  "engine =
     \<lparr>db_Begin = \<lambda>d. (None, d\<lparr>e_wrk := e_com d\<rparr>), db_Lock = \<lambda>d. (None, d),
      db_Commit = \<lambda>d. (None, d\<lparr>e_com := e_wrk d\<rparr>), db_Rollback = \<lambda>d. d\<lparr>e_wrk := e_com d\<rparr>,
      db_Ping = \<lambda>d. (None, d),
      db_CreateVersions = \<lambda>d. (None, d\<lparr>e_wrk := (e_wrk d)\<lparr>versions :=
        Some (case versions (e_wrk d) of None \<Rightarrow> [] | Some vs \<Rightarrow> vs)\<rparr>\<rparr>),
      db_SelectVersions = \<lambda>d. (case versions (e_wrk d) of
          None \<Rightarrow> Inl (PgError ''42P01'' ''relation does not exist'') | Some vs \<Rightarrow> Inr (map Inr vs, None), d),
      db_ExecScript = \<lambda>body d. (None, d\<lparr>e_wrk := run_script drops_versions body (e_wrk d)\<rparr>),
      db_InsertVersion = \<lambda>v. on_versions (\<lambda>vs. v # vs),
      db_DeleteVersion = \<lambda>v. on_versions (removeAll v)\<rparr>"

lemma scan_versions_Inr [simp]: "scan_versions (map Inr vs) = Inr vs"
  by (induction vs) simp_all

lemma engine_laws: "mig_laws drops_versions engine e_com e_wrk"
  by (auto simp: mig_laws_def engine_def on_versions_def split: option.splits)

definition embedded :: "embed_fs" where
  "embedded =
     \<lparr>fs_ReadDir = Inr (map (\<lambda>n. \<lparr>de_Name = n, de_IsDir = False\<rparr>)
        [''0001_users.down.sql'', ''0001_users.sql'', ''0002_user_indexes.down.sql'', ''0002_user_indexes.sql'',
         ''0003_idempotency_keys.down.sql'', ''0003_idempotency_keys.sql'']),
      fs_ReadFile = \<lambda>n.
        if n = ''migrations/0001_users.down.sql''
        then Inr (''DROP TABLE IF EXISTS users;'' @ [CHR 0x0A] @ ''DROP TABLE IF EXISTS schema_migrations;'' @ [CHR 0x0A])
        else if n = ''migrations/0001_users.sql'' then Inr ''CREATE TABLE IF NOT EXISTS users''
        else if n = ''migrations/0002_user_indexes.sql'' then Inr ''CREATE INDEX IF NOT EXISTS users_email_idx''
        else Inr ''CREATE TABLE IF NOT EXISTS idempotency_keys''\<rparr>"

definition up_records :: "migrationRecord list" where
  "up_records = [\<lparr>m_name = ''0001_users.sql'', m_version = 1\<rparr>, \<lparr>m_name = ''0002_user_indexes.sql'', m_version = 2\<rparr>,
     \<lparr>m_name = ''0003_idempotency_keys.sql'', m_version = 3\<rparr>]"

definition down_records :: "migrationRecord list" where
  "down_records = [\<lparr>m_name = ''0001_users.down.sql'', m_version = 1\<rparr>, \<lparr>m_name = ''0002_user_indexes.down.sql'', m_version = 2\<rparr>,
     \<lparr>m_name = ''0003_idempotency_keys.down.sql'', m_version = 3\<rparr>]"

lemma embedded_versions: "read_versions embedded is_up = Inr up_records" "read_versions embedded is_down = Inr down_records"
  by code_simp+

definition fresh_db :: eng where
  "fresh_db = \<lparr>e_com = \<lparr>versions = None, scripts = []\<rparr>, e_wrk = \<lparr>versions = None, scripts = []\<rparr>\<rparr>"



theorem first_migration_stays_witness:
  "\<exists>n err d'. ApplyDownMigrations embedded (\<lambda>ks. ks) engine 1 (fresh_db\<lparr>e_com := \<lparr>versions = Some [1], scripts = []\<rparr>\<rparr>) = ((n, Some err), d')"
proof -
  let ?body = "''DROP TABLE IF EXISTS users;'' @ [CHR 0x0A] @ ''DROP TABLE IF EXISTS schema_migrations;'' @ [CHR 0x0A]"
  have "down_by_version down_records 1 = Some ''0001_users.down.sql''" by code_simp
  moreover have "fs_ReadFile embedded (''migrations/'' @ ''0001_users.down.sql'') = Inr ?body"
    by (simp add: embedded_def)
  moreover have "drops_versions ?body" by code_simp
  ultimately show ?thesis
    using first_migration_stays [OF engine_laws _ _ embedded_versions(2),
      where v = 1 and vs = "[1]" and count = 1 and d = "fresh_db\<lparr>e_com := \<lparr>versions = Some [1], scripts = []\<rparr>\<rparr>"] by fastforce
qed

end
