(* ===== verification/Postgres_Repository.thy ===== *)
theory Postgres_Repository
  imports Postgres_Migrations
begin

text \<open>
  The operations of \<open>PostgresRepository\<close> in \<open>internal/storage/postgres.go\<close>. Each is a transaction
  or a single statement, run through the retry loop. The database is a parameter, a \<open>UserDB\<close> with
  one field per statement the code sends; \<open>user_laws\<close> states what the code relies on of
  PostgreSQL: statements act on the state of their transaction as documented, a transaction is
  committed as a whole or not at all, times are kept to the microsecond and identifiers are
  compared bytewise. Calls are executed one after the other. Contexts act through the errors of
  the statements and through the retry environment.
\<close>

section \<open>Rows and times\<close>

record user_row =
  r_id :: string
  r_name :: string
  r_email :: string
  r_age :: int
  r_created :: int
  r_updated :: int

text \<open>\<open>Timestamp.AsTime\<close> in nanoseconds since the epoch, and \<open>Time.IsZero\<close> (year 1).\<close>

definition AsTime :: "Timestamp \<Rightarrow> int" where
  "AsTime ts = ts_Seconds ts * second + ts_Nanos ts"

definition time_IsZero :: "int \<Rightarrow> bool" where
  "time_IsZero t \<longleftrightarrow> t = - 62135596800 * second"

definition userTimes :: "User \<Rightarrow> (int \<times> int) result" where
  "userTimes user =
     (case (u_CreatedAt user, u_UpdatedAt user) of
        (Some c, Some u) \<Rightarrow>
          (let createdAt = AsTime c; updatedAt = AsTime u
           in if \<not> time_IsZero createdAt \<and> \<not> time_IsZero updatedAt then Inr (createdAt, updatedAt) else Inl ErrInvalid)
      | _ \<Rightarrow> Inl ErrInvalid)"

definition row_of :: "User \<Rightarrow> int \<times> int \<Rightarrow> user_row" where
  "row_of user ts =
     \<lparr>r_id = u_Id user, r_name = u_Name user, r_email = u_Email user, r_age = u_Age user,
      r_created = fst ts, r_updated = snd ts\<rparr>"

text \<open>A scanned row as a message (\<open>timestamppb.New\<close> of the two times).\<close>

definition user_of_row :: "user_row \<Rightarrow> User" where
  "user_of_row r =
     \<lparr>u_Id = r_id r, u_Name = r_name r, u_Email = r_email r, u_Age = r_age r,
      u_CreatedAt = Some (timestamp_of (r_created r)), u_UpdatedAt = Some (timestamp_of (r_updated r))\<rparr>"

definition incomplete :: "User option \<Rightarrow> bool" where
  "incomplete user \<longleftrightarrow> (case user of None \<Rightarrow> True | Some u \<Rightarrow> u_Id u = [] \<or> u_Name u = [] \<or> u_Email u = [])"

section \<open>The statements\<close>

record 'd UserDB = "'d TxDB" +
  q_Count :: "'d \<Rightarrow> int result \<times> 'd"
  q_InsertUser :: "user_row \<Rightarrow> 'd \<Rightarrow> go_error option \<times> 'd"
  q_SelectUser :: "string \<Rightarrow> 'd \<Rightarrow> user_row result \<times> 'd"
  q_SelectUserForUpdate :: "string \<Rightarrow> 'd \<Rightarrow> user_row result \<times> 'd"
  q_ExistsForUpdate :: "string \<Rightarrow> 'd \<Rightarrow> bool result \<times> 'd"
  q_UpdateUser :: "user_row \<Rightarrow> 'd \<Rightarrow> (int result) result \<times> 'd"
  q_SelectKey :: "string \<Rightarrow> 'd \<Rightarrow> string result \<times> 'd"
  q_InsertKey :: "string \<Rightarrow> string \<Rightarrow> 'd \<Rightarrow> go_error option \<times> 'd"
  x_SelectUser :: "string \<Rightarrow> 'd \<Rightarrow> user_row result \<times> 'd"
  x_DeleteUser :: "string \<Rightarrow> 'd \<Rightarrow> (int result) result \<times> 'd"
  x_ListUsers :: "string \<Rightarrow> int \<Rightarrow> 'd \<Rightarrow> (user_row rows) result \<times> 'd"
  x_Ping :: "'d \<Rightarrow> go_error option \<times> 'd"
  x_Close :: "'d \<Rightarrow> go_error option \<times> 'd"

text \<open>Fields starting with \<open>q\<close> run inside a transaction, those with \<open>x\<close> on the pool.\<close>

section \<open>The operations\<close>

definition insert_user :: "('d, 'z) UserDB_scheme \<Rightarrow> user_row \<Rightarrow> 'd \<Rightarrow> unit result \<times> 'd" where
  "insert_user D row =
     check (\<lambda>err. if isUniqueViolation err then ErrAlreadyExists else Wrapf ''insert user: '' err) (q_InsertUser D row)"

definition check_capacity :: "('d, 'z) UserDB_scheme \<Rightarrow> int \<Rightarrow> 'd \<Rightarrow> unit result \<times> 'd" where
  "check_capacity D maxUsers =
     sbind (query (Wrapf ''count users: '') (q_Count D)) (\<lambda>count.
       if count \<ge> maxUsers then fail ErrCapacity else ret ())"

definition pg_Create ::
  "retry_env \<Rightarrow> retryConfig \<Rightarrow> ('d, 'z) UserDB_scheme \<Rightarrow> User option \<Rightarrow> int \<Rightarrow> 'd \<Rightarrow> unit result \<times> 'd" where
  "pg_Create V cfg D user maxUsers =
     (case user of
        None \<Rightarrow> fail ErrInvalid
      | Some u \<Rightarrow>
          if incomplete user then fail ErrInvalid
          else retryOperation V cfg () (case userTimes u of
             Inl err \<Rightarrow> fail err
           | Inr ts \<Rightarrow>
               in_tx D (Wrapf ''begin create: '')
                 (sbind (check (Wrapf ''lock user capacity: '') (db_Lock D)) (\<lambda>_.
                  sbind (check_capacity D maxUsers) (\<lambda>_.
                  sbind (insert_user D (row_of u ts)) (\<lambda>_.
                  check (Wrapf ''commit create: '') (db_Commit D)))))))"

definition scanUserTx :: "('d, 'z) UserDB_scheme \<Rightarrow> string \<Rightarrow> 'd \<Rightarrow> User result \<times> 'd" where
  "scanUserTx D i =
     sbind (query (\<lambda>err. if errors_Is err sql_ErrNoRows then ErrNotFound else Wrapf ''load user: '' err) (q_SelectUser D i))
       (\<lambda>row. ret (user_of_row row))"

text \<open>
  The lookup of the key: the recorded identifier, or \<open>None\<close> for "no rows", which falls through to
  the creation.
\<close>

definition select_key :: "('d, 'z) UserDB_scheme \<Rightarrow> string \<Rightarrow> 'd \<Rightarrow> (string option) result \<times> 'd" where
  "select_key D key d =
     (case q_SelectKey D key d of
        (Inr i, d') \<Rightarrow> (Inr (Some i), d')
      | (Inl err, d') \<Rightarrow>
          if errors_Is err sql_ErrNoRows then (Inr None, d') else (Inl (Wrapf ''lookup idempotency key: '' err), d'))"

definition pg_CreateWithIdempotency ::
  "retry_env \<Rightarrow> retryConfig \<Rightarrow> ('d, 'z) UserDB_scheme \<Rightarrow> User option \<Rightarrow> int \<Rightarrow> string \<Rightarrow> 'd \<Rightarrow>
     (User option \<times> bool) result \<times> 'd" where
  "pg_CreateWithIdempotency V cfg D user maxUsers key =
     (if key = [] then sbind (pg_Create V cfg D user maxUsers) (\<lambda>_. ret (user, False))
      else case user of
        None \<Rightarrow> fail ErrInvalid
      | Some u \<Rightarrow>
          if incomplete user then fail ErrInvalid
          else retryOperation V cfg (None, False) (case userTimes u of
             Inl err \<Rightarrow> fail err
           | Inr ts \<Rightarrow>
               in_tx D (Wrapf ''begin idempotent create: '')
                 (sbind (check (Wrapf ''lock user capacity: '') (db_Lock D)) (\<lambda>_.
                  sbind (select_key D key) (\<lambda>existing.
                    case existing of
                      Some i \<Rightarrow>
                        sbind (scanUserTx D i) (\<lambda>v.
                        sbind (check (\<lambda>err. err) (db_Commit D)) (\<lambda>_. ret (Some v, True)))
                    | None \<Rightarrow>
                        sbind (check_capacity D maxUsers) (\<lambda>_.
                        sbind (insert_user D (row_of u ts)) (\<lambda>_.
                        sbind (check (Wrapf ''insert idempotency key: '') (q_InsertKey D key (u_Id u))) (\<lambda>_.
                        sbind (check (Wrapf ''commit idempotent create: '') (db_Commit D)) (\<lambda>_.
                        ret (Some u, False)))))))))) "

definition pg_Get :: "retry_env \<Rightarrow> retryConfig \<Rightarrow> ('d, 'z) UserDB_scheme \<Rightarrow> string \<Rightarrow> 'd \<Rightarrow> (User option) result \<times> 'd" where
  "pg_Get V cfg D i =
     retryOperation V cfg None
       (sbind (query (\<lambda>err. if errors_Is err sql_ErrNoRows then ErrNotFound else Wrapf ''get user: '' err) (x_SelectUser D i))
         (\<lambda>row. ret (Some (user_of_row row))))"

fun scan_users :: "user_row result list \<Rightarrow> User list result" where
  "scan_users [] = Inr []"
| "scan_users (Inl err # rs) = Inl (Wrapf ''scan user: '' err)"
| "scan_users (Inr row # rs) =
     (case scan_users rs of Inl err \<Rightarrow> Inl err | Inr us \<Rightarrow> Inr (user_of_row row # us))"

definition pg_List ::
  "retry_env \<Rightarrow> retryConfig \<Rightarrow> ('d, 'z) UserDB_scheme \<Rightarrow> int \<Rightarrow> string \<Rightarrow> 'd \<Rightarrow> (User list \<times> string) result \<times> 'd" where
  "pg_List V cfg D limit afterID =
     (if limit \<le> 0 then fail ErrInvalid
      else
        retryOperation V cfg ([], [])
          (sbind (query (Wrapf ''list users: '') (x_ListUsers D afterID (wrap64 (limit + 1)))) (\<lambda>(rs, rowsErr).
             case scan_users rs of
               Inl err \<Rightarrow> fail err
             | Inr collected \<Rightarrow>
                 (case rowsErr of
                    Some err \<Rightarrow> fail (Wrapf ''iterate users: '' err)
                  | None \<Rightarrow>
                      if int (length collected) > limit
                      then (let page = take (nat limit) collected in ret (page, u_Id (page ! (length page - 1))))
                      else ret (collected, [])))))"

text \<open>\<open>result.RowsAffected\<close> of a statement that ran.\<close>

definition affected :: "string \<Rightarrow> string \<Rightarrow> ('d \<Rightarrow> (int result) result \<times> 'd) \<Rightarrow> 'd \<Rightarrow> int result \<times> 'd" where
  "affected what inspect m =
     sbind (query (Wrapf what) m) (\<lambda>n. case n of Inl err \<Rightarrow> fail (Wrapf inspect err) | Inr k \<Rightarrow> ret k)"

definition pg_Update :: "retry_env \<Rightarrow> retryConfig \<Rightarrow> ('d, 'z) UserDB_scheme \<Rightarrow> User option \<Rightarrow> 'd \<Rightarrow> unit result \<times> 'd" where
  "pg_Update V cfg D user =
     (case user of
        None \<Rightarrow> fail ErrInvalid
      | Some u \<Rightarrow>
          if incomplete user then fail ErrInvalid
          else retryOperation V cfg () (case userTimes u of
             Inl err \<Rightarrow> fail err
           | Inr ts \<Rightarrow>
               in_tx D (Wrapf ''begin update: '')
                 (sbind (query (Wrapf ''lock user for update: '') (q_ExistsForUpdate D (u_Id u))) (\<lambda>exists.
                    if \<not> exists then fail ErrNotFound
                    else
                      sbind (affected ''update user: '' ''inspect update: '' (q_UpdateUser D (row_of u ts))) (\<lambda>rows.
                        if rows = 0 then fail ErrNotFound else check (\<lambda>err. err) (db_Commit D))))))"

definition pg_Delete :: "retry_env \<Rightarrow> retryConfig \<Rightarrow> ('d, 'z) UserDB_scheme \<Rightarrow> string \<Rightarrow> 'd \<Rightarrow> unit result \<times> 'd" where
  "pg_Delete V cfg D i =
     retryOperation V cfg ()
       (sbind (affected ''delete user: '' ''inspect delete: '' (x_DeleteUser D i)) (\<lambda>rows.
          if rows = 0 then fail ErrNotFound else ret ()))"

definition pg_ReadModifyUpdate ::
  "retry_env \<Rightarrow> retryConfig \<Rightarrow> ('d, 'z) UserDB_scheme \<Rightarrow> string \<Rightarrow> ReadModifyUpdateFn option \<Rightarrow> 'd \<Rightarrow> (User option) result \<times> 'd" where
  "pg_ReadModifyUpdate V cfg D i mutate =
     (if blank i then fail ErrInvalid
      else case mutate of
        None \<Rightarrow> fail ErrInvalid
      | Some f \<Rightarrow>
          retryOperation V cfg None
            (in_tx D (Wrapf ''begin read-modify-update: '')
              (sbind (query (\<lambda>err. if errors_Is err sql_ErrNoRows then ErrNotFound
                                   else Wrapf ''lock user for read-modify-update: '' err) (q_SelectUserForUpdate D i)) (\<lambda>row.
                 case f (user_of_row row) of
                   Inl err \<Rightarrow> fail err
                 | Inr working \<Rightarrow>
                     (case userTimes working of
                        Inl err \<Rightarrow> fail err
                      | Inr ts \<Rightarrow>
                          sbind (query (Wrapf ''update user in read-modify-update: '') (q_UpdateUser D (row_of working ts))) (\<lambda>_.
                          sbind (check (Wrapf ''commit read-modify-update: '') (db_Commit D)) (\<lambda>_.
                          ret (Some working))))))))"

definition pg_Ping :: "('d, 'z) UserDB_scheme \<Rightarrow> Context option \<Rightarrow> 'd \<Rightarrow> go_error option \<times> 'd" where
  "pg_Ping D ctx d = (case ctx of None \<Rightarrow> (Some ErrInvalid, d) | Some _ \<Rightarrow> x_Ping D d)"

definition pg_Close :: "('d, 'z) UserDB_scheme \<Rightarrow> 'd \<Rightarrow> go_error option \<times> 'd" where
  "pg_Close D = x_Close D"

section \<open>What the code relies on of PostgreSQL\<close>

record tables =
  t_users :: "string \<rightharpoonup> user_row"
  t_keys :: "string \<rightharpoonup> string"

definition to_micros :: "int \<Rightarrow> int" where
  "to_micros t = t div 1000 * 1000"

text \<open>A \<open>TIMESTAMPTZ\<close> column keeps microseconds.\<close>

definition micros :: "user_row \<Rightarrow> user_row" where
  "micros r = r\<lparr>r_created := to_micros (r_created r), r_updated := to_micros (r_updated r)\<rparr>"

text \<open>The rows after an identifier in ascending order, at most \<open>k\<close> of them.\<close>

definition rows_after :: "(string \<rightharpoonup> user_row) \<Rightarrow> string \<Rightarrow> nat \<Rightarrow> user_row list" where
  "rows_after m a k = map (\<lambda>i. the (m i)) (take k (sorted_list_of_set {i \<in> dom m. a < i}))"

definition tx_laws :: "('d, 'z) TxDB_scheme \<Rightarrow> ('d \<Rightarrow> tables) \<Rightarrow> ('d \<Rightarrow> tables) \<Rightarrow> bool" where
  "tx_laws D com wrk \<longleftrightarrow>
     (\<forall>d r d'. db_Begin D d = (r, d') \<longrightarrow> com d' = com d \<and> (r = None \<longrightarrow> wrk d' = com d)) \<and>
     (\<forall>d r d'. db_Lock D d = (r, d') \<longrightarrow> com d' = com d \<and> (r = None \<longrightarrow> wrk d' = wrk d)) \<and>
     (\<forall>d r d'. db_Commit D d = (r, d') \<longrightarrow> com d' = (if r = None then wrk d else com d)) \<and>
     (\<forall>d. com (db_Rollback D d) = com d)"

text \<open>One law per statement: what it does when it succeeds, and that it commits nothing.\<close>

definition law_Count where
  "law_Count D com wrk \<longleftrightarrow> (\<forall>d r d'. q_Count D d = (r, d') \<longrightarrow> com d' = com d \<and>
     (\<forall>n. r = Inr n \<longrightarrow> wrk d' = wrk d \<and> n = int (card (dom (t_users (wrk d))))))"

definition law_InsertUser where
  "law_InsertUser D com wrk \<longleftrightarrow> (\<forall>row d r d'. q_InsertUser D row d = (r, d') \<longrightarrow> com d' = com d \<and>
     (r = None \<longrightarrow> r_id row \<notin> dom (t_users (wrk d)) \<and>
        wrk d' = (wrk d)\<lparr>t_users := (t_users (wrk d))(r_id row \<mapsto> micros row)\<rparr>))"

definition law_SelectUser where
  "law_SelectUser sel com wrk \<longleftrightarrow> (\<forall>i d r d'. sel i d = (r, d') \<longrightarrow> com d' = com d \<and>
     (\<forall>row. r = Inr row \<longrightarrow> wrk d' = wrk d \<and> t_users (wrk d) i = Some row))"

definition law_Exists where
  "law_Exists D com wrk \<longleftrightarrow> (\<forall>i d r d'. q_ExistsForUpdate D i d = (r, d') \<longrightarrow> com d' = com d \<and>
     (\<forall>b. r = Inr b \<longrightarrow> wrk d' = wrk d \<and> b = (i \<in> dom (t_users (wrk d)))))"

definition law_UpdateUser where
  "law_UpdateUser D com wrk \<longleftrightarrow> (\<forall>row d r d'. q_UpdateUser D row d = (r, d') \<longrightarrow> com d' = com d \<and>
     (\<forall>n. r = Inr n \<longrightarrow> n = Inr (if r_id row \<in> dom (t_users (wrk d)) then 1 else 0) \<and>
        wrk d' = (if r_id row \<in> dom (t_users (wrk d))
                  then (wrk d)\<lparr>t_users := (t_users (wrk d))(r_id row \<mapsto> micros row)\<rparr> else wrk d)))"

definition law_SelectKey where
  "law_SelectKey D com wrk \<longleftrightarrow> (\<forall>key d r d'. q_SelectKey D key d = (r, d') \<longrightarrow> com d' = com d \<and>
     (\<forall>i. r = Inr i \<longrightarrow> wrk d' = wrk d \<and> t_keys (wrk d) key = Some i) \<and>
     (\<forall>err. r = Inl err \<longrightarrow> errors_Is err sql_ErrNoRows \<longrightarrow> wrk d' = wrk d \<and> t_keys (wrk d) key = None))"

definition law_InsertKey where
  "law_InsertKey D com wrk \<longleftrightarrow> (\<forall>key i d r d'. q_InsertKey D key i d = (r, d') \<longrightarrow> com d' = com d \<and>
     (r = None \<longrightarrow> wrk d' = (wrk d)\<lparr>t_keys := (t_keys (wrk d))(key \<mapsto> i)\<rparr>))"

definition law_pool_Select where
  "law_pool_Select D com \<longleftrightarrow> (\<forall>i d r d'. x_SelectUser D i d = (r, d') \<longrightarrow> com d' = com d \<and>
     (\<forall>row. r = Inr row \<longrightarrow> t_users (com d) i = Some row))"

definition law_pool_Delete where
  "law_pool_Delete D com \<longleftrightarrow> (\<forall>i d r d'. x_DeleteUser D i d = (r, d') \<longrightarrow>
     (\<forall>err. r = Inl err \<longrightarrow> com d' = com d) \<and>
     (\<forall>n. r = Inr n \<longrightarrow> n = Inr (if i \<in> dom (t_users (com d)) then 1 else 0) \<and>
        com d' = (com d)\<lparr>t_users := (t_users (com d))(i := None),
          t_keys := (\<lambda>k. if t_keys (com d) k = Some i then None else t_keys (com d) k)\<rparr>))"

definition law_pool_List where
  "law_pool_List D com \<longleftrightarrow> (\<forall>a k d r d'. x_ListUsers D a k d = (r, d') \<longrightarrow> com d' = com d \<and>
     (\<forall>rs us. r = Inr (rs, None) \<longrightarrow> scan_users rs = Inr us \<longrightarrow>
        us = map user_of_row (rows_after (t_users (com d)) a (nat k))))"

definition user_laws :: "('d, 'z) UserDB_scheme \<Rightarrow> ('d \<Rightarrow> tables) \<Rightarrow> ('d \<Rightarrow> tables) \<Rightarrow> bool" where
  "user_laws D com wrk \<longleftrightarrow> tx_laws D com wrk \<and> law_Count D com wrk \<and> law_InsertUser D com wrk \<and>
     law_SelectUser (q_SelectUser D) com wrk \<and> law_SelectUser (q_SelectUserForUpdate D) com wrk \<and>
     law_Exists D com wrk \<and> law_UpdateUser D com wrk \<and> law_SelectKey D com wrk \<and> law_InsertKey D com wrk \<and>
     law_pool_Select D com \<and> law_pool_Delete D com \<and> law_pool_List D com"

lemma tx_lawsD:
  assumes "tx_laws D com wrk"
  shows "db_Begin D d = (r, d') \<Longrightarrow> com d' = com d \<and> (r = None \<longrightarrow> wrk d' = com d)"
    and "db_Lock D d = (r, d') \<Longrightarrow> com d' = com d \<and> (r = None \<longrightarrow> wrk d' = wrk d)"
    and "db_Commit D d = (r, d') \<Longrightarrow> com d' = (if r = None then wrk d else com d)"
    and "com (db_Rollback D d) = com d"
  using assms unfolding tx_laws_def by metis+

lemma user_lawsD:
  assumes "user_laws D com wrk"
  shows "tx_laws D com wrk"
    and "q_Count D d = (rn, d') \<Longrightarrow> com d' = com d \<and>
        (\<forall>n. rn = Inr n \<longrightarrow> wrk d' = wrk d \<and> n = int (card (dom (t_users (wrk d)))))"
    and "q_InsertUser D row d = (r, d') \<Longrightarrow> com d' = com d \<and>
        (r = None \<longrightarrow> r_id row \<notin> dom (t_users (wrk d)) \<and>
           wrk d' = (wrk d)\<lparr>t_users := (t_users (wrk d))(r_id row \<mapsto> micros row)\<rparr>)"
    and "q_SelectUser D i d = (ru, d') \<Longrightarrow> com d' = com d \<and>
        (\<forall>row. ru = Inr row \<longrightarrow> wrk d' = wrk d \<and> t_users (wrk d) i = Some row)"
    and "q_SelectUserForUpdate D i d = (ru, d') \<Longrightarrow> com d' = com d \<and>
        (\<forall>row. ru = Inr row \<longrightarrow> wrk d' = wrk d \<and> t_users (wrk d) i = Some row)"
    and "q_UpdateUser D row d = (rr, d') \<Longrightarrow> com d' = com d \<and>
        (\<forall>n. rr = Inr n \<longrightarrow> n = Inr (if r_id row \<in> dom (t_users (wrk d)) then 1 else 0) \<and>
           wrk d' = (if r_id row \<in> dom (t_users (wrk d))
                     then (wrk d)\<lparr>t_users := (t_users (wrk d))(r_id row \<mapsto> micros row)\<rparr> else wrk d))"
    and "q_SelectKey D key d = (rk, d') \<Longrightarrow> com d' = com d \<and>
        (\<forall>i. rk = Inr i \<longrightarrow> wrk d' = wrk d \<and> t_keys (wrk d) key = Some i) \<and>
        (\<forall>err. rk = Inl err \<longrightarrow> errors_Is err sql_ErrNoRows \<longrightarrow> wrk d' = wrk d \<and> t_keys (wrk d) key = None)"
    and "q_InsertKey D key i d = (r, d') \<Longrightarrow> com d' = com d \<and>
        (r = None \<longrightarrow> wrk d' = (wrk d)\<lparr>t_keys := (t_keys (wrk d))(key \<mapsto> i)\<rparr>)"
    and "x_ListUsers D a k d = (rl, d') \<Longrightarrow> com d' = com d \<and>
        (\<forall>rs us. rl = Inr (rs, None) \<longrightarrow> scan_users rs = Inr us \<longrightarrow> us = map user_of_row (rows_after (t_users (com d)) a (nat k)))"
          apply (use assms in \<open>simp add: user_laws_def\<close>)
         apply (use assms in \<open>simp add: user_laws_def law_Count_def\<close>)
        apply (use assms in \<open>simp add: user_laws_def law_InsertUser_def\<close>)
       apply (use assms in \<open>simp add: user_laws_def law_SelectUser_def\<close>)
      apply (use assms in \<open>simp add: user_laws_def law_SelectUser_def\<close>)
     apply (use assms in \<open>simp add: user_laws_def law_UpdateUser_def\<close>)
    apply (use assms in \<open>simp add: user_laws_def law_SelectKey_def\<close>)
   apply (use assms in \<open>simp add: user_laws_def law_InsertKey_def\<close>)
  apply (use assms in \<open>simp add: user_laws_def law_pool_List_def\<close>)
  done

section \<open>Lifting through transactions and retries\<close>

text \<open>An operation that fails without a committed change, and still does when it is retried.\<close>

definition fails_clean :: "('d \<Rightarrow> 'c) \<Rightarrow> ('d \<Rightarrow> 'a result \<times> 'd) \<Rightarrow> bool" where
  "fails_clean com op \<longleftrightarrow> (\<forall>d err d'. op d = (Inl err, d') \<longrightarrow> com d' = com d)"

lemma retry_loop_clean:
  assumes "fails_clean com op" and "retry_loop V cfg op attempt n prev d = (r, d')" and "0 < n \<or> isl prev"
  shows "(case r of Inl err \<Rightarrow> com d' = com d | Inr v \<Rightarrow> \<exists>d1. com d1 = com d \<and> op d1 = (Inr v, d'))"
  using assms(2,3)
proof (induction n arbitrary: attempt prev d)
  case 0
  then show ?case by (auto split: sum.splits)
next
  case (Suc n)
  obtain r0 d0 where op: "op d = (r0, d0)" by fastforce
  show ?case
  proof (cases "if attempt > 0 then retry_pause V cfg attempt else None")
    case (Some err)
    with Suc.prems show ?thesis by (auto split: if_splits)
  next
    case None
    show ?thesis
    proof (cases r0)
      case (Inr v)
      with Suc.prems None op have "r = Inr v" "d' = d0" by (auto split: if_splits)
      with op Inr show ?thesis by auto
    next
      case (Inl err)
      have same: "com d0 = com d" using assms(1) op Inl by (auto simp: fails_clean_def)
      show ?thesis
      proof (cases "isRetryableError err")
        case False
        with Suc.prems None op Inl have "r = Inl err" "d' = d0" by (auto split: if_splits)
        with same show ?thesis by simp
      next
        case True
        with Suc.prems None op Inl have "retry_loop V cfg op (Suc attempt) n (Inl err) d0 = (r, d')"
          by (simp split: if_splits)
        from Suc.IH [OF this] same show ?thesis by (auto simp: isl_def split: sum.splits)
      qed
    qed
  qed
qed

lemma retryOperation_clean:
  assumes "fails_clean com op" and "0 < maxAttempts cfg" and "retryOperation V cfg zero op d = (r, d')"
  shows "(case r of Inl err \<Rightarrow> com d' = com d | Inr v \<Rightarrow> \<exists>d1. com d1 = com d \<and> op d1 = (Inr v, d'))"
  using retry_loop_clean [OF assms(1) assms(3) [unfolded retryOperation_def]] assms(2) by simp

text \<open>A transaction whose body commits only in its last step fails cleanly.\<close>

lemma in_tx_clean:
  assumes "tx_laws D com wrk" and "fails_clean com body"
  shows "fails_clean com (in_tx D w body)"
  unfolding fails_clean_def
proof (intro allI impI)
  fix d err d'
  assume "in_tx D w body d = (Inl err, d')"
  then show "com d' = com d"
    by (cases rule: in_txE) (use assms tx_lawsD [OF assms(1)] in \<open>auto simp: fails_clean_def\<close>)
qed

lemma in_tx_Inr:
  assumes "tx_laws D com wrk" and "in_tx D w body d = (Inr v, d')"
  obtains d1 d2 where "com d1 = com d" "wrk d1 = com d" "body d1 = (Inr v, d2)" "com d' = com d2"
  using assms(2)
proof (cases rule: in_txE)
  case (body d1 d2)
  with that [of d1 d2] tx_lawsD(1) [OF assms(1) body(1)] tx_lawsD(4) [OF assms(1), of d2] show thesis by simp
qed simp

text \<open>Steps that never commit compose to clean failures.\<close>

definition quiet :: "('d \<Rightarrow> 'c) \<Rightarrow> ('d \<Rightarrow> 'a result \<times> 'd) \<Rightarrow> bool" where
  "quiet com m \<longleftrightarrow> (\<forall>d r d'. m d = (r, d') \<longrightarrow> com d' = com d)"

lemma quiet_clean: "quiet com m \<Longrightarrow> fails_clean com m"
  by (auto simp: quiet_def fails_clean_def)

lemma sbind_clean: "quiet com m \<Longrightarrow> (\<And>v. fails_clean com (f v)) \<Longrightarrow> fails_clean com (sbind m f)"
  by (auto simp: quiet_def fails_clean_def elim!: sbindE)

lemma sbind_quiet: "quiet com m \<Longrightarrow> (\<And>v. quiet com (f v)) \<Longrightarrow> quiet com (sbind m f)"
  by (auto simp: quiet_def elim!: sbindE)

lemma last_clean: "fails_clean com m \<Longrightarrow> fails_clean com (sbind m (\<lambda>v. ret (f v)))"
  by (auto simp: fails_clean_def elim!: sbindE)

lemma quiet_ret [simp]: "quiet com (ret v)" "quiet com (fail err)"
  by (auto simp: quiet_def ret_def fail_def)

lemma check_quiet: "(\<And>d r d'. m d = (r, d') \<Longrightarrow> com d' = com d) \<Longrightarrow> quiet com (check w m)"
  by (auto simp: quiet_def elim!: checkE)

lemma query_quiet: "(\<And>d r d'. m d = (r, d') \<Longrightarrow> com d' = com d) \<Longrightarrow> quiet com (query w m)"
  by (auto simp: quiet_def elim!: queryE)

lemma commit_clean: "tx_laws D com wrk \<Longrightarrow> fails_clean com (check w (db_Commit D))"
  by (auto simp: fails_clean_def elim!: checkE dest: tx_lawsD(3))

lemma sbind_Inr: "sbind m f d = (Inr v, d') \<longleftrightarrow> (\<exists>x d1. m d = (Inr x, d1) \<and> f x d1 = (Inr v, d'))"
  by (auto simp: sbind_def split: prod.splits sum.splits)

lemma check_Inr: "check w m d = (Inr v, d') \<longleftrightarrow> m d = (None, d')"
  by (auto simp: check_def split: prod.splits option.splits)

lemma query_Inr: "query w m d = (Inr v, d') \<longleftrightarrow> m d = (Inr v, d')"
  by (auto simp: query_def split: prod.splits sum.splits)

lemmas step_Inr = sbind_Inr check_Inr query_Inr

section \<open>Creating users\<close>

lemma check_capacity_quiet: "user_laws D com wrk \<Longrightarrow> quiet com (check_capacity D n)"
  unfolding check_capacity_def by (intro sbind_quiet query_quiet) (auto dest: user_lawsD(2))

lemma insert_user_quiet: "user_laws D com wrk \<Longrightarrow> quiet com (insert_user D row)"
  unfolding insert_user_def by (intro check_quiet) (auto dest: user_lawsD(3))

lemma lock_quiet: "user_laws D com wrk \<Longrightarrow> quiet com (check w (db_Lock D))"
  by (intro check_quiet) (auto dest: tx_lawsD(2) user_lawsD(1))

lemma insert_key_quiet: "user_laws D com wrk \<Longrightarrow> quiet com (check w (q_InsertKey D key i))"
  by (intro check_quiet) (auto dest: user_lawsD(8))

lemma scanUserTx_quiet: "user_laws D com wrk \<Longrightarrow> quiet com (scanUserTx D i)"
  unfolding scanUserTx_def by (intro sbind_quiet query_quiet) (auto dest: user_lawsD(4))

lemma select_key_quiet: "user_laws D com wrk \<Longrightarrow> quiet com (select_key D key)"
  by (auto simp: quiet_def select_key_def split: prod.splits sum.splits if_splits dest: user_lawsD(7))

lemma commit_clean': "user_laws D com wrk \<Longrightarrow> fails_clean com (check w (db_Commit D))"
  by (rule commit_clean [OF user_lawsD(1)])

lemmas quiet_steps = check_capacity_quiet insert_user_quiet lock_quiet insert_key_quiet scanUserTx_quiet select_key_quiet

text \<open>One attempt of a creation, with its effect on the tables it sees.\<close>

definition create_attempt where
  "create_attempt D u ts maxUsers =
     in_tx D (Wrapf ''begin create: '')
       (sbind (check (Wrapf ''lock user capacity: '') (db_Lock D)) (\<lambda>_.
        sbind (check_capacity D maxUsers) (\<lambda>_.
        sbind (insert_user D (row_of u ts)) (\<lambda>_.
        check (Wrapf ''commit create: '') (db_Commit D)))))"

definition idem_attempt where
  "idem_attempt D u ts maxUsers key =
     in_tx D (Wrapf ''begin idempotent create: '')
       (sbind (check (Wrapf ''lock user capacity: '') (db_Lock D)) (\<lambda>_.
        sbind (select_key D key) (\<lambda>existing.
          case existing of
            Some i \<Rightarrow>
              sbind (scanUserTx D i) (\<lambda>v.
              sbind (check (\<lambda>err. err) (db_Commit D)) (\<lambda>_. ret (Some v, True)))
          | None \<Rightarrow>
              sbind (check_capacity D maxUsers) (\<lambda>_.
              sbind (insert_user D (row_of u ts)) (\<lambda>_.
              sbind (check (Wrapf ''insert idempotency key: '') (q_InsertKey D key (u_Id u))) (\<lambda>_.
              sbind (check (Wrapf ''commit idempotent create: '') (db_Commit D)) (\<lambda>_.
              ret (Some u, False))))))))"

lemma create_attempt_clean: "user_laws D com wrk \<Longrightarrow> fails_clean com (create_attempt D u ts n)"
  unfolding create_attempt_def
  by (intro in_tx_clean [OF user_lawsD(1)] sbind_clean commit_clean' quiet_steps)

lemma idem_attempt_clean:
  assumes "user_laws D com wrk"
  shows "fails_clean com (idem_attempt D u ts n key)"
proof -
  note last = last_clean [OF commit_clean' [OF assms]]
  have "fails_clean com (case existing of Some i \<Rightarrow> sbind (scanUserTx D i) (\<lambda>v.
              sbind (check (\<lambda>err. err) (db_Commit D)) (\<lambda>_. ret (Some v, True)))
          | None \<Rightarrow> sbind (check_capacity D n) (\<lambda>_. sbind (insert_user D (row_of u ts)) (\<lambda>_.
              sbind (check (Wrapf ''insert idempotency key: '') (q_InsertKey D key (u_Id u))) (\<lambda>_.
              sbind (check (Wrapf ''commit idempotent create: '') (db_Commit D)) (\<lambda>_. ret (Some u, False))))))" for existing
    by (cases existing) (simp_all only: option.case, (intro last sbind_clean quiet_steps [OF assms])+)
  then show ?thesis
    unfolding idem_attempt_def
    by (intro in_tx_clean [OF user_lawsD(1) [OF assms]] sbind_clean quiet_steps [OF assms])
qed

definition room_for :: "tables \<Rightarrow> User \<Rightarrow> int \<Rightarrow> bool" where
  "room_for T u n \<longleftrightarrow> u_Id u \<notin> dom (t_users T) \<and> int (card (dom (t_users T))) < n"

lemma insert_steps:
  assumes "user_laws D com wrk" and "check_capacity D n d = (Inr x, d1)" and "insert_user D (row_of u ts) d1 = (Inr y, d2)"
  shows "room_for (wrk d) u n \<and> wrk d2 = (wrk d)\<lparr>t_users := (t_users (wrk d))(u_Id u \<mapsto> micros (row_of u ts))\<rparr>"
proof -
  from assms(2) obtain c where c: "q_Count D d = (Inr c, d1)" "c < n"
    by (auto simp: check_capacity_def step_Inr split: if_splits)
  from assms(3) have i: "q_InsertUser D (row_of u ts) d1 = (None, d2)" by (simp add: insert_user_def step_Inr)
  from user_lawsD(2) [OF assms(1) c(1)] user_lawsD(3) [OF assms(1) i] c(2) show ?thesis
    by (simp add: room_for_def row_of_def)
qed

lemma create_attempt_done:
  assumes "user_laws D com wrk" and "create_attempt D u ts n d = (Inr v, d')"
  shows "room_for (com d) u n \<and> com d' = (com d)\<lparr>t_users := (t_users (com d))(u_Id u \<mapsto> micros (row_of u ts))\<rparr>"
proof -
  note tx = user_lawsD(1) [OF assms(1)]
  from assms(2) obtain d1 d2 where d1: "wrk d1 = com d" and body: "sbind (check (Wrapf ''lock user capacity: '') (db_Lock D)) (\<lambda>_.
        sbind (check_capacity D n) (\<lambda>_. sbind (insert_user D (row_of u ts)) (\<lambda>_. check (Wrapf ''commit create: '') (db_Commit D)))) d1 = (Inr v, d2)"
      and d2: "com d' = com d2"
    unfolding create_attempt_def by (rule in_tx_Inr [OF tx])
  from body obtain x y e1 e2 e3 where l: "db_Lock D d1 = (None, e1)" and c: "check_capacity D n e1 = (Inr x, e2)"
    and i: "insert_user D (row_of u ts) e2 = (Inr y, e3)" and k: "db_Commit D e3 = (None, d2)"
    by (auto simp: step_Inr)
  from insert_steps [OF assms(1) c i] tx_lawsD(2) [OF tx l] tx_lawsD(3) [OF tx k] d1 d2 show ?thesis by simp
qed

lemma select_key_done:
  assumes "user_laws D com wrk" and "select_key D key d = (Inr existing, d')"
  shows "wrk d' = wrk d \<and> t_keys (wrk d) key = existing"
proof -
  obtain r d1 where q: "q_SelectKey D key d = (r, d1)" by fastforce
  from user_lawsD(7) [OF assms(1) q] assms(2) q show ?thesis
    by (auto simp: select_key_def split: sum.splits if_splits)
qed

lemma idem_attempt_done:
  assumes "user_laws D com wrk" and "idem_attempt D u ts n key d = (Inr (v, b), d')"
  shows "if b then com d' = com d \<and> (\<exists>i row. t_keys (com d) key = Some i \<and> t_users (com d) i = Some row \<and> v = Some (user_of_row row))
     else t_keys (com d) key = None \<and> v = Some u \<and> room_for (com d) u n \<and>
       com d' = (com d)\<lparr>t_users := (t_users (com d))(u_Id u \<mapsto> micros (row_of u ts)), t_keys := (t_keys (com d))(key \<mapsto> u_Id u)\<rparr>"
proof -
  note tx = user_lawsD(1) [OF assms(1)]
  from assms(2) obtain d1 d2 e1 e2 existing where d1: "wrk d1 = com d" and d2: "com d' = com d2"
    and l: "db_Lock D d1 = (None, e1)" and key: "select_key D key e1 = (Inr existing, e2)"
    and rest: "(case existing of
            Some i \<Rightarrow> sbind (scanUserTx D i) (\<lambda>v. sbind (check (\<lambda>err. err) (db_Commit D)) (\<lambda>_. ret (Some v, True)))
          | None \<Rightarrow> sbind (check_capacity D n) (\<lambda>_. sbind (insert_user D (row_of u ts)) (\<lambda>_.
              sbind (check (Wrapf ''insert idempotency key: '') (q_InsertKey D key (u_Id u))) (\<lambda>_.
              sbind (check (Wrapf ''commit idempotent create: '') (db_Commit D)) (\<lambda>_. ret (Some u, False)))))) e2 = (Inr (v, b), d2)"
    unfolding idem_attempt_def by (elim in_tx_Inr [OF tx]) (auto simp: step_Inr)
  have e1: "wrk e1 = com d" using tx_lawsD(2) [OF tx l] d1 by simp
  have e2: "wrk e2 = com d" "t_keys (com d) key = existing"
    using select_key_done [OF assms(1) key] e1 by simp_all
  show ?thesis
  proof (cases existing)
    case (Some i)
    with rest obtain row e3 where s: "q_SelectUser D i e2 = (Inr row, e3)" and k: "db_Commit D e3 = (None, d2)"
      and vb: "v = Some (user_of_row row)" "b"
      by (auto simp: step_Inr scanUserTx_def)
    from user_lawsD(4) [OF assms(1) s] tx_lawsD(3) [OF tx k] e2 d2 vb Some show ?thesis by auto
  next
    case None
    with rest obtain x y e3 e4 e5 where c: "check_capacity D n e2 = (Inr x, e3)"
      and i: "insert_user D (row_of u ts) e3 = (Inr y, e4)" and ik: "q_InsertKey D key (u_Id u) e4 = (None, e5)"
      and k: "db_Commit D e5 = (None, d2)" and vb: "v = Some u" "\<not> b"
      by (auto simp: step_Inr)
    from insert_steps [OF assms(1) c i] user_lawsD(8) [OF assms(1) ik] tx_lawsD(3) [OF tx k] e2 d2 vb None
    show ?thesis by simp
  qed
qed

text \<open>A creation that fails before its first attempt, or is one of the two retried attempts.\<close>

lemma retry_fail:
  assumes "0 < maxAttempts cfg" and "\<not> isRetryableError err"
  shows "retryOperation V cfg zero (fail err) d = (Inl err, d)"
proof -
  from assms(1) obtain m where "nat (maxAttempts cfg) = Suc m" by (metis gr0_conv_Suc zero_less_nat_eq)
  with assms(2) show ?thesis by (simp add: retryOperation_def fail_def)
qed

lemma userTimes_err: "userTimes u = Inl err \<Longrightarrow> err = ErrInvalid"
  by (auto simp: userTimes_def Let_def split: option.splits if_splits)

lemma ErrInvalid_final [simp]: "\<not> isRetryableError ErrInvalid"
  by (simp add: isRetryableError_def err_simps)

lemma pg_Create_cases:
  assumes "pg_Create V cfg D user n d = (r, d')" and "0 < maxAttempts cfg"
  obtains (early) err where "r = Inl err" "d' = d"
  | (tried) u ts where "user = Some u" "userTimes u = Inr ts"
      "retryOperation V cfg () (create_attempt D u ts n) d = (r, d')"
proof (cases user)
  case None
  with assms(1) early show thesis by (auto simp: pg_Create_def)
next
  case (Some u)
  show thesis
  proof (cases "incomplete user \<or> isl (userTimes u)")
    case True
    then obtain err where "r = Inl err" "d' = d"
      using assms Some userTimes_err [of u] retry_fail [OF assms(2) ErrInvalid_final, of V "()" d]
      by (auto simp: pg_Create_def isl_def split: if_splits)
    then show thesis by (rule early)
  next
    case False
    then obtain ts where "userTimes u = Inr ts" by (cases "userTimes u") auto
    with False Some assms(1) tried show thesis by (auto simp: pg_Create_def create_attempt_def)
  qed
qed

lemma pg_create_cases:
  assumes "pg_CreateWithIdempotency V cfg D user n key d = (r, d')" and "0 < maxAttempts cfg"
  obtains (early) err where "r = Inl err" "d' = d"
  | (plain) u ts r0 where "key = []" "user = Some u" "userTimes u = Inr ts"
      "retryOperation V cfg () (create_attempt D u ts n) d = (r0, d')" "r = map_sum (\<lambda>e. e) (\<lambda>_. (user, False)) r0"
  | (keyed) u ts where "key \<noteq> []" "user = Some u" "userTimes u = Inr ts"
      "retryOperation V cfg (None, False) (idem_attempt D u ts n key) d = (r, d')"
proof (cases "key = []")
  case True
  obtain r0 d0 where c: "pg_Create V cfg D user n d = (r0, d0)" by fastforce
  have r: "d' = d0" "r = map_sum (\<lambda>e. e) (\<lambda>_. (user, False)) r0"
    using assms(1) True c by (auto simp: pg_CreateWithIdempotency_def sbind_def ret_def split: sum.splits)
  from c assms(2) show thesis
    by (cases rule: pg_Create_cases) (use early plain True r in auto)
next
  case False
  show thesis
  proof (cases user)
    case None
    with assms(1) False early show thesis by (auto simp: pg_CreateWithIdempotency_def)
  next
    case (Some u)
    show thesis
    proof (cases "incomplete user \<or> isl (userTimes u)")
      case True
      then obtain err where "r = Inl err" "d' = d"
        using assms Some False userTimes_err [of u] retry_fail [OF assms(2) ErrInvalid_final, of V "(None, False) :: User option \<times> bool" d]
        by (auto simp: pg_CreateWithIdempotency_def isl_def split: if_splits)
      then show thesis by (rule early)
    next
      case ok: False
      then obtain ts where "userTimes u = Inr ts" by (cases "userTimes u") auto
      with ok False Some assms(1) keyed show thesis by (auto simp: pg_CreateWithIdempotency_def idem_attempt_def)
    qed
  qed
qed


section \<open>Changing and listing users\<close>

definition rmu_attempt where
  "rmu_attempt D i f =
     in_tx D (Wrapf ''begin read-modify-update: '')
       (sbind (query (\<lambda>err. if errors_Is err sql_ErrNoRows then ErrNotFound
                            else Wrapf ''lock user for read-modify-update: '' err) (q_SelectUserForUpdate D i)) (\<lambda>row.
          case f (user_of_row row) of
            Inl err \<Rightarrow> fail err
          | Inr working \<Rightarrow>
              (case userTimes working of
                 Inl err \<Rightarrow> fail err
               | Inr ts \<Rightarrow>
                   sbind (query (Wrapf ''update user in read-modify-update: '') (q_UpdateUser D (row_of working ts))) (\<lambda>_.
                   sbind (check (Wrapf ''commit read-modify-update: '') (db_Commit D)) (\<lambda>_.
                   ret (Some working))))))"

lemma rmu_attempt_clean:
  assumes "user_laws D com wrk"
  shows "fails_clean com (rmu_attempt D i f)"
proof -
  note last = last_clean [OF commit_clean' [OF assms]]
  have upd: "quiet com (query w (q_UpdateUser D row))" for w row
    by (intro query_quiet) (auto dest: user_lawsD(6) [OF assms])
  have sel: "quiet com (query w (q_SelectUserForUpdate D i))" for w
    by (intro query_quiet) (auto dest: user_lawsD(5) [OF assms])
  have "fails_clean com (case f (user_of_row row) of Inl err \<Rightarrow> fail err
          | Inr working \<Rightarrow> (case userTimes working of Inl err \<Rightarrow> fail err
               | Inr ts \<Rightarrow> sbind (query (Wrapf ''update user in read-modify-update: '') (q_UpdateUser D (row_of working ts))) (\<lambda>_.
                   sbind (check (Wrapf ''commit read-modify-update: '') (db_Commit D)) (\<lambda>_. ret (Some working)))))" for row
    using quiet_clean [OF quiet_ret(2)]
    by (cases "f (user_of_row row)"; simp; cases "userTimes (projr (f (user_of_row row)))")
       (simp_all add: last sbind_clean upd)
  then show ?thesis
    unfolding rmu_attempt_def by (intro in_tx_clean [OF user_lawsD(1) [OF assms]] sbind_clean sel)
qed

lemma rmu_attempt_done:
  assumes "user_laws D com wrk" and "rmu_attempt D i f d = (Inr v, d')"
  shows "\<exists>row u ts. t_users (com d) i = Some row \<and> f (user_of_row row) = Inr u \<and> v = Some u \<and> userTimes u = Inr ts \<and>
     com d' = (if u_Id u \<in> dom (t_users (com d))
               then (com d)\<lparr>t_users := (t_users (com d))(u_Id u \<mapsto> micros (row_of u ts))\<rparr> else com d)"
proof -
  note tx = user_lawsD(1) [OF assms(1)]
  from assms(2) obtain d1 d2 e1 row where d1: "wrk d1 = com d" and d2: "com d' = com d2"
    and s: "q_SelectUserForUpdate D i d1 = (Inr row, e1)"
    and rest: "(case f (user_of_row row) of Inl err \<Rightarrow> fail err
          | Inr working \<Rightarrow> (case userTimes working of Inl err \<Rightarrow> fail err
               | Inr ts \<Rightarrow> sbind (query (Wrapf ''update user in read-modify-update: '') (q_UpdateUser D (row_of working ts))) (\<lambda>_.
                   sbind (check (Wrapf ''commit read-modify-update: '') (db_Commit D)) (\<lambda>_. ret (Some working))))) e1 = (Inr v, d2)"
    unfolding rmu_attempt_def by (elim in_tx_Inr [OF tx]) (auto simp: step_Inr)
  from rest obtain u ts n e2 where u: "f (user_of_row row) = Inr u" "userTimes u = Inr ts" "v = Some u"
    and up: "q_UpdateUser D (row_of u ts) e1 = (Inr n, e2)" and k: "db_Commit D e2 = (None, d2)"
    by (auto simp: step_Inr split: sum.splits)
  from user_lawsD(5) [OF assms(1) s] d1 have e1: "wrk e1 = com d" "t_users (com d) i = Some row" by auto
  from user_lawsD(6) [OF assms(1) up] tx_lawsD(3) [OF tx k] e1 d2
  have "com d' = (if u_Id u \<in> dom (t_users (com d))
      then (com d)\<lparr>t_users := (t_users (com d))(u_Id u \<mapsto> micros (row_of u ts))\<rparr> else com d)"
    by (simp add: row_of_def)
  with u e1 show ?thesis by blast
qed


definition store_of :: "tables \<Rightarrow> store" where
  "store_of T = (\<lambda>i. map_option user_of_row (t_users T i))"

definition keyed :: "tables \<Rightarrow> bool" where
  "keyed T \<longleftrightarrow> finite (dom (t_users T)) \<and> (\<forall>i row. t_users T i = Some row \<longrightarrow> r_id row = i)"

lemma dom_store_of [simp]: "dom (store_of T) = dom (t_users T)"
  by (auto simp: store_of_def)

text \<open>The page the code cuts from \<open>limit + 1\<close> rows is the page of the store.\<close>

definition cut_page :: "nat \<Rightarrow> User list \<Rightarrow> User list \<times> string" where
  "cut_page n us = (if length us > n then (take n us, u_Id (take n us ! (n - 1))) else (us, []))"

lemma cut_page_of:
  assumes "keyed T" and "0 < n"
  shows "cut_page n (map user_of_row (rows_after (t_users T) a (Suc n))) = page_of (store_of T) n a"
proof -
  define ids where "ids = ids_after (store_of T) a"
  have fin: "finite (dom (store_of T))" using assms(1) by (simp add: keyed_def)
  have us: "map user_of_row (rows_after (t_users T) a (Suc n)) = map (\<lambda>i. the (store_of T i)) (take (Suc n) ids)"
  proof -
    have "user_of_row (the (t_users T i)) = the (store_of T i)" if "i \<in> set (take (Suc n) ids)" for i
    proof -
      have "i \<in> dom (t_users T)" using that fin by (auto simp: ids_def dest!: in_set_takeD)
      then show ?thesis by (auto simp: store_of_def)
    qed
    then show ?thesis by (simp add: rows_after_def ids_def ids_after_def)
  qed
  have id_of: "u_Id (the (store_of T i)) = i" if "i \<in> set ids" for i
  proof -
    from that fin have "i \<in> dom (t_users T)" by (simp add: ids_def)
    then obtain row where "t_users T i = Some row" by blast
    with assms(1) show ?thesis by (simp add: store_of_def keyed_def user_of_row_def)
  qed
  show ?thesis
  proof (cases "length ids > n")
    case False
    then show ?thesis unfolding us by (simp add: cut_page_def page_of_def Let_def ids_def [symmetric])
  next
    case True
    have "take n (take (Suc n) ids) = take n ids" by simp
    moreover have "last (take n ids) = ids ! (n - 1)" using True assms(2) by (subst last_conv_nth) auto
    moreover have "ids ! (n - 1) \<in> set ids" using True assms(2) by simp
    ultimately show ?thesis
      unfolding us using True assms(2) id_of
      by (simp add: cut_page_def page_of_def Let_def ids_def [symmetric] take_map)
  qed
qed

definition list_attempt where
  "list_attempt D limit afterID =
     sbind (query (Wrapf ''list users: '') (x_ListUsers D afterID (wrap64 (limit + 1)))) (\<lambda>(rs, rowsErr).
       case scan_users rs of
         Inl err \<Rightarrow> fail err
       | Inr collected \<Rightarrow>
           (case rowsErr of
              Some err \<Rightarrow> fail (Wrapf ''iterate users: '' err)
            | None \<Rightarrow>
                if int (length collected) > limit
                then (let page = take (nat limit) collected in ret (page, u_Id (page ! (length page - 1))))
                else ret (collected, [])))"

lemma list_attempt_clean:
  assumes "user_laws D com wrk"
  shows "fails_clean com (list_attempt D limit a)"
proof -
  have q: "quiet com (query w (x_ListUsers D a k))" for w k
    by (intro query_quiet) (auto dest: user_lawsD(9) [OF assms])
  show ?thesis
    unfolding list_attempt_def
    by (rule quiet_clean, rule sbind_quiet [OF q])
       (auto simp: Let_def split: sum.splits option.splits prod.splits)
qed

lemma list_attempt_done:
  assumes "0 < limit" and "list_attempt D limit a d = (Inr p, d')"
  shows "\<exists>rs us. x_ListUsers D a (wrap64 (limit + 1)) d = (Inr (rs, None), d') \<and> scan_users rs = Inr us \<and>
     p = cut_page (nat limit) us"
proof -
  from assms(2) obtain rs rowsErr d1 where q: "x_ListUsers D a (wrap64 (limit + 1)) d = (Inr (rs, rowsErr), d1)"
    and rest: "(case scan_users rs of Inl err \<Rightarrow> fail err
       | Inr collected \<Rightarrow> (case rowsErr of Some err \<Rightarrow> fail (Wrapf ''iterate users: '' err)
            | None \<Rightarrow> if int (length collected) > limit
                then (let page = take (nat limit) collected in ret (page, u_Id (page ! (length page - 1))))
                else ret (collected, []))) d1 = (Inr p, d')"
    by (auto simp: list_attempt_def step_Inr)
  from rest obtain us where us: "scan_users rs = Inr us" "rowsErr = None" by (auto split: sum.splits option.splits)
  have "limit < int (length us) \<longleftrightarrow> nat limit < length us" using assms(1) by linarith
  with rest us have "d' = d1" "p = cut_page (nat limit) us" by (auto simp: cut_page_def Let_def split: if_splits)
  with q us show ?thesis by auto
qed


section \<open>The properties at concrete inputs\<close>

text \<open>A database that keeps a committed and a working copy of the tables and has one lost connection:
  its first transaction cannot begin.\<close>

record tdb =
  c_tab :: tables
  w_tab :: tables
  lost :: bool

definition table_db :: "tdb UserDB" where
  "table_db =
     \<lparr>db_Begin = \<lambda>d. if lost d then (Some io_EOF, d\<lparr>lost := False\<rparr>) else (None, d\<lparr>w_tab := c_tab d\<rparr>),
      db_Lock = \<lambda>d. (None, d),
      db_Commit = \<lambda>d. (None, d\<lparr>c_tab := w_tab d\<rparr>),
      db_Rollback = \<lambda>d. d\<lparr>w_tab := c_tab d\<rparr>,
      q_Count = \<lambda>d. (Inr (int (card (dom (t_users (w_tab d))))), d),
      q_InsertUser = \<lambda>row d. if r_id row \<in> dom (t_users (w_tab d)) then (Some (PgError ''23505'' ''duplicate key''), d)
        else (None, d\<lparr>w_tab := (w_tab d)\<lparr>t_users := (t_users (w_tab d))(r_id row \<mapsto> micros row)\<rparr>\<rparr>),
      q_SelectUser = \<lambda>i d. (case t_users (w_tab d) i of None \<Rightarrow> Inl sql_ErrNoRows | Some row \<Rightarrow> Inr row, d),
      q_SelectUserForUpdate = \<lambda>i d. (case t_users (w_tab d) i of None \<Rightarrow> Inl sql_ErrNoRows | Some row \<Rightarrow> Inr row, d),
      q_ExistsForUpdate = \<lambda>i d. (Inr (i \<in> dom (t_users (w_tab d))), d),
      q_UpdateUser = \<lambda>row d. if r_id row \<in> dom (t_users (w_tab d))
        then (Inr (Inr 1), d\<lparr>w_tab := (w_tab d)\<lparr>t_users := (t_users (w_tab d))(r_id row \<mapsto> micros row)\<rparr>\<rparr>)
        else (Inr (Inr 0), d),
      q_SelectKey = \<lambda>key d. (case t_keys (w_tab d) key of None \<Rightarrow> Inl sql_ErrNoRows | Some i \<Rightarrow> Inr i, d),
      q_InsertKey = \<lambda>key i d. (None, d\<lparr>w_tab := (w_tab d)\<lparr>t_keys := (t_keys (w_tab d))(key \<mapsto> i)\<rparr>\<rparr>),
      x_SelectUser = \<lambda>i d. (case t_users (c_tab d) i of None \<Rightarrow> Inl sql_ErrNoRows | Some row \<Rightarrow> Inr row, d),
      x_DeleteUser = \<lambda>i d. (Inr (Inr (if i \<in> dom (t_users (c_tab d)) then 1 else 0)),
        d\<lparr>c_tab := (c_tab d)\<lparr>t_users := (t_users (c_tab d))(i := None),
          t_keys := (\<lambda>k. if t_keys (c_tab d) k = Some i then None else t_keys (c_tab d) k)\<rparr>\<rparr>),
      x_ListUsers = \<lambda>a k d. (Inr (map Inr (rows_after (t_users (c_tab d)) a (nat k)), None), d),
      x_Ping = \<lambda>d. (None, d), x_Close = \<lambda>d. (None, d)\<rparr>"

lemma scan_users_Inr: "scan_users (map Inr rows) = Inr (map user_of_row rows)"
  by (induction rows) simp_all

lemma table_db_laws: "user_laws table_db c_tab w_tab"
  unfolding user_laws_def
proof (intro conjI)
  show "tx_laws table_db c_tab w_tab" by (simp add: tx_laws_def table_db_def)
  show "law_Count table_db c_tab w_tab" by (auto simp: law_Count_def table_db_def)
  show "law_InsertUser table_db c_tab w_tab" by (auto simp: law_InsertUser_def table_db_def split: if_splits)
  show "law_SelectUser (q_SelectUser table_db) c_tab w_tab" by (auto simp: law_SelectUser_def table_db_def split: option.splits)
  show "law_SelectUser (q_SelectUserForUpdate table_db) c_tab w_tab"
    by (auto simp: law_SelectUser_def table_db_def split: option.splits)
  show "law_Exists table_db c_tab w_tab" by (auto simp: law_Exists_def table_db_def)
  show "law_UpdateUser table_db c_tab w_tab" by (auto simp: law_UpdateUser_def table_db_def)
  show "law_SelectKey table_db c_tab w_tab" by (auto simp: law_SelectKey_def table_db_def split: option.splits)
  show "law_InsertKey table_db c_tab w_tab" by (auto simp: law_InsertKey_def table_db_def)
  show "law_pool_Select table_db c_tab" by (auto simp: law_pool_Select_def table_db_def split: option.splits)
  show "law_pool_Delete table_db c_tab" by (auto simp: law_pool_Delete_def table_db_def)
  show "law_pool_List table_db c_tab" by (auto simp: law_pool_List_def table_db_def scan_users_Inr)
qed

definition pg_user :: User where
  "pg_user = \<lparr>u_Id = ''user-1'', u_Name = ''Ada'', u_Email = ''ada@example.com'', u_Age = 36,
     u_CreatedAt = Some \<lparr>ts_Seconds = 1, ts_Nanos = 1500\<rparr>, u_UpdatedAt = Some \<lparr>ts_Seconds = 1, ts_Nanos = 1500\<rparr>\<rparr>"

definition pg_db :: "(string \<rightharpoonup> user_row) \<Rightarrow> tdb" where
  "pg_db m = \<lparr>c_tab = \<lparr>t_users = m, t_keys = Map.empty\<rparr>, w_tab = \<lparr>t_users = m, t_keys = Map.empty\<rparr>, lost = True\<rparr>"

definition pg_cfg :: retryConfig where
  "pg_cfg = \<lparr>maxAttempts = 3, baseBackoff = 1, maxBackoff = 1\<rparr>"

definition calm :: retry_env where
  "calm = \<lparr>re_done = \<lambda>_. None, re_wait = \<lambda>_ _. None, re_draw = \<lambda>_ _. None\<rparr>"

lemma calm_simps [simp]: "retry_pause calm cfg a = None" "maxAttempts pg_cfg = 3"
  by (simp_all add: retry_pause_def calm_def pg_cfg_def)

lemma pg_user_id: "u_Id pg_user = ''user-1''"
  by (simp add: pg_user_def)

lemma pg_user_times: "userTimes pg_user = Inr (1000001500, 1000001500)" "\<not> incomplete (Some pg_user)"
  by (simp_all add: userTimes_def pg_user_def AsTime_def time_IsZero_def incomplete_def Let_def)




end
