(* ===== verification/Service_Config.thy ===== *)
theory Service_Config
  imports App_Errors
begin

text \<open>
  The configuration contract of \<open>pkg/config/config.go\<close>: the configuration structures, the
  environment overrides in the order of \<open>applyEnvironment\<close>, the checks of \<open>Validate\<close> in their
  order with their messages, and \<open>Load\<close>.

  A \<open>config_lib\<close> holds what the code takes from outside: the environment and the file system
  of the process, the YAML decoder, \<open>net/url.ParseRequestURI\<close> and \<open>time.ParseDuration\<close>.
  Durations are nanoseconds; the type variable \<open>'f\<close> stands for \<open>float64\<close>.
\<close>

section \<open>Structures\<close>

record ServerConfig =
  sv_Host :: string
  sv_Port :: int
  sv_MaxConns :: int
  sv_Timeout :: int
  sv_MaxRecvMessageMB :: int
  sv_MaxSendMessageMB :: int
  sv_MaxUsers :: int
  sv_MaxStreamMessages :: int
  sv_MaxStringBytes :: int
  sv_StreamInterval :: int
  sv_RateLimitPerSecond :: int
  sv_RateLimitBurst :: int
  sv_PerClientRateLimitPerSecond :: int
  sv_PerClientRateLimitBurst :: int
  sv_MaxInFlightRequests :: int

record MTLSConfig =
  mtls_Enabled :: bool
  mtls_ClientCAFile :: string

record TLSConfig =
  tls_Enabled :: bool
  tls_CertFile :: string
  tls_KeyFile :: string
  tls_CAFile :: string
  tls_ClientCertFile :: string
  tls_ClientKeyFile :: string
  tls_MTLS :: MTLSConfig

record AuthConfig =
  au_JWTSecret :: string
  au_APIKeys :: "string list"
  au_JWTAudience :: string
  au_JWTIssuer :: string
  au_JWTPublicKey :: string
  au_AuditAllows :: bool
  au_MethodScopes :: "(string, string list) gomap"
  au_APIKeyScopes :: "string list"
  au_DefaultDeny :: bool

record LoggingConfig =
  lg_Level :: string
  lg_Format :: string

record 'f TracingConfig =
  tr_Enabled :: bool
  tr_Endpoint :: string
  tr_ServiceName :: string
  tr_SampleRatio :: 'f

record MetricsConfig =
  mt_Enabled :: bool
  mt_Port :: int

record GatewayConfig =
  gw_Enabled :: bool
  gw_Port :: int

record HealthConfig =
  hl_Port :: int

record CacheConfig =
  cc_Enabled :: bool
  cc_TTL :: int

record cfg_CircuitBreakerConfig =
  cbc_Enabled :: bool
  cbc_FailureThreshold :: int
  cbc_SuccessThreshold :: int
  cbc_OpenTimeout :: int
  cbc_MaxHalfOpenRequests :: int

record StorageConfig =
  sg_Backend :: string
  sg_URL :: string
  sg_MaxOpenConns :: int
  sg_MaxIdleConns :: int
  sg_ConnMaxLifetime :: int
  sg_PingTimeout :: int
  sg_RetryAttempts :: int
  sg_RetryBackoff :: int
  sg_RetryMaxBackoff :: int
  sg_CircuitBreaker :: cfg_CircuitBreakerConfig
  sg_Cache :: CacheConfig

record ClientConfig =
  cl_Address :: string
  cl_ServerName :: string
  cl_AuthToken :: string

record 'f Config =
  cfg_Server :: ServerConfig
  cfg_TLS :: TLSConfig
  cfg_Auth :: AuthConfig
  cfg_Logging :: LoggingConfig
  cfg_Tracing :: "'f TracingConfig"
  cfg_Metrics :: MetricsConfig
  cfg_Health :: HealthConfig
  cfg_Storage :: StorageConfig
  cfg_Gateway :: GatewayConfig
  cfg_Reflection :: bool
  cfg_Client :: ClientConfig

record URL =
  url_Scheme :: string
  url_Host :: string
  url_User :: "string option"
  url_RawQuery :: string
  url_Fragment :: string

record 'f config_lib =
  LookupEnv :: "string \<Rightarrow> string option"
  os_ReadFile :: "string \<Rightarrow> string result"
  yaml_Decode :: "string \<Rightarrow> ('f Config) result"
  ParseRequestURI :: "string \<Rightarrow> URL result"
  ParseDuration :: "string \<Rightarrow> int result"

section \<open>Environment overrides\<close>

text \<open>
  A setter takes the name of its variable and the update of its target, and returns the
  configuration with the error of a value that does not parse.
\<close>

definition NumError :: "string \<Rightarrow> string \<Rightarrow> string \<Rightarrow> go_error" where
  "NumError func num reason = ErrorString (''strconv.'' @ func @ '': parsing '' @ quote num @ '': '' @ reason)"

definition Atoi :: "string \<Rightarrow> int result" where
  "Atoi s =
     (case ParseInt s of
        Some n \<Rightarrow> Inr n
      | None \<Rightarrow>
          (let ds = (if HasPrefix s ''-'' \<or> HasPrefix s ''+'' then tl s else s)
           in Inl (NumError ''Atoi'' s
                (if ds \<noteq> [] \<and> digits_val 0 ds \<noteq> None then ''value out of range'' else ''invalid syntax''))))"

definition ParseBool :: "string \<Rightarrow> bool result" where
  "ParseBool s =
     (if s \<in> set [''1'', ''t'', ''T'', ''TRUE'', ''true'', ''True''] then Inr True
      else if s \<in> set [''0'', ''f'', ''F'', ''FALSE'', ''false'', ''False''] then Inr False
      else Inl (NumError ''ParseBool'' s ''invalid syntax''))"

type_synonym 'f setter = "'f Config \<Rightarrow> 'f Config \<times> go_error option"

definition setString :: "'f config_lib \<Rightarrow> string \<Rightarrow> (string \<Rightarrow> 'f Config \<Rightarrow> 'f Config) \<Rightarrow> 'f setter" where
  "setString L name target c =
     (case LookupEnv L name of Some val \<Rightarrow> (target val c, None) | None \<Rightarrow> (c, None))"

definition set_parsed ::
  "'f config_lib \<Rightarrow> (string \<Rightarrow> 'a result) \<Rightarrow> string \<Rightarrow> string \<Rightarrow> ('a \<Rightarrow> 'f Config \<Rightarrow> 'f Config) \<Rightarrow> 'f setter" where
  "set_parsed L parse must name target c =
     (case LookupEnv L name of
        None \<Rightarrow> (c, None)
      | Some val \<Rightarrow>
          (case parse val of
             Inl err \<Rightarrow> (c, Some (Wrapf (name @ must) err))
           | Inr parsed \<Rightarrow> (target parsed c, None)))"

definition setInt :: "'f config_lib \<Rightarrow> string \<Rightarrow> (int \<Rightarrow> 'f Config \<Rightarrow> 'f Config) \<Rightarrow> 'f setter" where
  "setInt L = set_parsed L Atoi '' must be an integer: ''"

definition setBool :: "'f config_lib \<Rightarrow> string \<Rightarrow> (bool \<Rightarrow> 'f Config \<Rightarrow> 'f Config) \<Rightarrow> 'f setter" where
  "setBool L = set_parsed L ParseBool '' must be boolean: ''"

definition setDuration :: "'f config_lib \<Rightarrow> string \<Rightarrow> (int \<Rightarrow> 'f Config \<Rightarrow> 'f Config) \<Rightarrow> 'f setter" where
  "setDuration L = set_parsed L (ParseDuration L) '' must be a duration: ''"

definition splitNonEmpty :: "string \<Rightarrow> string list" where
  "splitNonEmpty val = filter (\<lambda>key. key \<noteq> []) (map TrimSpace (Split CHR '','' val))"

definition setList :: "'f config_lib \<Rightarrow> string \<Rightarrow> (string list \<Rightarrow> 'f Config \<Rightarrow> 'f Config) \<Rightarrow> 'f setter" where
  "setList L name target c =
     (case LookupEnv L name of Some val \<Rightarrow> (target (splitNonEmpty val) c, None) | None \<Rightarrow> (c, None))"

definition firstError :: "go_error option \<Rightarrow> go_error option \<Rightarrow> go_error option" where
  "firstError current new = (if current \<noteq> None then current else new)"

fun run_setters :: "('f setter) list \<Rightarrow> go_error option \<Rightarrow> 'f setter" where
  "run_setters [] err c = (c, err)"
| "run_setters (s # ss) err c = (case s c of (c', e) \<Rightarrow> run_setters ss (firstError err e) c')"

definition environment_setters :: "'f config_lib \<Rightarrow> ('f setter) list" where
  "environment_setters L =
     [setString L ''SERVER_HOST'' (\<lambda>v. cfg_Server_update (sv_Host_update (\<lambda>_. v))),
      setInt L ''SERVER_PORT'' (\<lambda>v. cfg_Server_update (sv_Port_update (\<lambda>_. v))),
      setInt L ''SERVER_MAX_CONNS'' (\<lambda>v. cfg_Server_update (sv_MaxConns_update (\<lambda>_. v))),
      setDuration L ''SERVER_TIMEOUT'' (\<lambda>v. cfg_Server_update (sv_Timeout_update (\<lambda>_. v))),
      setInt L ''SERVER_MAX_RECV_MESSAGE_MB'' (\<lambda>v. cfg_Server_update (sv_MaxRecvMessageMB_update (\<lambda>_. v))),
      setInt L ''SERVER_MAX_SEND_MESSAGE_MB'' (\<lambda>v. cfg_Server_update (sv_MaxSendMessageMB_update (\<lambda>_. v))),
      setInt L ''SERVER_MAX_USERS'' (\<lambda>v. cfg_Server_update (sv_MaxUsers_update (\<lambda>_. v))),
      setInt L ''SERVER_MAX_STREAM_MESSAGES'' (\<lambda>v. cfg_Server_update (sv_MaxStreamMessages_update (\<lambda>_. v))),
      setInt L ''SERVER_MAX_STRING_BYTES'' (\<lambda>v. cfg_Server_update (sv_MaxStringBytes_update (\<lambda>_. v))),
      setDuration L ''SERVER_STREAM_INTERVAL'' (\<lambda>v. cfg_Server_update (sv_StreamInterval_update (\<lambda>_. v))),
      setInt L ''SERVER_RATE_LIMIT_PER_SECOND'' (\<lambda>v. cfg_Server_update (sv_RateLimitPerSecond_update (\<lambda>_. v))),
      setInt L ''SERVER_RATE_LIMIT_BURST'' (\<lambda>v. cfg_Server_update (sv_RateLimitBurst_update (\<lambda>_. v))),
      setInt L ''SERVER_PER_CLIENT_RATE_LIMIT_PER_SECOND'' (\<lambda>v. cfg_Server_update (sv_PerClientRateLimitPerSecond_update (\<lambda>_. v))),
      setInt L ''SERVER_PER_CLIENT_RATE_LIMIT_BURST'' (\<lambda>v. cfg_Server_update (sv_PerClientRateLimitBurst_update (\<lambda>_. v))),
      setBool L ''CIRCUIT_BREAKER_ENABLED'' (\<lambda>v. cfg_Storage_update (sg_CircuitBreaker_update (cbc_Enabled_update (\<lambda>_. v)))),
      setBool L ''CACHE_ENABLED'' (\<lambda>v. cfg_Storage_update (sg_Cache_update (cc_Enabled_update (\<lambda>_. v)))),
      setDuration L ''CACHE_TTL'' (\<lambda>v. cfg_Storage_update (sg_Cache_update (cc_TTL_update (\<lambda>_. v)))),
      setBool L ''TLS_ENABLED'' (\<lambda>v. cfg_TLS_update (tls_Enabled_update (\<lambda>_. v))),
      setString L ''TLS_CERT_FILE'' (\<lambda>v. cfg_TLS_update (tls_CertFile_update (\<lambda>_. v))),
      setString L ''TLS_KEY_FILE'' (\<lambda>v. cfg_TLS_update (tls_KeyFile_update (\<lambda>_. v))),
      setString L ''TLS_CA_FILE'' (\<lambda>v. cfg_TLS_update (tls_CAFile_update (\<lambda>_. v))),
      setString L ''TLS_CLIENT_CERT_FILE'' (\<lambda>v. cfg_TLS_update (tls_ClientCertFile_update (\<lambda>_. v))),
      setString L ''TLS_CLIENT_KEY_FILE'' (\<lambda>v. cfg_TLS_update (tls_ClientKeyFile_update (\<lambda>_. v))),
      setBool L ''MTLS_ENABLED'' (\<lambda>v. cfg_TLS_update (tls_MTLS_update (mtls_Enabled_update (\<lambda>_. v)))),
      setString L ''MTLS_CLIENT_CA_FILE'' (\<lambda>v. cfg_TLS_update (tls_MTLS_update (mtls_ClientCAFile_update (\<lambda>_. v)))),
      setString L ''JWT_SECRET'' (\<lambda>v. cfg_Auth_update (au_JWTSecret_update (\<lambda>_. v))),
      setString L ''JWT_PUBLIC_KEY'' (\<lambda>v. cfg_Auth_update (au_JWTPublicKey_update (\<lambda>_. v))),
      setString L ''AUTH_JWT_AUDIENCE'' (\<lambda>v. cfg_Auth_update (au_JWTAudience_update (\<lambda>_. v))),
      setString L ''AUTH_JWT_ISSUER'' (\<lambda>v. cfg_Auth_update (au_JWTIssuer_update (\<lambda>_. v))),
      setBool L ''AUTH_AUDIT_ALLOWS'' (\<lambda>v. cfg_Auth_update (au_AuditAllows_update (\<lambda>_. v))),
      setBool L ''AUTH_DEFAULT_DENY'' (\<lambda>v. cfg_Auth_update (au_DefaultDeny_update (\<lambda>_. v))),
      setList L ''AUTH_API_KEY_SCOPES'' (\<lambda>v. cfg_Auth_update (au_APIKeyScopes_update (\<lambda>_. v))),
      setInt L ''SERVER_MAX_IN_FLIGHT_REQUESTS'' (\<lambda>v. cfg_Server_update (sv_MaxInFlightRequests_update (\<lambda>_. v))),
      setList L ''AUTH_API_KEYS'' (\<lambda>v. cfg_Auth_update (au_APIKeys_update (\<lambda>_. v))),
      setString L ''LOG_LEVEL'' (\<lambda>v. cfg_Logging_update (lg_Level_update (\<lambda>_. v))),
      setString L ''LOG_FORMAT'' (\<lambda>v. cfg_Logging_update (lg_Format_update (\<lambda>_. v))),
      setBool L ''TRACING_ENABLED'' (\<lambda>v. cfg_Tracing_update (tr_Enabled_update (\<lambda>_. v))),
      setString L ''TRACING_ENDPOINT'' (\<lambda>v. cfg_Tracing_update (tr_Endpoint_update (\<lambda>_. v))),
      setString L ''TRACING_SERVICE_NAME'' (\<lambda>v. cfg_Tracing_update (tr_ServiceName_update (\<lambda>_. v))),
      setBool L ''METRICS_ENABLED'' (\<lambda>v. cfg_Metrics_update (mt_Enabled_update (\<lambda>_. v))),
      setInt L ''METRICS_PORT'' (\<lambda>v. cfg_Metrics_update (mt_Port_update (\<lambda>_. v))),
      setInt L ''HEALTH_PORT'' (\<lambda>v. cfg_Health_update (hl_Port_update (\<lambda>_. v))),
      setBool L ''GATEWAY_ENABLED'' (\<lambda>v. cfg_Gateway_update (gw_Enabled_update (\<lambda>_. v))),
      setInt L ''GATEWAY_PORT'' (\<lambda>v. cfg_Gateway_update (gw_Port_update (\<lambda>_. v))),
      setString L ''CLIENT_ADDRESS'' (\<lambda>v. cfg_Client_update (cl_Address_update (\<lambda>_. v))),
      setString L ''CLIENT_SERVER_NAME'' (\<lambda>v. cfg_Client_update (cl_ServerName_update (\<lambda>_. v))),
      setString L ''CLIENT_AUTH_TOKEN'' (\<lambda>v. cfg_Client_update (cl_AuthToken_update (\<lambda>_. v))),
      setString L ''STORAGE_BACKEND'' (\<lambda>v. cfg_Storage_update (sg_Backend_update (\<lambda>_. v))),
      setString L ''DATABASE_URL'' (\<lambda>v. cfg_Storage_update (sg_URL_update (\<lambda>_. v))),
      setInt L ''STORAGE_MAX_OPEN_CONNS'' (\<lambda>v. cfg_Storage_update (sg_MaxOpenConns_update (\<lambda>_. v))),
      setInt L ''STORAGE_MAX_IDLE_CONNS'' (\<lambda>v. cfg_Storage_update (sg_MaxIdleConns_update (\<lambda>_. v))),
      setDuration L ''STORAGE_CONN_MAX_LIFETIME'' (\<lambda>v. cfg_Storage_update (sg_ConnMaxLifetime_update (\<lambda>_. v))),
      setDuration L ''STORAGE_PING_TIMEOUT'' (\<lambda>v. cfg_Storage_update (sg_PingTimeout_update (\<lambda>_. v))),
      setInt L ''STORAGE_RETRY_ATTEMPTS'' (\<lambda>v. cfg_Storage_update (sg_RetryAttempts_update (\<lambda>_. v))),
      setDuration L ''STORAGE_RETRY_BACKOFF'' (\<lambda>v. cfg_Storage_update (sg_RetryBackoff_update (\<lambda>_. v))),
      setDuration L ''STORAGE_RETRY_MAX_BACKOFF'' (\<lambda>v. cfg_Storage_update (sg_RetryMaxBackoff_update (\<lambda>_. v)))]"

definition applyEnvironment :: "'f config_lib \<Rightarrow> 'f setter" where
  "applyEnvironment L = run_setters (environment_setters L) None"

section \<open>Validation\<close>

definition minJWTSecretBytes :: nat where
  "minJWTSecretBytes = 32"

definition validPort :: "int \<Rightarrow> bool" where
  "validPort port \<longleftrightarrow> 1 \<le> port \<and> port \<le> 65535"

definition isLogLevel :: "string \<Rightarrow> bool" where
  "isLogLevel level \<longleftrightarrow>
     ToLower level \<in> set [''trace'', ''debug'', ''info'', ''warn'', ''error'', ''fatal'', ''panic'']"

text \<open>The index of the first API key below the minimal length.\<close>

fun short_key :: "nat \<Rightarrow> string list \<Rightarrow> nat option" where
  "short_key i [] = None"
| "short_key i (key # ks) = (if length key < 16 then Some i else short_key (Suc i) ks)"

text \<open>The conditions of \<open>Validate\<close>, each with the message of its error, in the order of the code.\<close>

definition validate_server :: "ServerConfig \<Rightarrow> (bool \<times> string) list" where
  "validate_server s =
     [(blank (sv_Host s), ''server.host is required''),
      (sv_Port s < 1 \<or> sv_Port s > 65535, ''server.port must be between 1 and 65535''),
      (sv_MaxConns s < 1, ''server.max_conns must be positive''),
      (sv_Timeout s \<le> 0, ''server.timeout must be positive''),
      (sv_MaxRecvMessageMB s < 1 \<or> sv_MaxSendMessageMB s < 1, ''server message limits must be positive''),
      (sv_MaxUsers s < 1 \<or> sv_MaxStreamMessages s < 1 \<or> sv_MaxStringBytes s < 1,
        ''server resource limits must be positive''),
      (sv_StreamInterval s \<le> 0, ''server.stream_interval must be positive''),
      (sv_RateLimitPerSecond s < 1 \<or> sv_RateLimitBurst s < 1, ''server rate limit values must be positive''),
      (sv_PerClientRateLimitPerSecond s < 1 \<or> sv_PerClientRateLimitBurst s < 1,
        ''server per-client rate limit values must be positive'')]"

definition validate_tls :: "TLSConfig \<Rightarrow> (bool \<times> string) list" where
  "validate_tls t =
     [(tls_Enabled t \<and> (blank (tls_CertFile t) \<or> blank (tls_KeyFile t)),
        ''tls.cert_file and tls.key_file are required when TLS is enabled''),
      (tls_Enabled t \<and> mtls_Enabled (tls_MTLS t) \<and> blank (mtls_ClientCAFile (tls_MTLS t)),
        ''tls.mtls.client_ca_file is required when mTLS is enabled''),
      (mtls_Enabled (tls_MTLS t) \<and> \<not> tls_Enabled t, ''tls.mtls.enabled requires tls.enabled'')]"

definition validate_auth :: "AuthConfig \<Rightarrow> (bool \<times> string) list" where
  "validate_auth a =
     [(blank (au_JWTSecret a) \<and> length (au_APIKeys a) = 0 \<and> blank (au_JWTPublicKey a),
        ''at least one of auth.jwt_secret, auth.jwt_public_key, or auth.api_keys is required''),
      (au_JWTSecret a \<noteq> [] \<and> length (au_JWTSecret a) < minJWTSecretBytes,
        ''auth.jwt_secret must be at least '' @ show_nat minJWTSecretBytes @ '' bytes''),
      (TrimSpace (au_JWTPublicKey a) \<noteq> [] \<and> \<not> Contains (TrimSpace (au_JWTPublicKey a)) ''-----BEGIN'',
        ''auth.jwt_public_key must be a PEM-encoded public key''),
      (case short_key 0 (au_APIKeys a) of
         None \<Rightarrow> (False, [])
       | Some i \<Rightarrow> (True, ''auth.api_keys['' @ show_nat i @ ''] must be at least 16 characters''))]"

definition validate_observability ::
  "'f config_lib \<Rightarrow> LoggingConfig \<Rightarrow> 'f TracingConfig \<Rightarrow> (bool \<times> string) list" where
  "validate_observability L lg tr =
     [(lg_Level lg = [], ''logging.level is required''),
      (\<not> isLogLevel (lg_Level lg), ''logging.level '' @ quote (lg_Level lg) @ '' is invalid''),
      (lg_Format lg \<noteq> ''json'' \<and> lg_Format lg \<noteq> ''console'', ''logging.format must be json or console''),
      (tr_Enabled tr \<and> tr_ServiceName tr = [], ''tracing.service_name is required when tracing is enabled''),
      (tr_Enabled tr \<and>
        (case ParseRequestURI L (tr_Endpoint tr) of
           Inl err \<Rightarrow> True
         | Inr u \<Rightarrow> url_Host u = [] \<or> (ToLower (url_Scheme u) \<noteq> ''http'' \<and> ToLower (url_Scheme u) \<noteq> ''https'') \<or>
             url_User u \<noteq> None \<or> url_RawQuery u \<noteq> [] \<or> url_Fragment u \<noteq> []),
        ''tracing.endpoint must be an absolute URL when tracing is enabled'')]"

definition validate_ports :: "MetricsConfig \<Rightarrow> GatewayConfig \<Rightarrow> HealthConfig \<Rightarrow> (bool \<times> string) list" where
  "validate_ports m g h =
     [(mt_Enabled m \<and> \<not> validPort (mt_Port m), ''metrics.port must be between 1 and 65535''),
      (mt_Enabled m \<and> mt_Port m = hl_Port h, ''metrics.port and health.port must differ''),
      (gw_Enabled g \<and> \<not> validPort (gw_Port g), ''gateway.port must be between 1 and 65535''),
      (gw_Enabled g \<and> (gw_Port g = hl_Port h \<or> (mt_Enabled m \<and> gw_Port g = mt_Port m)),
        ''gateway.port must differ from health.port and metrics.port''),
      (\<not> validPort (hl_Port h), ''health.port must be between 1 and 65535'')]"

definition validate_storage :: "StorageConfig \<Rightarrow> (bool \<times> string) list" where
  "validate_storage s =
     (let cb = sg_CircuitBreaker s; cache = sg_Cache s in
     [(sg_Backend s \<noteq> ''memory'' \<and> sg_Backend s \<noteq> ''postgres'', ''storage.backend must be memory or postgres''),
      (sg_MaxOpenConns s < 1 \<or> sg_MaxIdleConns s < 0 \<or> sg_MaxIdleConns s > sg_MaxOpenConns s,
        ''storage connection pool limits are invalid''),
      (sg_ConnMaxLifetime s \<le> 0 \<or> sg_PingTimeout s \<le> 0, ''storage timeouts must be positive''),
      (sg_RetryAttempts s < 0, ''storage.retry_attempts must be non-negative''),
      (sg_RetryBackoff s \<le> 0, ''storage.retry_backoff must be positive''),
      (sg_RetryMaxBackoff s \<le> 0, ''storage.retry_max_backoff must be positive''),
      (cbc_Enabled cb \<and> cbc_FailureThreshold cb < 1, ''storage.circuit_breaker.failure_threshold must be positive''),
      (cbc_Enabled cb \<and> cbc_SuccessThreshold cb < 1, ''storage.circuit_breaker.success_threshold must be positive''),
      (cbc_Enabled cb \<and> cbc_OpenTimeout cb \<le> 0, ''storage.circuit_breaker.open_timeout must be positive''),
      (cbc_Enabled cb \<and> cbc_MaxHalfOpenRequests cb < 1,
        ''storage.circuit_breaker.max_half_open_requests must be positive''),
      (cc_Enabled cache \<and> cc_TTL cache \<le> 0, ''storage.cache.ttl must be positive when cache is enabled''),
      (sg_Backend s = ''postgres'' \<and> blank (sg_URL s), ''storage.url is required for postgres'')])"

definition validations :: "'f config_lib \<Rightarrow> 'f Config \<Rightarrow> (bool \<times> string) list" where
  "validations L c =
     validate_server (cfg_Server c) @ validate_tls (cfg_TLS c) @ validate_auth (cfg_Auth c) @
     validate_observability L (cfg_Logging c) (cfg_Tracing c) @
     validate_ports (cfg_Metrics c) (cfg_Gateway c) (cfg_Health c) @
     validate_storage (cfg_Storage c) @
     [(cl_Address (cfg_Client c) = [], ''client.address is required'')]"

definition Validate :: "'f config_lib \<Rightarrow> 'f Config option \<Rightarrow> go_error option" where
  "Validate L co =
     (case co of
        None \<Rightarrow> Some (ErrorString ''config is nil'')
      | Some c \<Rightarrow> map_option (\<lambda>v. ErrorString (snd v)) (find fst (validations L c)))"

definition Load :: "'f config_lib \<Rightarrow> string \<Rightarrow> ('f Config) result" where
  "Load L path =
     (case os_ReadFile L path of
        Inl err \<Rightarrow> Inl (Wrapf ''read config file: '' err)
      | Inr data \<Rightarrow>
          (case yaml_Decode L data of
             Inl err \<Rightarrow> Inl (Wrapf ''parse config: '' err)
           | Inr c \<Rightarrow>
               (case applyEnvironment L c of
                  (c', Some err) \<Rightarrow> Inl (Wrapf ''apply environment: '' err)
                | (c', None) \<Rightarrow>
                    (case Validate L (Some c') of
                       Some err \<Rightarrow> Inl (Wrapf ''validate config: '' err)
                     | None \<Rightarrow> Inr c'))))"

section \<open>What the overrides change\<close>

lemma run_setters_append:
  "run_setters (xs @ ys) err c = (case run_setters xs err c of (c', err') \<Rightarrow> run_setters ys err' c')"
  by (induction xs arbitrary: err c) (auto split: prod.splits)

lemma firstError_simps [simp]: "firstError None e = e" "firstError (Some x) e = Some x"
  by (simp_all add: firstError_def)

lemma run_setters_err: "snd (run_setters ss (Some e) c) = Some e"
  by (induction ss arbitrary: c) (auto split: prod.splits)

text \<open>
  A malformed variable is reported: the error is that of the first setter in the order of the
  code whose value does not parse, whatever the later ones find.
\<close>

lemma run_setters_first_error:
  assumes "run_setters xs None c = (c1, None)" and "s c1 = (c2, Some e)"
  shows "snd (run_setters (xs @ s # ys) None c) = Some e"
  using assms run_setters_err [of ys e c2] by (simp add: run_setters_append)

text \<open>A setter keeps a component it does not target, and so does a sequence of such setters.\<close>

definition keeps :: "('f Config \<Rightarrow> 'v) \<Rightarrow> 'f setter \<Rightarrow> bool" where
  "keeps get s \<longleftrightarrow> (\<forall>c. get (fst (s c)) = get c)"

lemma keeps_run: "list_all (keeps get) ss \<Longrightarrow> get (fst (run_setters ss err c)) = get c"
proof (induction ss arbitrary: err c)
  case Nil
  then show ?case by simp
next
  case (Cons s ss)
  then have "get (fst (run_setters ss (firstError err (snd (s c))) (fst (s c)))) = get (fst (s c))" by simp
  also have "\<dots> = get c" using Cons.prems by (simp add: keeps_def)
  finally show ?case by (simp add: case_prod_beta)
qed

lemma keeps_setString: "(\<And>v c. get (target v c) = get c) \<Longrightarrow> keeps get (setString L name target)"
  by (simp add: keeps_def setString_def split: option.splits)

lemma keeps_setList: "(\<And>v c. get (target v c) = get c) \<Longrightarrow> keeps get (setList L name target)"
  by (simp add: keeps_def setList_def split: option.splits)

lemma keeps_set_parsed: "(\<And>v c. get (target v c) = get c) \<Longrightarrow> keeps get (set_parsed L parse must name target)"
  by (simp add: keeps_def set_parsed_def split: option.splits sum.splits)

lemma keeps_setInt: "(\<And>v c. get (target v c) = get c) \<Longrightarrow> keeps get (setInt L name target)"
  by (simp add: setInt_def keeps_set_parsed)

lemma keeps_setBool: "(\<And>v c. get (target v c) = get c) \<Longrightarrow> keeps get (setBool L name target)"
  by (simp add: setBool_def keeps_set_parsed)

lemma keeps_setDuration: "(\<And>v c. get (target v c) = get c) \<Longrightarrow> keeps get (setDuration L name target)"
  by (simp add: setDuration_def keeps_set_parsed)

lemmas keeps_setters = keeps_setString keeps_setList keeps_setInt keeps_setBool keeps_setDuration

lemma override_run:
  assumes "list_all (keeps get) xs" and "list_all (keeps get) ys" and "\<And>c. get (fst (s c)) = new (get c)"
  shows "get (fst (run_setters (xs @ s # ys) err c)) = new (get c)"
proof -
  obtain c1 e1 where 1: "run_setters xs err c = (c1, e1)" by fastforce
  obtain c2 e2 where 2: "s c1 = (c2, e2)" by fastforce
  have "get (fst (run_setters ys (firstError e1 e2) c2)) = get c2" by (rule keeps_run [OF assms(2)])
  moreover have "get c2 = new (get c1)" using assms(3) [of c1] 2 by simp
  moreover have "get c1 = get c" using keeps_run [OF assms(1), of err c] 1 by simp
  ultimately show ?thesis by (simp add: run_setters_append 1 2)
qed

definition override :: "'f config_lib \<Rightarrow> string \<Rightarrow> (string \<Rightarrow> 'a) \<Rightarrow> 'a \<Rightarrow> 'a" where
  "override L name conv old = (case LookupEnv L name of Some val \<Rightarrow> conv val | None \<Rightarrow> old)"

lemma override_at:
  assumes "n < length (environment_setters L)"
    and "list_all (keeps get) (take n (environment_setters L))"
    and "list_all (keeps get) (drop (Suc n) (environment_setters L))"
    and "\<And>c. get (fst ((environment_setters L ! n) c)) = new (get c)"
  shows "get (fst (applyEnvironment L c)) = new (get c)"
  unfolding applyEnvironment_def
  by (subst id_take_nth_drop [OF assms(1)], rule override_run [where get = get and new = new]) (rule assms)+

lemma secret_override:
  "au_JWTSecret (cfg_Auth (fst (applyEnvironment L c))) = override L ''JWT_SECRET'' (\<lambda>v. v) (au_JWTSecret (cfg_Auth c))"
  by (rule override_at [where n = 25 and get = "\<lambda>c. au_JWTSecret (cfg_Auth c)"])
    (simp_all add: environment_setters_def keeps_setters setString_def override_def split: option.splits)

lemma api_keys_override:
  "au_APIKeys (cfg_Auth (fst (applyEnvironment L c))) = override L ''AUTH_API_KEYS'' splitNonEmpty (au_APIKeys (cfg_Auth c))"
  by (rule override_at [where n = 33 and get = "\<lambda>c. au_APIKeys (cfg_Auth c)"])
    (simp_all add: environment_setters_def keeps_setters setList_def override_def split: option.splits)

lemma public_key_override:
  "au_JWTPublicKey (cfg_Auth (fst (applyEnvironment L c))) =
     override L ''JWT_PUBLIC_KEY'' (\<lambda>v. v) (au_JWTPublicKey (cfg_Auth c))"
  by (rule override_at [where n = 26 and get = "\<lambda>c. au_JWTPublicKey (cfg_Auth c)"])
    (simp_all add: environment_setters_def keeps_setters setString_def override_def split: option.splits)

lemma policy_kept: "au_MethodScopes (cfg_Auth (fst (applyEnvironment L c))) = au_MethodScopes (cfg_Auth c)"
  unfolding applyEnvironment_def
  by (rule keeps_run [where get = "\<lambda>c. au_MethodScopes (cfg_Auth c)"]) (simp add: environment_setters_def keeps_setters)

section \<open>What validation guarantees\<close>

lemma Validate_ok: "Validate L (Some c) = None \<longleftrightarrow> list_all (\<lambda>v. \<not> fst v) (validations L c)"
  by (auto simp: Validate_def find_None_iff list_all_iff)

lemma short_key_None: "short_key i ks = None \<longleftrightarrow> (\<forall>k \<in> set ks. 16 \<le> length k)"
  by (induction ks arbitrary: i) auto

lemma Validate_parts:
  assumes "Validate L (Some c) = None"
  shows "list_all (\<lambda>v. \<not> fst v) (validate_server (cfg_Server c))"
    and "list_all (\<lambda>v. \<not> fst v) (validate_tls (cfg_TLS c))"
    and "list_all (\<lambda>v. \<not> fst v) (validate_auth (cfg_Auth c))"
    and "list_all (\<lambda>v. \<not> fst v) (validate_observability L (cfg_Logging c) (cfg_Tracing c))"
    and "list_all (\<lambda>v. \<not> fst v) (validate_ports (cfg_Metrics c) (cfg_Gateway c) (cfg_Health c))"
    and "list_all (\<lambda>v. \<not> fst v) (validate_storage (cfg_Storage c))"
  using assms unfolding Validate_ok validations_def by (simp_all add: list_all_append)

lemma Load_cases:
  assumes "Load L path = Inr c"
  obtains data c0 where "os_ReadFile L path = Inr data" and "yaml_Decode L data = Inr c0"
    and "applyEnvironment L c0 = (c, None)" and "Validate L (Some c) = None"
  using assms unfolding Load_def by (auto split: sum.splits prod.splits option.splits)

definition credentials_ok :: "AuthConfig \<Rightarrow> bool" where
  "credentials_ok a \<longleftrightarrow>
     (\<not> blank (au_JWTSecret a) \<or> au_APIKeys a \<noteq> [] \<or> \<not> blank (au_JWTPublicKey a)) \<and>
     (au_JWTSecret a = [] \<or> 32 \<le> length (au_JWTSecret a)) \<and>
     list_all (\<lambda>key. 16 \<le> length key) (au_APIKeys a)"

text \<open>The ports of the listeners beside the gRPC one.\<close>

definition side_ports :: "'f Config \<Rightarrow> int list" where
  "side_ports c =
     hl_Port (cfg_Health c) #
       (if mt_Enabled (cfg_Metrics c) then [mt_Port (cfg_Metrics c)] else []) @
       (if gw_Enabled (cfg_Gateway c) then [gw_Port (cfg_Gateway c)] else [])"

text \<open>The limits, timeouts and thresholds that are in force.\<close>

definition limits_in_force :: "'f Config \<Rightarrow> int list" where
  "limits_in_force c =
     (let s = cfg_Server c; st = cfg_Storage c; cb = sg_CircuitBreaker st; cache = sg_Cache st in
      [sv_MaxConns s, sv_Timeout s, sv_MaxRecvMessageMB s, sv_MaxSendMessageMB s, sv_MaxUsers s,
       sv_MaxStreamMessages s, sv_MaxStringBytes s, sv_StreamInterval s, sv_RateLimitPerSecond s, sv_RateLimitBurst s,
       sv_PerClientRateLimitPerSecond s, sv_PerClientRateLimitBurst s,
       sg_MaxOpenConns st, sg_ConnMaxLifetime st, sg_PingTimeout st, sg_RetryBackoff st, sg_RetryMaxBackoff st] @
      (if cbc_Enabled cb
       then [cbc_FailureThreshold cb, cbc_SuccessThreshold cb, cbc_OpenTimeout cb, cbc_MaxHalfOpenRequests cb] else []) @
      (if cc_Enabled cache then [cc_TTL cache] else []))"

lemma validated_credentials: "Validate L (Some c) = None \<Longrightarrow> credentials_ok (cfg_Auth c)"
  using Validate_parts(3) [of L c]
  by (auto simp: validate_auth_def credentials_ok_def minJWTSecretBytes_def short_key_None list_all_iff split: option.splits)

lemma validated_ports:
  "Validate L (Some c) = None \<Longrightarrow> distinct (side_ports c) \<and> list_all validPort (sv_Port (cfg_Server c) # side_ports c)"
  using Validate_parts(1,5) [of L c] by (auto simp: validate_ports_def validate_server_def side_ports_def validPort_def)

lemma validated_limits: "Validate L (Some c) = None \<Longrightarrow> list_all (\<lambda>n. 0 < n) (limits_in_force c)"
  using Validate_parts(1,6) [of L c]
  by (auto simp: validate_server_def validate_storage_def limits_in_force_def Let_def)

lemma validated_mtls:
  "Validate L (Some c) = None \<Longrightarrow> mtls_Enabled (tls_MTLS (cfg_TLS c)) \<Longrightarrow>
     tls_Enabled (cfg_TLS c) \<and> \<not> blank (mtls_ClientCAFile (tls_MTLS (cfg_TLS c)))"
  using Validate_parts(2) [of L c] by (auto simp: validate_tls_def)

lemma validated_backend:
  "Validate L (Some c) = None \<Longrightarrow>
     sg_Backend (cfg_Storage c) = ''memory'' \<or> sg_Backend (cfg_Storage c) = ''postgres'' \<and> \<not> blank (sg_URL (cfg_Storage c))"
  using Validate_parts(6) [of L c] by (auto simp: validate_storage_def Let_def)

text \<open>
  C35: what a loaded configuration guarantees. Credentials given in the environment replace those
  of the file, and the authorization policy is the file's. There is a credential to authenticate
  with; a JWT secret has at least 32 bytes and an API key at least 16. Client certificates are
  demanded only under TLS and with a CA file. All ports are valid, and the health port and the
  ports of the enabled metrics and gateway listeners differ from each other. Every limit, timeout
  and threshold in force is positive, and the backend is in memory or PostgreSQL with a URL.
\<close>

theorem loaded_config_safe:
  assumes "Load L path = Inr c"
  shows "(\<exists>data c0. os_ReadFile L path = Inr data \<and> yaml_Decode L data = Inr c0 \<and>
       au_JWTSecret (cfg_Auth c) = override L ''JWT_SECRET'' (\<lambda>v. v) (au_JWTSecret (cfg_Auth c0)) \<and>
       au_APIKeys (cfg_Auth c) = override L ''AUTH_API_KEYS'' splitNonEmpty (au_APIKeys (cfg_Auth c0)) \<and>
       au_JWTPublicKey (cfg_Auth c) = override L ''JWT_PUBLIC_KEY'' (\<lambda>v. v) (au_JWTPublicKey (cfg_Auth c0)) \<and>
       au_MethodScopes (cfg_Auth c) = au_MethodScopes (cfg_Auth c0)) \<and>
     credentials_ok (cfg_Auth c) \<and>
     (mtls_Enabled (tls_MTLS (cfg_TLS c)) \<longrightarrow>
        tls_Enabled (cfg_TLS c) \<and> \<not> blank (mtls_ClientCAFile (tls_MTLS (cfg_TLS c)))) \<and>
     distinct (side_ports c) \<and> list_all validPort (sv_Port (cfg_Server c) # side_ports c) \<and>
     list_all (\<lambda>n. 0 < n) (limits_in_force c) \<and>
     (sg_Backend (cfg_Storage c) = ''memory'' \<or> sg_Backend (cfg_Storage c) = ''postgres'' \<and> \<not> blank (sg_URL (cfg_Storage c)))"
proof -
  from assms obtain data c0 where L: "os_ReadFile L path = Inr data" "yaml_Decode L data = Inr c0"
    "applyEnvironment L c0 = (c, None)" and V: "Validate L (Some c) = None" by (rule Load_cases)
  from L(3) have "c = fst (applyEnvironment L c0)" by simp
  note over = secret_override [of L c0, folded this] api_keys_override [of L c0, folded this]
    public_key_override [of L c0, folded this] policy_kept [of L c0, folded this]
  show ?thesis
    using L(1,2) over validated_credentials [OF V] validated_mtls [OF V] validated_ports [OF V]
      validated_limits [OF V] validated_backend [OF V]
    by blast
qed

text \<open>The checked-in baseline configuration, with the secret injected by the environment.\<close>

definition baseline :: "unit Config" where
  "baseline =
     \<lparr>cfg_Server = \<lparr>sv_Host = ''0.0.0.0'', sv_Port = 50051, sv_MaxConns = 100, sv_Timeout = 30 * second,
        sv_MaxRecvMessageMB = 4, sv_MaxSendMessageMB = 4, sv_MaxUsers = 10000, sv_MaxStreamMessages = 100,
        sv_MaxStringBytes = 4096, sv_StreamInterval = 2 * second, sv_RateLimitPerSecond = 100, sv_RateLimitBurst = 200,
        sv_PerClientRateLimitPerSecond = 50, sv_PerClientRateLimitBurst = 100, sv_MaxInFlightRequests = 0\<rparr>,
      cfg_TLS = \<lparr>tls_Enabled = True, tls_CertFile = ''certs/server.crt'', tls_KeyFile = ''certs/server.key'',
        tls_CAFile = ''certs/ca.crt'', tls_ClientCertFile = ''certs/client.crt'', tls_ClientKeyFile = ''certs/client.key'',
        tls_MTLS = \<lparr>mtls_Enabled = False, mtls_ClientCAFile = ''certs/ca.crt''\<rparr>\<rparr>,
      cfg_Auth = \<lparr>au_JWTSecret = [], au_APIKeys = [], au_JWTAudience = [], au_JWTIssuer = [], au_JWTPublicKey = [],
        au_AuditAllows = False, au_MethodScopes = [], au_APIKeyScopes = [], au_DefaultDeny = False\<rparr>,
      cfg_Logging = \<lparr>lg_Level = ''info'', lg_Format = ''json''\<rparr>,
      cfg_Tracing = \<lparr>tr_Enabled = False, tr_Endpoint = ''http://jaeger:4318/v1/traces'',
        tr_ServiceName = ''grpc-service'', tr_SampleRatio = ()\<rparr>,
      cfg_Metrics = \<lparr>mt_Enabled = True, mt_Port = 9090\<rparr>,
      cfg_Health = \<lparr>hl_Port = 8080\<rparr>,
      cfg_Storage = \<lparr>sg_Backend = ''memory'', sg_URL = [], sg_MaxOpenConns = 10, sg_MaxIdleConns = 5,
        sg_ConnMaxLifetime = 5 * minute, sg_PingTimeout = 5 * second, sg_RetryAttempts = 3,
        sg_RetryBackoff = 250 * millisecond, sg_RetryMaxBackoff = 5 * second,
        sg_CircuitBreaker = \<lparr>cbc_Enabled = False, cbc_FailureThreshold = 5, cbc_SuccessThreshold = 2,
          cbc_OpenTimeout = 30 * second, cbc_MaxHalfOpenRequests = 1\<rparr>,
        sg_Cache = \<lparr>cc_Enabled = False, cc_TTL = 30 * second\<rparr>\<rparr>,
      cfg_Gateway = \<lparr>gw_Enabled = False, gw_Port = 8081\<rparr>,
      cfg_Reflection = False,
      cfg_Client = \<lparr>cl_Address = ''localhost:50051'', cl_ServerName = ''localhost'', cl_AuthToken = []\<rparr>\<rparr>"

definition injected_secret :: string where
  "injected_secret = replicate 32 CHR ''s''"

definition injected :: "unit config_lib" where
  "injected =
     \<lparr>LookupEnv = (\<lambda>name. if name = ''JWT_SECRET'' then Some injected_secret else None),
      os_ReadFile = (\<lambda>_. Inr []), yaml_Decode = (\<lambda>_. Inr baseline),
      ParseRequestURI = (\<lambda>_. Inl (ErrorString ''no url'')), ParseDuration = (\<lambda>_. Inl (ErrorString ''no duration''))\<rparr>"

definition running_config :: "unit Config" where
  "running_config = baseline\<lparr>cfg_Auth := (cfg_Auth baseline)\<lparr>au_JWTSecret := injected_secret\<rparr>\<rparr>"

lemma injected_environment: "applyEnvironment injected baseline = (running_config, None)"
  by (simp add: applyEnvironment_def environment_setters_def injected_def setString_def setInt_def setBool_def
      setDuration_def setList_def set_parsed_def running_config_def)

lemma words_not_blank:
  "\<not> blank ''0.0.0.0''" "\<not> blank ''certs/server.crt''" "\<not> blank ''certs/server.key''" "\<not> blank injected_secret"
  "isLogLevel ''info''" "length injected_secret = 32" "TrimSpace [] = []"
  by code_simp+

lemma running_valid: "Validate injected (Some running_config) = None"
  by (simp add: Validate_ok validations_def validate_server_def validate_tls_def validate_auth_def
      validate_observability_def validate_ports_def validate_storage_def running_config_def baseline_def words_not_blank
      minJWTSecretBytes_def validPort_def)

lemma baseline_loads: "Load injected ''configs/config.yaml'' = Inr running_config"
  by (simp add: Load_def injected_environment running_valid) (simp add: injected_def injected_environment [unfolded injected_def] running_valid [unfolded injected_def])

theorem loaded_config_safe_witness:
  "Load injected ''configs/config.yaml'' = Inr running_config \<and> credentials_ok (cfg_Auth running_config) \<and>
     side_ports running_config = [8080, 9090] \<and> list_all (\<lambda>n. 0 < n) (limits_in_force running_config)"
  using loaded_config_safe [OF baseline_loads] baseline_loads
  by (simp add: side_ports_def running_config_def baseline_def)

end
