(* ===== verification/Repository_Stack.thy ===== *)
theory Repository_Stack
  imports User_Service Postgres_Repository Service_Config
begin

text \<open>
  The repository that \<open>openRepository\<close> of \<open>cmd/server/main.go\<close> builds from the configuration: one
  of the two backends, with the circuit breaker and the cache around it when they are enabled.

  A Go interface value is a value of one of the implementing types together with that type's
  methods. Here the types are the constructors of \<open>backend\<close> and \<open>repository\<close>; \<open>dispatch\<close> calls the
  method of the constructor the value has. The contract of the repository interface passes through
  both, so whatever layers are configured over the in-memory store, the service finds a repository
  that keeps the contract.
\<close>

section \<open>Interface values\<close>

text \<open>The methods of the values of one type, seen at the interface.\<close>

definition at_type :: "('s \<Rightarrow> 't) \<Rightarrow> ('t \<Rightarrow> 's) \<Rightarrow> 's Repository \<Rightarrow> 't Repository" where
  "at_type tag untag R =
     \<lparr>Create = \<lambda>E ctx u n t. apsnd tag (Create R E ctx u n (untag t)),
      CreateWithIdempotency = \<lambda>E ctx u n key t. apsnd tag (CreateWithIdempotency R E ctx u n key (untag t)),
      Get = \<lambda>E ctx i t. apsnd tag (Get R E ctx i (untag t)),
      Update = \<lambda>E ctx u t. apsnd tag (Update R E ctx u (untag t)),
      ReadModifyUpdate = \<lambda>E ctx i f t. apsnd tag (ReadModifyUpdate R E ctx i f (untag t)),
      Delete = \<lambda>E ctx i t. apsnd tag (Delete R E ctx i (untag t)),
      List = \<lambda>E ctx n a t. apsnd tag (List R E ctx n a (untag t)),
      Ping = \<lambda>E ctx t. apsnd tag (Ping R E ctx (untag t)),
      Close = \<lambda>t. apsnd tag (Close R (untag t))\<rparr>"

definition dispatch :: "('t \<Rightarrow> 't Repository) \<Rightarrow> 't Repository" where
  "dispatch methods =
     \<lparr>Create = \<lambda>E ctx u n t. Create (methods t) E ctx u n t,
      CreateWithIdempotency = \<lambda>E ctx u n key t. CreateWithIdempotency (methods t) E ctx u n key t,
      Get = \<lambda>E ctx i t. Get (methods t) E ctx i t,
      Update = \<lambda>E ctx u t. Update (methods t) E ctx u t,
      ReadModifyUpdate = \<lambda>E ctx i f t. ReadModifyUpdate (methods t) E ctx i f t,
      Delete = \<lambda>E ctx i t. Delete (methods t) E ctx i t,
      List = \<lambda>E ctx n a t. List (methods t) E ctx n a t,
      Ping = \<lambda>E ctx t. Ping (methods t) E ctx t,
      Close = \<lambda>t. Close (methods t) t\<rparr>"

text \<open>The contract of a type's methods is the contract at the interface.\<close>

locale tagged = repository_core +
  fixes tag :: "'a \<Rightarrow> 'b" and untag :: "'b \<Rightarrow> 'a" and seen :: "'b \<Rightarrow> store"
  assumes untag_tag [simp]: "untag (tag s) = s" and seen_tag [simp]: "seen (tag s) = abs s"
begin

definition tag_inv :: "'b \<Rightarrow> bool" where
  "tag_inv t \<longleftrightarrow> (\<exists>s. t = tag s \<and> inv s)"

lemma at_core: "repository_core (at_type tag untag R) seen tag_inv"
  by unfold_locales
    (auto simp: tag_inv_def at_type_def apsnd_def map_prod_def fin
      dest: Create_ok CreateWithIdempotency_ok Get_ok Update_ok Delete_ok List_ok Ping_ok Close_ok split: prod.splits)

end

locale tagged_safe = tagged + safe_repository
begin

lemma at_safe: "safe_repository (at_type tag untag R) seen tag_inv"
  by (intro safe_repository.intro at_core safe_repository_axioms.intro)
    (auto simp: tag_inv_def at_type_def apsnd_def map_prod_def dest: ReadModifyUpdate_ok split: prod.splits)

end

locale tagged_weak = tagged + weak_repository
begin

lemma at_weak: "weak_repository (at_type tag untag R) seen tag_inv"
  by (intro weak_repository.intro at_core weak_repository_axioms.intro)
    (auto simp: tag_inv_def at_type_def apsnd_def map_prod_def dest: ReadModifyUpdate_weak split: prod.splits)

end

lemma safe_is_weak: "safe_repository R seen I \<Longrightarrow> weak_repository R seen I"
  by (simp add: safe_repository_def safe_repository_axioms_def weak_repository_def weak_repository_axioms_def)

text \<open>
  An interface value keeps the contract when the methods of its type do, each on the values
  \<open>alike t\<close> of that type, and keep the type.
\<close>

locale dispatched =
  fixes methods :: "'t \<Rightarrow> 't Repository" and seen :: "'t \<Rightarrow> store" and ok :: "'t \<Rightarrow> bool"
    and alike :: "'t \<Rightarrow> 't \<Rightarrow> bool"
  assumes typed: "ok t \<Longrightarrow> weak_repository (methods t) seen (alike t)"
    and alike_refl: "ok t \<Longrightarrow> alike t t"
    and alike_ok: "alike t t' \<Longrightarrow> ok t'"
begin

lemma core: "ok t \<Longrightarrow> repository_core (methods t) seen (alike t)"
  by (rule weak_repository.axioms(1) [OF typed])

lemmas law = repository_core.fin [OF core alike_refl]
  repository_core.Create_ok [OF core alike_refl] repository_core.CreateWithIdempotency_ok [OF core alike_refl]
  repository_core.Get_ok [OF core alike_refl] repository_core.Update_ok [OF core alike_refl]
  repository_core.Delete_ok [OF core alike_refl] repository_core.List_ok [OF core alike_refl]
  repository_core.Ping_ok [OF core alike_refl] repository_core.Close_ok [OF core alike_refl]
  weak_repository.ReadModifyUpdate_weak [OF typed alike_refl]

sublocale dyn: weak_repository "dispatch methods" seen ok
  by unfold_locales (simp add: law(1), (simp add: dispatch_def, blast intro: alike_ok dest: law(2-))+)

end

locale dispatched_safe = dispatched +
  assumes typed_safe: "ok t \<Longrightarrow> safe_repository (methods t) seen (alike t)"
begin

sublocale dyn_safe: safe_repository "dispatch methods" seen ok
  by unfold_locales
    (simp add: dispatch_def, blast intro: alike_ok dest: safe_repository.ReadModifyUpdate_ok [OF typed_safe alike_refl])

end

section \<open>The backends\<close>

text \<open>
  What surrounds the PostgreSQL backend: \<open>sql.Open\<close>, the waits of the start-up loop, the embedded
  migrations, the statements on the two kinds of tables, and what the retries of a call observe.
\<close>

record 'd postgres =
  pgx_Open :: "string \<Rightarrow> go_error option"
  pgx_wait :: "nat \<Rightarrow> int \<Rightarrow> done_cause option"
  pgx_fs :: embed_fs
  pgx_ord :: "int list \<Rightarrow> int list"
  pgx_mig :: "'d MigDB"
  pgx_db :: "'d UserDB"
  pgx_retry :: "env \<Rightarrow> Context option \<Rightarrow> retry_env"

text \<open>A nil user comes back only when no attempt is made, and \<open>retryCfg\<close> makes at least one.\<close>

definition result_value :: "('a option) result \<times> 'd \<Rightarrow> 'a result \<times> 'd" where
  "result_value = apfst (map_sum (\<lambda>e. e) the)"

definition postgres_ops :: "'d postgres \<Rightarrow> retryConfig \<Rightarrow> 'd Repository" where
  "postgres_ops pg rc =
     \<lparr>Create = \<lambda>E ctx u n d. drop_value (pg_Create (pgx_retry pg E ctx) rc (pgx_db pg) u n d),
      CreateWithIdempotency = \<lambda>E ctx u n key d.
        apfst (map_sum (\<lambda>e. e) (apfst the)) (pg_CreateWithIdempotency (pgx_retry pg E ctx) rc (pgx_db pg) u n key d),
      Get = \<lambda>E ctx i d. result_value (pg_Get (pgx_retry pg E ctx) rc (pgx_db pg) i d),
      Update = \<lambda>E ctx u d. drop_value (pg_Update (pgx_retry pg E ctx) rc (pgx_db pg) u d),
      ReadModifyUpdate = \<lambda>E ctx i f d. result_value (pg_ReadModifyUpdate (pgx_retry pg E ctx) rc (pgx_db pg) i f d),
      Delete = \<lambda>E ctx i d. drop_value (pg_Delete (pgx_retry pg E ctx) rc (pgx_db pg) i d),
      List = \<lambda>E ctx n a d. pg_List (pgx_retry pg E ctx) rc (pgx_db pg) n a d,
      Ping = \<lambda>E ctx d. pg_Ping (pgx_db pg) ctx d,
      Close = \<lambda>d. pg_Close (pgx_db pg) d\<rparr>"

datatype 'd backend = MemoryBackend (memory: MemoryRepository) | PostgresBackend retryConfig (database: 'd)

definition backend_methods :: "'d postgres \<Rightarrow> 'd backend \<Rightarrow> 'd backend Repository" where
  "backend_methods pg b =
     (case b of
        MemoryBackend _ \<Rightarrow> at_type MemoryBackend memory memory_ops
      | PostgresBackend rc _ \<Rightarrow> at_type (PostgresBackend rc) database (postgres_ops pg rc))"

definition backend_ops :: "'d postgres \<Rightarrow> 'd backend Repository" where
  "backend_ops pg = dispatch (backend_methods pg)"

section \<open>The layers\<close>

datatype 'd repository =
    Plain (plain: "'d backend")
  | Guarded (guarded_by: "'d backend CircuitBreakerRepository")
  | Cached (cached_by: "'d backend CacheRepository")
  | CachedGuarded (cached_guarded: "'d backend CircuitBreakerRepository CacheRepository")

definition breaker_config_of :: "cfg_CircuitBreakerConfig \<Rightarrow> CircuitBreakerConfig" where
  "breaker_config_of cb =
     \<lparr>cb_Enabled = cbc_Enabled cb, FailureThreshold = cbc_FailureThreshold cb, SuccessThreshold = cbc_SuccessThreshold cb,
      OpenTimeout = cbc_OpenTimeout cb, MaxHalfOpenRequests = cbc_MaxHalfOpenRequests cb\<rparr>"

definition postgres_config_of :: "StorageConfig \<Rightarrow> PostgresConfig" where
  "postgres_config_of cfg =
     \<lparr>pc_URL = sg_URL cfg, pc_MaxOpenConns = sg_MaxOpenConns cfg, pc_MaxIdleConns = sg_MaxIdleConns cfg,
      pc_ConnMaxLifetime = sg_ConnMaxLifetime cfg, pc_PingTimeout = sg_PingTimeout cfg,
      pc_RetryAttempts = sg_RetryAttempts cfg, pc_RetryBackoff = sg_RetryBackoff cfg,
      pc_RetryMaxBackoff = sg_RetryMaxBackoff cfg\<rparr>"

definition repository_methods :: "'d postgres \<Rightarrow> CircuitBreakerConfig \<Rightarrow> 'd repository \<Rightarrow> 'd repository Repository" where
  "repository_methods pg cb r =
     (case r of
        Plain _ \<Rightarrow> at_type Plain plain (backend_ops pg)
      | Guarded _ \<Rightarrow> at_type Guarded guarded_by (circuit_breaker_ops cb (backend_ops pg))
      | Cached _ \<Rightarrow> at_type Cached cached_by (cache_ops (backend_ops pg))
      | CachedGuarded _ \<Rightarrow> at_type CachedGuarded cached_guarded (cache_ops (circuit_breaker_ops cb (backend_ops pg))))"

text \<open>The methods of the repository under a configuration.\<close>

definition repository_ops :: "'d postgres \<Rightarrow> StorageConfig \<Rightarrow> 'd repository Repository" where
  "repository_ops pg cfg = dispatch (repository_methods pg (cb_config (breaker_config_of (sg_CircuitBreaker cfg))))"

text \<open>The database of a failed start-up is returned beside the error.\<close>

definition open_backend :: "'d postgres \<Rightarrow> StorageConfig \<Rightarrow> 'd \<Rightarrow> 'd backend result \<times> 'd" where
  "open_backend pg cfg d =
     (if sg_Backend cfg = ''memory'' then (Inr (MemoryBackend NewMemoryRepository), d)
      else if sg_Backend cfg = ''postgres'' then
        (case NewPostgresRepository (pgx_Open pg) (pgx_wait pg)
                (\<lambda>d. drop_value (migrateAndPing (pgx_fs pg) (pgx_ord pg) (pgx_mig pg) d)) (postgres_config_of cfg) d of
           (Inl err, d') \<Rightarrow> (Inl err, d')
         | (Inr rc, d') \<Rightarrow> (Inr (PostgresBackend rc d'), d'))
      else (Inl (ErrorString (''unsupported storage backend '' @ quote (sg_Backend cfg))), d))"

definition openRepository :: "'d postgres \<Rightarrow> StorageConfig \<Rightarrow> 'd \<Rightarrow> 'd repository result \<times> 'd" where
  "openRepository pg cfg d =
     (case open_backend pg cfg d of
        (Inl err, d') \<Rightarrow> (Inl err, d')
      | (Inr repo, d') \<Rightarrow>
          (if cbc_Enabled (sg_CircuitBreaker cfg) then
             (if cc_Enabled (sg_Cache cfg)
              then Inr (CachedGuarded (NewCacheRepository (NewCircuitBreakerRepository repo) (cc_TTL (sg_Cache cfg))))
              else Inr (Guarded (NewCircuitBreakerRepository repo)))
           else
             (if cc_Enabled (sg_Cache cfg)
              then Inr (Cached (NewCacheRepository repo (cc_TTL (sg_Cache cfg))))
              else Inr (Plain repo)), d'))"

definition service_limits_of :: "ServerConfig \<Rightarrow> ServiceLimits" where
  "service_limits_of s =
     \<lparr>MaxUsers = sv_MaxUsers s, MaxStreamMessages = sv_MaxStreamMessages s, MaxStringBytes = sv_MaxStringBytes s,
      StreamInterval = sv_StreamInterval s\<rparr>"

abbreviation configured_service :: "'d postgres \<Rightarrow> 'f Config \<Rightarrow> 'd repository UserService" where
  "configured_service pg c \<equiv>
     NewUserServiceWithRepository (Some (repository_ops pg (cfg_Storage c))) (service_limits_of (cfg_Server c))"

section \<open>The in-memory store under any layers\<close>

text \<open>The store behind the layers; the database has its own properties.\<close>

definition backend_store :: "'d backend \<Rightarrow> store" where
  "backend_store b = (case b of MemoryBackend m \<Rightarrow> mem_abs m | PostgresBackend _ _ \<Rightarrow> Map.empty)"

definition backend_ok :: "'d backend \<Rightarrow> bool" where
  "backend_ok b \<longleftrightarrow> (\<exists>m. b = MemoryBackend m \<and> mem_inv m)"

interpretation tm: tagged_safe memory_ops mem_abs mem_inv MemoryBackend memory backend_store
  by unfold_locales (simp_all add: backend_store_def)

lemma tm_inv: "tm.tag_inv = backend_ok"
  by (auto simp: tm.tag_inv_def backend_ok_def fun_eq_iff)

lemma backend_methods_safe: "backend_ok b \<Longrightarrow> safe_repository (backend_methods pg b) backend_store backend_ok"
  using tm.at_safe by (auto simp: tm_inv backend_ok_def backend_methods_def)

interpretation bk: dispatched_safe "backend_methods pg" backend_store backend_ok "\<lambda>_. backend_ok" for pg
  by (intro dispatched_safe.intro dispatched.intro dispatched_safe_axioms.intro)
    (simp_all add: backend_methods_safe safe_is_weak)

interpretation bs: safe_repository "backend_ops pg" backend_store backend_ok for pg
  unfolding backend_ops_def by (rule bk.dyn_safe.safe_repository_axioms)

interpretation bcb: breaker_over "backend_ops pg" backend_store backend_ok cb for pg cb
  by unfold_locales

lemma backend_no_empty: "backend_ok b \<Longrightarrow> [] \<notin> dom (backend_store b)"
  by (auto simp: backend_ok_def backend_store_def dest: cam.no_empty_id)

interpretation bca: cache_over "backend_ops pg" backend_store backend_ok for pg
  by unfold_locales (simp add: backend_no_empty)

interpretation bcacb: cache_over "circuit_breaker_ops cb (backend_ops pg)" "\<lambda>r. backend_store (cb_inner r)"
    "\<lambda>r. backend_ok (cb_inner r)" for pg cb
  by unfold_locales (simp add: backend_no_empty)

definition repository_store :: "'d repository \<Rightarrow> store" where
  "repository_store r =
     (case r of
        Plain b \<Rightarrow> backend_store b
      | Guarded cb \<Rightarrow> backend_store (cb_inner cb)
      | Cached c \<Rightarrow> backend_store (ca_inner c)
      | CachedGuarded c \<Rightarrow> backend_store (cb_inner (ca_inner c)))"

text \<open>The invariant of each type of repository, and of all of them.\<close>

definition repository_alike :: "'d repository \<Rightarrow> 'd repository \<Rightarrow> bool" where
  "repository_alike r r' \<longleftrightarrow>
     (case r of
        Plain _ \<Rightarrow> (\<exists>b. r' = Plain b \<and> backend_ok b)
      | Guarded _ \<Rightarrow> (\<exists>cb. r' = Guarded cb \<and> backend_ok (cb_inner cb))
      | Cached _ \<Rightarrow> (\<exists>c. r' = Cached c \<and> cache_ok backend_store backend_ok c)
      | CachedGuarded _ \<Rightarrow>
          (\<exists>c. r' = CachedGuarded c \<and> cache_ok (\<lambda>cb. backend_store (cb_inner cb)) (\<lambda>cb. backend_ok (cb_inner cb)) c))"

definition repository_ok :: "'d repository \<Rightarrow> bool" where
  "repository_ok r \<longleftrightarrow> repository_alike r r"

interpretation tp: tagged_weak "backend_ops pg" backend_store backend_ok Plain plain repository_store for pg
  by unfold_locales (simp_all add: repository_store_def)

interpretation tg: tagged_weak "circuit_breaker_ops cb (backend_ops pg)" "\<lambda>r. backend_store (cb_inner r)"
    "\<lambda>r. backend_ok (cb_inner r)" Guarded guarded_by repository_store for pg cb
  by unfold_locales (simp_all add: repository_store_def)

interpretation tc: tagged_weak "cache_ops (backend_ops pg)" "\<lambda>c. backend_store (ca_inner c)"
    "cache_ok backend_store backend_ok" Cached cached_by repository_store for pg
  by unfold_locales (simp_all add: repository_store_def)

interpretation tcg: tagged_weak "cache_ops (circuit_breaker_ops cb (backend_ops pg))"
    "\<lambda>c. backend_store (cb_inner (ca_inner c))"
    "cache_ok (\<lambda>r. backend_store (cb_inner r)) (\<lambda>r. backend_ok (cb_inner r))" CachedGuarded cached_guarded repository_store
  for pg cb
  by unfold_locales (simp_all add: repository_store_def)

lemma repository_methods_weak:
  "weak_repository (repository_methods pg cb r) repository_store (repository_alike r)"
  using tp.at_weak [of pg, unfolded tp.tag_inv_def [abs_def]] tg.at_weak [of cb pg, unfolded tg.tag_inv_def [abs_def]]
    tc.at_weak [of pg, unfolded tc.tag_inv_def [abs_def]] tcg.at_weak [of cb pg, unfolded tcg.tag_inv_def [abs_def]]
  by (cases r) (simp_all add: repository_methods_def repository_alike_def [abs_def])

interpretation rd: dispatched "repository_methods pg cb" repository_store repository_ok repository_alike for pg cb
  by (intro dispatched.intro repository_methods_weak)
    (auto simp: repository_ok_def repository_alike_def split: repository.splits)

interpretation cs: service_over "repository_ops pg (cfg_Storage c)" repository_store repository_ok "configured_service pg c"
  for pg and c :: "'f Config"
  unfolding repository_ops_def
  by (intro service_over.intro service_over_axioms.intro rd.dyn.weak_repository_axioms)
    (use normalize_limits_pos(2) [of "service_limits_of (cfg_Server c)"] in simp_all)

section \<open>From the configuration to the service\<close>

text \<open>Validated limits and thresholds are used as configured: no constructor replaces one by its default.\<close>

lemma validated_service_limits:
  "Validate L (Some c) = None \<Longrightarrow> normalize_limits (service_limits_of (cfg_Server c)) = service_limits_of (cfg_Server c)"
  using validated_limits [of L c] by (simp add: limits_in_force_def Let_def normalize_limits_def service_limits_of_def)

lemma validated_breaker:
  "Validate L (Some c) = None \<Longrightarrow> cbc_Enabled (sg_CircuitBreaker (cfg_Storage c)) \<Longrightarrow>
     cb_config (breaker_config_of (sg_CircuitBreaker (cfg_Storage c))) = breaker_config_of (sg_CircuitBreaker (cfg_Storage c))"
  using validated_limits [of L c] by (simp add: limits_in_force_def Let_def cb_config_def breaker_config_of_def)

lemma new_memory_backend: "backend_ok (MemoryBackend NewMemoryRepository)"
  "backend_store (MemoryBackend NewMemoryRepository) = Map.empty"
  by (simp_all add: backend_ok_def mem_inv_New backend_store_def) (simp add: mem_abs_def NewMemoryRepository_def)

lemma openRepository_memory:
  assumes "sg_Backend cfg = ''memory''"
  obtains r where "openRepository pg cfg d = (Inr r, d)" and "repository_ok r" and "repository_store r = Map.empty"
proof -
  let ?b = "MemoryBackend NewMemoryRepository"
  note empty = new_memory_backend(2) [unfolded backend_store_def, simplified]
  note cached = bca.cached_inv_New [OF new_memory_backend(1)]
    bcacb.cached_inv_New [of "NewCircuitBreakerRepository ?b"]
  have [simp]: "cb_inner (NewCircuitBreakerRepository b) = b" "ca_inner (NewCacheRepositoryWithLimit s t n) = s" for b s t n
    by (simp_all add: NewCircuitBreakerRepository_def NewCacheRepositoryWithLimit_def)
  show thesis
    by (rule that [of "projr (fst (openRepository pg cfg d))"])
      (simp_all add: openRepository_def open_backend_def assms repository_ok_def repository_alike_def repository_store_def
        new_memory_backend empty cached NewCacheRepository_def)
qed

end
