(* ===== verification/Auth.thy ===== *)
theory Auth
  imports Storage Service_Config
begin

text \<open>
  Authentication (\<open>pkg/interceptors/auth.go\<close>): the construction of an \<open>Authenticator\<close>, the
  credential of a request, API keys, the single verification path \<open>parseClaims\<close> of JSON web
  tokens, and the scopes and audiences a token carries.

  The cryptographic primitives and the grammars of JSON text, PEM and X.509 are the parameter
  \<open>auth_lib\<close>. What the code decodes JSON values into (strings, maps, raw messages, numbers, string
  slices) is modelled with the rules of \<open>encoding/json\<close> on the syntax tree: a null leaves a value
  as it is, the last of several equal keys counts, and a value of another kind is an error. Clock
  readings are nanoseconds since 1970; \<open>time.Unix\<close> counts seconds since the year 1 in an \<open>int64\<close>.
\<close>

section \<open>Library interfaces\<close>

datatype json =
    JNull
  | JBool bool
  | JNum string
  | JStr string
  | JArr "json list"
  | JObj "(string \<times> json) list"

record rsa_PublicKey =
  rsa_N :: nat
  rsa_E :: nat

datatype Curve = P224 | P256 | P384 | P521

record ecdsa_PublicKey =
  ec_Curve :: Curve
  ec_X :: nat
  ec_Y :: nat

datatype PublicKey = RSAKey rsa_PublicKey | ECKey ecdsa_PublicKey | OtherKey

record auth_lib =
  json_Parse :: "string \<Rightarrow> json option"
  pem_Decode :: "string \<Rightarrow> string option"
  ParsePKIXPublicKey :: "string \<Rightarrow> PublicKey option"
  ParsePKCS1PublicKey :: "string \<Rightarrow> rsa_PublicKey option"
  Sum256 :: "string \<Rightarrow> string"
  hmac_SHA256 :: "string \<Rightarrow> string \<Rightarrow> string"
  VerifyPKCS1v15 :: "rsa_PublicKey \<Rightarrow> string \<Rightarrow> string \<Rightarrow> bool"
  ecdsa_Verify :: "ecdsa_PublicKey \<Rightarrow> string \<Rightarrow> nat \<Rightarrow> nat \<Rightarrow> bool"

text \<open>The clock at the three calls of \<open>time.Now\<close> in \<open>parseClaims\<close>.\<close>

record auth_clock =
  now_exp :: int
  now_nbf :: int
  now_iat :: int

fun BitLen :: "nat \<Rightarrow> nat" where
  "BitLen n = (if n = 0 then 0 else Suc (BitLen (n div 2)))"

declare BitLen.simps [simp del]

definition big_SetBytes :: "string \<Rightarrow> nat" where
  "big_SetBytes bs = foldl (\<lambda>n b. n * 256 + of_char b) 0 bs"

section \<open>Times\<close>

definition unixToInternal :: int where
  "unixToInternal = 62135596800"

definition jwtClockSkew :: int where
  "jwtClockSkew = 60 * second"

text \<open>The seconds of \<open>time.Unix(sec, 0)\<close>, and of \<open>t.Add(d)\<close> for a whole number of seconds.\<close>

definition time_Unix :: "int \<Rightarrow> int" where
  "time_Unix sec = wrap64 (sec + unixToInternal)"

definition add_seconds :: "int \<Rightarrow> int \<Rightarrow> int" where
  "add_seconds t d =
     (if in_int64 (t + d) then t + d else if d > 0 then 2 ^ 63 - 1 else - (2 ^ 63 - 1))"

text \<open>\<open>time.Now().Before(t)\<close> for a time \<open>t\<close> without a fraction of a second.\<close>

definition now_Before :: "int \<Rightarrow> int \<Rightarrow> bool" where
  "now_Before now t \<longleftrightarrow> now div second + unixToInternal < t"

section \<open>Decoding JSON values\<close>

text \<open>\<open>json.Unmarshal\<close> into a string; null leaves the zero value.\<close>

definition to_string :: "json \<Rightarrow> string option" where
  "to_string j = (case j of JStr s \<Rightarrow> Some s | JNull \<Rightarrow> Some [] | _ \<Rightarrow> None)"

fun all_some :: "'a option list \<Rightarrow> 'a list option" where
  "all_some [] = Some []"
| "all_some (None # xs) = None"
| "all_some (Some x # xs) = map_option ((#) x) (all_some xs)"

text \<open>Into a \<open>[]string\<close>, a \<open>map[string]string\<close> and a \<open>map[string]json.RawMessage\<close>.\<close>

definition to_strings :: "json \<Rightarrow> string list option" where
  "to_strings j =
     (case j of JArr js \<Rightarrow> all_some (map to_string js) | JNull \<Rightarrow> Some [] | _ \<Rightarrow> None)"

definition to_string_map :: "json \<Rightarrow> (string \<rightharpoonup> string) option" where
  "to_string_map j =
     (case j of
        JNull \<Rightarrow> Some Map.empty
      | JObj kvs \<Rightarrow>
          map_option (\<lambda>vs. map_of (rev (zip (map fst kvs) vs))) (all_some (map (\<lambda>kv. to_string (snd kv)) kvs))
      | _ \<Rightarrow> None)"

definition to_raw_map :: "json \<Rightarrow> (string \<rightharpoonup> json) option" where
  "to_raw_map j =
     (case j of JNull \<Rightarrow> Some Map.empty | JObj kvs \<Rightarrow> Some (map_of (rev kvs)) | _ \<Rightarrow> None)"

text \<open>\<open>isValidNumber\<close> of \<open>encoding/json\<close>: the grammar of a JSON number.\<close>

fun skip_digits :: "string \<Rightarrow> string" where
  "skip_digits [] = []"
| "skip_digits (c # s) = (if digit_val c \<noteq> None then skip_digits s else c # s)"

definition number_exponent :: "string \<Rightarrow> bool" where
  "number_exponent s =
     (case s of
        [] \<Rightarrow> True
      | e # r \<Rightarrow>
          (e = CHR ''e'' \<or> e = CHR ''E'') \<and>
          (let r' = (case r of c # t \<Rightarrow> if c = CHR ''+'' \<or> c = CHR ''-'' then t else r | [] \<Rightarrow> [])
           in r' \<noteq> [] \<and> skip_digits r' = []))"

definition number_fraction :: "string \<Rightarrow> bool" where
  "number_fraction s =
     (case s of
        d # c # r \<Rightarrow> if d = CHR ''.'' \<and> digit_val c \<noteq> None then number_exponent (skip_digits r) else number_exponent s
      | _ \<Rightarrow> number_exponent s)"

definition isValidNumber :: "string \<Rightarrow> bool" where
  "isValidNumber s =
     (case (if HasPrefix s ''-'' then tl s else s) of
        [] \<Rightarrow> False
      | c # r \<Rightarrow>
          if c = CHR ''0'' then number_fraction r
          else if digit_val c \<noteq> None then number_fraction (skip_digits r)
          else False)"

text \<open>Into a \<open>json.Number\<close>: a number literal, or a string that is one.\<close>

definition to_Number :: "json \<Rightarrow> string option" where
  "to_Number j =
     (case j of
        JNum lit \<Rightarrow> Some lit
      | JStr s \<Rightarrow> if isValidNumber s then Some s else None
      | JNull \<Rightarrow> Some []
      | _ \<Rightarrow> None)"

definition stringClaim :: "json option \<Rightarrow> string \<times> bool" where
  "stringClaim raw =
     (case raw of
        None \<Rightarrow> ([], False)
      | Some j \<Rightarrow> (case to_string j of None \<Rightarrow> ([], False) | Some s \<Rightarrow> (s, True)))"

definition unixClaim :: "json option \<Rightarrow> int option" where
  "unixClaim raw =
     (case raw of
        None \<Rightarrow> None
      | Some j \<Rightarrow> (case to_Number j of None \<Rightarrow> None | Some number \<Rightarrow> ParseInt number))"

definition audienceMatches :: "json option \<Rightarrow> string \<Rightarrow> bool" where
  "audienceMatches raw want =
     (case raw of
        None \<Rightarrow> False
      | Some j \<Rightarrow>
          (case stringClaim raw of
             (s, True) \<Rightarrow> s = want
           | (_, False) \<Rightarrow> (case to_strings j of None \<Rightarrow> False | Some xs \<Rightarrow> want \<in> set xs)))"

definition scopes_of :: "json option \<Rightarrow> string list" where
  "scopes_of raw =
     (case raw of
        None \<Rightarrow> []
      | Some j \<Rightarrow>
          (case stringClaim raw of
             (s, True) \<Rightarrow> Fields s
           | (_, False) \<Rightarrow>
               (case to_strings j of
                  None \<Rightarrow> []
                | Some arr \<Rightarrow> filter (\<lambda>v. v \<noteq> []) (map TrimSpace arr))))"

definition extractScopes :: "(string \<rightharpoonup> json) \<Rightarrow> string list" where
  "extractScopes claims = concat (map (\<lambda>key. scopes_of (claims key)) [''scope'', ''scp'', ''scopes''])"

section \<open>The authenticator\<close>

record Authenticator =
  jwtSecret :: string
  apiKeys :: "string list"
  jwtAudience :: string
  jwtIssuer :: string
  jwtRSAKey :: "rsa_PublicKey option"
  jwtECKey :: "ecdsa_PublicKey option"
  auditAllows :: bool
  apiKeyScopes :: "string list"

definition minRSABits :: nat where
  "minRSABits = 2048"

definition parsePublicKey :: "auth_lib \<Rightarrow> string \<Rightarrow> PublicKey option" where
  "parsePublicKey B pemKey =
     (case pem_Decode B pemKey of
        None \<Rightarrow> None
      | Some bytes \<Rightarrow>
          (case ParsePKIXPublicKey B bytes of
             Some pub \<Rightarrow> Some pub
           | None \<Rightarrow> map_option RSAKey (ParsePKCS1PublicKey B bytes)))"

definition NewAuthenticator :: "auth_lib \<Rightarrow> AuthConfig \<Rightarrow> Authenticator result" where
  "NewAuthenticator B cfg =
     (if blank (au_JWTSecret cfg) \<and> length (au_APIKeys cfg) = 0 \<and> blank (au_JWTPublicKey cfg)
      then Inl (ErrorString ''no authentication credentials configured'')
      else
        let auth = \<lparr>jwtSecret = au_JWTSecret cfg, apiKeys = filter (\<lambda>key. \<not> blank key) (au_APIKeys cfg),
                    jwtAudience = au_JWTAudience cfg, jwtIssuer = au_JWTIssuer cfg, jwtRSAKey = None, jwtECKey = None,
                    auditAllows = au_AuditAllows cfg, apiKeyScopes = au_APIKeyScopes cfg\<rparr>
        in if blank (au_JWTPublicKey cfg) then Inr auth
           else case parsePublicKey B (au_JWTPublicKey cfg) of
             Some (RSAKey key) \<Rightarrow>
               if BitLen (rsa_N key) < minRSABits
               then Inl (ErrorString (''auth.jwt_public_key RSA modulus must be at least '' @ show_nat minRSABits @ '' bits''))
               else Inr (auth\<lparr>jwtRSAKey := Some key\<rparr>)
           | Some (ECKey key) \<Rightarrow>
               if ec_Curve key \<noteq> P256
               then Inl (ErrorString ''auth.jwt_public_key EC key must use the P-256 curve (ES256)'')
               else Inr (auth\<lparr>jwtECKey := Some key\<rparr>)
           | _ \<Rightarrow> Inl (ErrorString ''auth.jwt_public_key must be a PEM-encoded RSA or EC (P-256) public key''))"

definition verifySignature :: "auth_lib \<Rightarrow> Authenticator \<Rightarrow> string \<Rightarrow> string \<Rightarrow> string \<Rightarrow> bool" where
  "verifySignature B a alg signingInput sig =
     (let digest = Sum256 B signingInput in
      if alg = ''HS256'' then
        (if length (jwtSecret a) = 0 then False
         else sig = hmac_SHA256 B (jwtSecret a) signingInput)
      else if alg = ''RS256'' then
        (case jwtRSAKey a of None \<Rightarrow> False | Some key \<Rightarrow> VerifyPKCS1v15 B key digest sig)
      else if alg = ''ES256'' then
        (case jwtECKey a of
           None \<Rightarrow> False
         | Some key \<Rightarrow>
             if ec_Curve key \<noteq> P256 \<or> length sig \<noteq> 64 then False
             else ecdsa_Verify B key digest (big_SetBytes (take 32 sig)) (big_SetBytes (drop 32 sig)))
      else False)"

text \<open>The checks on a verified payload: exp, nbf, iat, issuer and audience.\<close>

definition times_ok :: "auth_clock \<Rightarrow> (string \<rightharpoonup> json) \<Rightarrow> bool" where
  "times_ok K claims \<longleftrightarrow>
     (case unixClaim (claims ''exp'') of None \<Rightarrow> False | Some t \<Rightarrow> now_Before (now_exp K) (time_Unix t)) \<and>
     (case claims ''nbf'' of
        None \<Rightarrow> True
      | Some raw \<Rightarrow> (case unixClaim (Some raw) of None \<Rightarrow> False | Some nbf \<Rightarrow> \<not> now_Before (now_nbf K) (time_Unix nbf))) \<and>
     (case claims ''iat'' of
        None \<Rightarrow> True
      | Some raw \<Rightarrow>
          (case unixClaim (Some raw) of
             None \<Rightarrow> False
           | Some iat \<Rightarrow> \<not> now_Before (now_iat K) (add_seconds (time_Unix iat) (- (jwtClockSkew div second)))))"

definition binding_ok :: "Authenticator \<Rightarrow> (string \<rightharpoonup> json) \<Rightarrow> bool" where
  "binding_ok a claims \<longleftrightarrow>
     (jwtIssuer a \<noteq> [] \<longrightarrow> fst (stringClaim (claims ''iss'')) = jwtIssuer a) \<and>
     (jwtAudience a \<noteq> [] \<longrightarrow> audienceMatches (claims ''aud'') (jwtAudience a))"

definition header_get :: "(string \<rightharpoonup> string) \<Rightarrow> string \<Rightarrow> string" where
  "header_get header k = (case header k of None \<Rightarrow> [] | Some v \<Rightarrow> v)"

definition parseClaims :: "auth_lib \<Rightarrow> auth_clock \<Rightarrow> Authenticator \<Rightarrow> string \<Rightarrow> Claims option" where
  "parseClaims B K a token =
     (case Split CHR ''.'' token of
        [p0, p1, p2] \<Rightarrow>
          (case Option.bind (b64_decode p0) (\<lambda>b. Option.bind (json_Parse B b) to_string_map) of
             None \<Rightarrow> None
           | Some header \<Rightarrow>
               if header_get header ''typ'' \<noteq> [] \<and> header_get header ''typ'' \<noteq> ''JWT'' then None
               else case b64_decode p2 of
                 None \<Rightarrow> None
               | Some sig \<Rightarrow>
                   if \<not> verifySignature B a (header_get header ''alg'') (p0 @ ''.'' @ p1) sig then None
                   else case Option.bind (b64_decode p1) (\<lambda>b. Option.bind (json_Parse B b) to_raw_map) of
                     None \<Rightarrow> None
                   | Some claims \<Rightarrow>
                       if times_ok K claims \<and> binding_ok a claims
                       then Some \<lparr>Subject = fst (stringClaim (claims ''sub'')), Scopes = extractScopes claims\<rparr>
                       else None)
      | _ \<Rightarrow> None)"

definition validJWT :: "auth_lib \<Rightarrow> auth_clock \<Rightarrow> Authenticator \<Rightarrow> string \<Rightarrow> bool" where
  "validJWT B K a token \<longleftrightarrow> parseClaims B K a token \<noteq> None"

section \<open>The credential of a request\<close>

definition md_Get :: "(string, string list) gomap \<Rightarrow> string \<Rightarrow> string list" where
  "md_Get md k = mget_or [] md k"

definition bearer_token :: "string \<Rightarrow> string option" where
  "bearer_token header =
     (case Fields header of
        [scheme, token] \<Rightarrow> if EqualFold_ascii scheme ''bearer'' \<and> token \<noteq> [] then Some token else None
      | _ \<Rightarrow> None)"

text \<open>The credential, and whether the warning about two credential headers is logged.\<close>

definition credentialFromContext :: "Context \<Rightarrow> string option \<times> bool" where
  "credentialFromContext ctx =
     (case md_in ctx of
        None \<Rightarrow> (None, False)
      | Some md \<Rightarrow>
          let apiKeyValues = md_Get md ''x-api-key'';
              authorizationValues = md_Get md ''authorization'';
              warn = (length apiKeyValues > 0 \<and> length authorizationValues > 0);
              bearer = (case authorizationValues of [v] \<Rightarrow> bearer_token v | _ \<Rightarrow> None)
          in (case bearer of
                Some token \<Rightarrow> (Some token, warn)
              | None \<Rightarrow>
                  (case apiKeyValues of
                     [v] \<Rightarrow> (if \<not> blank v then Some (TrimSpace v) else None, warn)
                   | _ \<Rightarrow> (None, warn))))"

definition authenticateCredential :: "auth_lib \<Rightarrow> auth_clock \<Rightarrow> Authenticator \<Rightarrow> Context \<Rightarrow> bool" where
  "authenticateCredential B K a ctx =
     (let credential = (case fst (credentialFromContext ctx) of None \<Rightarrow> [] | Some c \<Rightarrow> c)
      in credential \<in> set (apiKeys a) \<or> validJWT B K a credential)"

definition Authenticate :: "auth_lib \<Rightarrow> auth_clock \<Rightarrow> Authenticator option \<Rightarrow> Context \<Rightarrow> bool" where
  "Authenticate B K auth ctx =
     (case auth of
        None \<Rightarrow> False
      | Some a \<Rightarrow> fst (credentialFromContext ctx) \<noteq> None \<and> authenticateCredential B K a ctx)"

definition authenticate :: "auth_lib \<Rightarrow> auth_clock \<Rightarrow> Authenticator \<Rightarrow> Context \<Rightarrow> Claims option" where
  "authenticate B K a ctx =
     (case fst (credentialFromContext ctx) of
        None \<Rightarrow> None
      | Some credential \<Rightarrow>
          if credential \<in> set (apiKeys a)
          then Some \<lparr>Subject = ''apikey:'' @ hex_encode (Sum256 B credential), Scopes = apiKeyScopes a\<rparr>
          else parseClaims B K a credential)"

definition authenticatePrincipal :: "auth_lib \<Rightarrow> auth_clock \<Rightarrow> Authenticator option \<Rightarrow> Context \<Rightarrow> Claims option" where
  "authenticatePrincipal B K auth ctx = (case auth of None \<Rightarrow> None | Some a \<Rightarrow> authenticate B K a ctx)"

section \<open>What an accepted credential proves\<close>

lemma BitLen_lower: "0 < n \<Longrightarrow> 2 ^ (BitLen n - 1) \<le> n"
proof (induction n rule: BitLen.induct)
  case (1 n)
  show ?case
  proof (cases "n div 2 = 0")
    case True
    with 1 show ?thesis by (simp add: BitLen.simps [of n] BitLen.simps [of 0])
  next
    case False
    with 1 have ih: "2 ^ (BitLen (n div 2) - 1) \<le> n div 2" by simp
    from False have pos: "0 < BitLen (n div 2)" by (simp add: BitLen.simps [of "n div 2"])
    from 1 have "BitLen n - 1 = Suc (BitLen (n div 2) - 1)" using pos by (simp add: BitLen.simps [of n])
    with ih show ?thesis by simp
  qed
qed

lemma BitLen_at_least:
  assumes "k \<le> BitLen n" and "0 < k"
  shows "2 ^ (k - 1) \<le> n"
proof -
  from assms have pos: "0 < n" by (cases "n = 0") (simp_all add: BitLen.simps)
  from assms have "(2::nat) ^ (k - 1) \<le> 2 ^ (BitLen n - 1)" by (intro power_increasing) auto
  with BitLen_lower [OF pos] show ?thesis by linarith
qed

lemma Split_three: "Split c s = [p0, p1, p2] \<Longrightarrow> s = p0 @ c # p1 @ c # p2"
  using join_Split [of c s] by simp

text \<open>
  The keys a configuration trusts for each algorithm, read off the configuration itself: a
  signature is good only under the key configured for the token's own algorithm.
\<close>

definition signed_with :: "auth_lib \<Rightarrow> AuthConfig \<Rightarrow> string \<Rightarrow> string \<Rightarrow> string \<Rightarrow> bool" where
  "signed_with B cfg alg input sig \<longleftrightarrow>
     (alg = ''HS256'' \<and> au_JWTSecret cfg \<noteq> [] \<and> sig = hmac_SHA256 B (au_JWTSecret cfg) input) \<or>
     (alg = ''RS256'' \<and> (\<exists>key. parsePublicKey B (au_JWTPublicKey cfg) = Some (RSAKey key) \<and>
        2 ^ 2047 \<le> rsa_N key \<and> VerifyPKCS1v15 B key (Sum256 B input) sig)) \<or>
     (alg = ''ES256'' \<and> (\<exists>key. parsePublicKey B (au_JWTPublicKey cfg) = Some (ECKey key) \<and> ec_Curve key = P256 \<and>
        length sig = 64 \<and>
        ecdsa_Verify B key (Sum256 B input) (big_SetBytes (take 32 sig)) (big_SetBytes (drop 32 sig))))"

lemma NewAuthenticator_fields:
  assumes "NewAuthenticator B cfg = Inr a"
  shows "jwtSecret a = au_JWTSecret cfg" and "apiKeys a = filter (\<lambda>key. \<not> blank key) (au_APIKeys cfg)"
    and "jwtIssuer a = au_JWTIssuer cfg" and "jwtAudience a = au_JWTAudience cfg" and "apiKeyScopes a = au_APIKeyScopes cfg"
    and "jwtRSAKey a = Some k \<Longrightarrow> parsePublicKey B (au_JWTPublicKey cfg) = Some (RSAKey k) \<and> minRSABits \<le> BitLen (rsa_N k)"
    and "jwtECKey a = Some k' \<Longrightarrow> parsePublicKey B (au_JWTPublicKey cfg) = Some (ECKey k') \<and> ec_Curve k' = P256"
  using assms unfolding NewAuthenticator_def
  by (auto simp: Let_def split: if_splits option.splits PublicKey.splits)

lemma verifySignature_trust:
  assumes "NewAuthenticator B cfg = Inr a"
  shows "verifySignature B a alg input sig \<Longrightarrow> signed_with B cfg alg input sig"
  using NewAuthenticator_fields(1) [OF assms] NewAuthenticator_fields(6,7) [OF assms] BitLen_at_least [of 2048]
  unfolding verifySignature_def signed_with_def
  by (auto simp: Let_def minRSABits_def split: if_splits option.splits)

lemma parseClaims_cases:
  assumes "parseClaims B K a token = Some c"
  obtains p0 p1 p2 header sig claims where "token = p0 @ ''.'' @ p1 @ ''.'' @ p2"
    and "Option.bind (b64_decode p0) (\<lambda>b. Option.bind (json_Parse B b) to_string_map) = Some header"
    and "b64_decode p2 = Some sig"
    and "verifySignature B a (header_get header ''alg'') (p0 @ ''.'' @ p1) sig"
    and "Option.bind (b64_decode p1) (\<lambda>b. Option.bind (json_Parse B b) to_raw_map) = Some claims"
    and "times_ok K claims" and "binding_ok a claims"
    and "c = \<lparr>Subject = fst (stringClaim (claims ''sub'')), Scopes = extractScopes claims\<rparr>"
proof -
  have parts: "\<exists>p0 p1 p2. Split CHR ''.'' token = [p0, p1, p2]"
    using assms unfolding parseClaims_def by (auto split: list.splits)
  then obtain p0 p1 p2 where S: "Split CHR ''.'' token = [p0, p1, p2]" by blast
  from Split_three [OF S] have "token = p0 @ ''.'' @ p1 @ ''.'' @ p2" by simp
  with assms S that [of p0 p1 p2] show ?thesis
    unfolding parseClaims_def by (auto split: option.splits if_splits)
qed

lemma wrap64_above:
  assumes "2 ^ 63 \<le> x" and "x < 2 ^ 64 + 2 ^ 63"
  shows "wrap64 x = x - 2 ^ 64"
proof -
  have "(x + 2 ^ 63) mod 2 ^ 64 = (x + 2 ^ 63 - 2 ^ 64) mod 2 ^ 64" by (rule minus_mod_self2 [symmetric])
  also have "\<dots> = x + 2 ^ 63 - 2 ^ 64" using assms by (intro mod_pos_pos_trivial) auto
  finally show ?thesis by (simp add: wrap64_def)
qed

text \<open>In terms of the numbers in the token, for a clock that reads a time after the year 1.\<close>

lemma now_Before_exp:
  assumes "now_Before now (time_Unix t)" and "in_int64 t" and "0 \<le> now"
  shows "now < t * second"
proof -
  have "now div second + unixToInternal < time_Unix t" using assms(1) by (simp add: now_Before_def)
  moreover have "0 \<le> now div second" using assms(3) by simp
  ultimately have pos: "0 < time_Unix t" by (simp add: unixToInternal_def)
  have "time_Unix t = t + unixToInternal"
  proof (cases "t + unixToInternal < 2 ^ 63")
    case True
    with assms(2) show ?thesis by (simp add: time_Unix_def in_int64_def unixToInternal_def)
  next
    case False
    with assms(2) have "wrap64 (t + unixToInternal) = t + unixToInternal - 2 ^ 64"
      by (intro wrap64_above) (auto simp: in_int64_def unixToInternal_def)
    also have "\<dots> < 0" using assms(2) by (simp add: in_int64_def unixToInternal_def)
    finally show ?thesis using pos by (simp add: time_Unix_def)
  qed
  with assms(1) have "now div second < t" by (simp add: now_Before_def)
  then show ?thesis by linarith
qed

lemma now_Before_nbf:
  assumes "\<not> now_Before now (time_Unix t)" and "in_int64 t" and "t < 2 ^ 63 - unixToInternal"
  shows "t * second \<le> now"
proof -
  have "time_Unix t = t + unixToInternal"
    using assms(2,3) by (simp add: time_Unix_def in_int64_def unixToInternal_def)
  with assms(1) have "t \<le> now div second" by (simp add: now_Before_def)
  then show ?thesis by linarith
qed

lemma ParseInt_range: "ParseInt s = Some n \<Longrightarrow> in_int64 n"
  unfolding ParseInt_def by (auto simp: Let_def split: if_splits option.splits prod.splits list.splits)

lemma unixClaim_range: "unixClaim raw = Some n \<Longrightarrow> in_int64 n"
  unfolding unixClaim_def by (auto split: option.splits dest: ParseInt_range)

text \<open>
  C8: an accepted credential is verified. When \<open>authenticate\<close> accepts a request, its credential is
  one of the configured API keys, and then the principal is named after its hash and has exactly
  the scopes configured for API keys; or it is a token of three parts whose signature was checked
  with the key configured for the token's own algorithm (an HS256 token only with the secret, an
  RS256 or ES256 token only with a public key of that kind, of at least 2048 bits or on P-256),
  and subject and scopes come from the signed payload. Such a token expires in the future, is not
  used before its \<open>nbf\<close> time (unless that lies beyond the range of \<open>time.Time\<close>, where it wraps
  around) and names the configured issuer and audience.
\<close>

theorem accepted_credential_verified:
  assumes "NewAuthenticator B cfg = Inr a" and "authenticate B K a ctx = Some c" and "0 \<le> now_exp K"
  shows "\<exists>cred. fst (credentialFromContext ctx) = Some cred \<and>
     (cred \<in> set (au_APIKeys cfg) \<and>
        c = \<lparr>Subject = ''apikey:'' @ hex_encode (Sum256 B cred), Scopes = au_APIKeyScopes cfg\<rparr> \<or>
      (\<exists>p0 p1 p2 header sig claims t. cred = p0 @ ''.'' @ p1 @ ''.'' @ p2 \<and>
        Option.bind (b64_decode p0) (\<lambda>b. Option.bind (json_Parse B b) to_string_map) = Some header \<and>
        b64_decode p2 = Some sig \<and> signed_with B cfg (header_get header ''alg'') (p0 @ ''.'' @ p1) sig \<and>
        Option.bind (b64_decode p1) (\<lambda>b. Option.bind (json_Parse B b) to_raw_map) = Some claims \<and>
        c = \<lparr>Subject = fst (stringClaim (claims ''sub'')), Scopes = extractScopes claims\<rparr> \<and>
        unixClaim (claims ''exp'') = Some t \<and> now_exp K < t * second \<and>
        (claims ''nbf'' \<noteq> None \<longrightarrow> (\<exists>n. unixClaim (claims ''nbf'') = Some n \<and>
           (n * second \<le> now_nbf K \<or> 2 ^ 63 - unixToInternal \<le> n))) \<and>
        (au_JWTIssuer cfg \<noteq> [] \<longrightarrow> fst (stringClaim (claims ''iss'')) = au_JWTIssuer cfg) \<and>
        (au_JWTAudience cfg \<noteq> [] \<longrightarrow> audienceMatches (claims ''aud'') (au_JWTAudience cfg))))"
proof -
  note fields = NewAuthenticator_fields(1-5) [OF assms(1)]
  from assms(2) obtain cred where cred: "fst (credentialFromContext ctx) = Some cred"
    unfolding authenticate_def by (auto split: option.splits)
  show ?thesis
  proof (cases "cred \<in> set (apiKeys a)")
    case True
    with assms(2) cred fields show ?thesis by (auto simp: authenticate_def)
  next
    case False
    with assms(2) cred have "parseClaims B K a cred = Some c" by (simp add: authenticate_def)
    then obtain p0 p1 p2 header sig claims where tok: "cred = p0 @ ''.'' @ p1 @ ''.'' @ p2"
      "Option.bind (b64_decode p0) (\<lambda>b. Option.bind (json_Parse B b) to_string_map) = Some header"
      "b64_decode p2 = Some sig" "verifySignature B a (header_get header ''alg'') (p0 @ ''.'' @ p1) sig"
      "Option.bind (b64_decode p1) (\<lambda>b. Option.bind (json_Parse B b) to_raw_map) = Some claims"
      and ok: "times_ok K claims" "binding_ok a claims"
      and c: "c = \<lparr>Subject = fst (stringClaim (claims ''sub'')), Scopes = extractScopes claims\<rparr>"
      by (rule parseClaims_cases)
    from ok(1) obtain t where t: "unixClaim (claims ''exp'') = Some t" "now_Before (now_exp K) (time_Unix t)"
      by (auto simp: times_ok_def split: option.splits)
    have live: "now_exp K < t * second" by (rule now_Before_exp [OF t(2) unixClaim_range [OF t(1)] assms(3)])
    have nbf: "\<exists>n. unixClaim (claims ''nbf'') = Some n \<and> (n * second \<le> now_nbf K \<or> 2 ^ 63 - unixToInternal \<le> n)"
      if "claims ''nbf'' \<noteq> None"
    proof -
      from ok(1) that obtain n where n: "unixClaim (claims ''nbf'') = Some n" "\<not> now_Before (now_nbf K) (time_Unix n)"
        by (auto simp: times_ok_def split: option.splits)
      with now_Before_nbf [OF n(2) unixClaim_range [OF n(1)]] show ?thesis by (auto simp: not_less [symmetric])
    qed
    from ok(2) fields have bind: "(au_JWTIssuer cfg \<noteq> [] \<longrightarrow> fst (stringClaim (claims ''iss'')) = au_JWTIssuer cfg) \<and>
        (au_JWTAudience cfg \<noteq> [] \<longrightarrow> audienceMatches (claims ''aud'') (au_JWTAudience cfg))"
      by (simp add: binding_ok_def)
    note signed = verifySignature_trust [OF assms(1) tok(4)]
    from cred tok(1-3,5) c signed t(1) live nbf bind show ?thesis by blast
  qed
qed

text \<open>A token of three parts under a secret, with a library that knows its two JSON texts.\<close>

definition demo_lib :: auth_lib where
  "demo_lib =
     \<lparr>json_Parse = (\<lambda>s. if s = ''h'' then Some (JObj [(''alg'', JStr ''HS256''), (''typ'', JStr ''JWT'')])
        else if s = ''p'' then Some (JObj [(''exp'', JNum ''99''), (''nbf'', JStr ''10''),
          (''sub'', JStr ''alice''), (''scope'', JStr ''users:read users:write'')])
        else None),
      pem_Decode = (\<lambda>_. None), ParsePKIXPublicKey = (\<lambda>_. None), ParsePKCS1PublicKey = (\<lambda>_. None),
      Sum256 = (\<lambda>s. take 32 s), hmac_SHA256 = (\<lambda>k m. take 1 k), VerifyPKCS1v15 = (\<lambda>_ _ _. False),
      ecdsa_Verify = (\<lambda>_ _ _ _. False)\<rparr>"

definition demo_auth :: AuthConfig where
  "demo_auth =
     \<lparr>au_JWTSecret = ''s3cret'', au_APIKeys = [], au_JWTAudience = [], au_JWTIssuer = [], au_JWTPublicKey = [],
      au_AuditAllows = False, au_MethodScopes = [], au_APIKeyScopes = [], au_DefaultDeny = False\<rparr>"

definition demo_authenticator :: Authenticator where
  "demo_authenticator =
     \<lparr>jwtSecret = ''s3cret'', apiKeys = [], jwtAudience = [], jwtIssuer = [], jwtRSAKey = None, jwtECKey = None,
      auditAllows = False, apiKeyScopes = []\<rparr>"

definition demo_ctx :: Context where
  "demo_ctx = Background\<lparr>md_in := Some [(''authorization'', [''Bearer aA.cA.cw''])]\<rparr>"

definition demo_clock :: auth_clock where
  "demo_clock = \<lparr>now_exp = 50 * second, now_nbf = 50 * second, now_iat = 50 * second\<rparr>"

definition alice :: Claims where
  "alice = \<lparr>Subject = ''alice'', Scopes = [''users:read'', ''users:write'']\<rparr>"

lemma demo_accepts:
  "NewAuthenticator demo_lib demo_auth = Inr demo_authenticator"
  "authenticate demo_lib demo_clock demo_authenticator demo_ctx = Some alice"
  "fst (credentialFromContext demo_ctx) = Some ''aA.cA.cw''"
  by code_simp+

theorem accepted_credential_verified_witness:
  "NewAuthenticator demo_lib demo_auth = Inr demo_authenticator \<and>
   authenticate demo_lib demo_clock demo_authenticator demo_ctx = Some alice \<and>
   (\<exists>p0 p1 p2 header sig. ''aA.cA.cw'' = p0 @ ''.'' @ p1 @ ''.'' @ p2 \<and>
      signed_with demo_lib demo_auth (header_get header ''alg'') (p0 @ ''.'' @ p1) sig)"
  using accepted_credential_verified [OF demo_accepts(1,2)] demo_accepts
  by (auto simp: demo_clock_def demo_auth_def)

end
