(* ===== verification/Interceptors.thy ===== *)
theory Interceptors
  imports Auth
begin

text \<open>
  The server interceptors of \<open>pkg/interceptors\<close> (\<open>server.go\<close>, \<open>requestid.go\<close>, \<open>audit.go\<close>,
  \<open>authz.go\<close>, \<open>limits.go\<close>, \<open>concurrency.go\<close> and the interceptors of \<open>auth.go\<close>) with the metrics
  of \<open>pkg/metrics/metrics.go\<close>.

  A handler maps a context and a \<open>world\<close> to its outcome and the changed world. The world holds
  everything the interceptors read or change: the readings of clock and randomness to come, the
  log, the metrics, the rate limiters, the occupied slots of the concurrency limiter, and the
  state \<open>'s\<close> of the application behind the handler. A panic is an outcome, so that deferred calls
  are visible. A stream handler differs from a unary one in its log fields and metrics only, and
  the response of a stream is \<open>None\<close>. The token bucket of \<open>golang.org/x/time/rate\<close> is a parameter.
\<close>

section \<open>The world of a request\<close>

text \<open>The fields of a log line; a \<open>float64\<close> is kept as it is printed.\<close>

datatype field = FStr string | FBool bool | FDur int | FInt int | FFloat string

datatype level = InfoLevel | WarnLevel | ErrorLevel

record log_line =
  ll_level :: level
  ll_fields :: "(string \<times> field) list"
  ll_msg :: string

record metrics =
  TotalRequests :: "string \<Rightarrow> nat"
  TotalErrors :: "string \<Rightarrow> string \<Rightarrow> nat"
  RequestDuration :: "(string \<times> int \<times> string option) list"
  ActiveStreams :: int
  InFlightRequests :: int
  LoadShed :: "string \<Rightarrow> nat"

text \<open>A token bucket, made by \<open>rate.NewLimiter\<close> and asked by \<open>Allow\<close> at a time.\<close>

record 'l limiter_lib =
  rate_NewLimiter :: "int \<Rightarrow> int \<Rightarrow> 'l"
  rate_Allow :: "int \<Rightarrow> 'l \<Rightarrow> bool \<times> 'l"

record 'l clientLimiter =
  cl_limiter :: 'l
  lastAccess :: int

record 'l PerClientRateLimiter =
  limiters :: "(string, 'l clientLimiter) gomap"
  pc_rate :: int
  pc_burst :: int
  pc_global :: 'l
  pc_quit :: bool

record ('l, 's) world =
  w_clk :: "nat \<Rightarrow> int"
  w_rnd :: "nat \<Rightarrow> string option"
  w_tick :: nat
  w_log :: "log_line list"
  w_met :: metrics
  w_limiter :: 'l
  w_clients :: "'l PerClientRateLimiter"
  w_sem :: nat
  w_app :: 's

datatype 'r outcome = Returned "'r option" "go_error option" | Panicked string

type_synonym ('l, 's, 'r) handler = "Context \<Rightarrow> ('l, 's) world \<Rightarrow> 'r outcome \<times> ('l, 's) world"

text \<open>\<open>time.Now\<close> and \<open>crypto/rand.Read\<close> take the next reading.\<close>

definition time_Now :: "('l, 's) world \<Rightarrow> int \<times> ('l, 's) world" where
  "time_Now w = (w_clk w (w_tick w), w\<lparr>w_tick := Suc (w_tick w)\<rparr>)"

definition rand_Read :: "('l, 's) world \<Rightarrow> string option \<times> ('l, 's) world" where
  "rand_Read w = (w_rnd w (w_tick w), w\<lparr>w_tick := Suc (w_tick w)\<rparr>)"

definition log_to :: "level \<Rightarrow> (string \<times> field) list \<Rightarrow> string \<Rightarrow> ('l, 's) world \<Rightarrow> ('l, 's) world" where
  "log_to lvl fs msg w =
     w\<lparr>w_log := w_log w @ [\<lparr>ll_level = lvl, ll_fields = fs, ll_msg = msg\<rparr>]\<rparr>"

section \<open>Metrics\<close>

definition IncLoadShed :: "string \<Rightarrow> metrics \<Rightarrow> metrics" where
  "IncLoadShed m x = x\<lparr>LoadShed := (LoadShed x)(m := Suc (LoadShed x m))\<rparr>"

definition AddInFlight :: "int \<Rightarrow> metrics \<Rightarrow> metrics" where
  "AddInFlight d x = x\<lparr>InFlightRequests := InFlightRequests x + d\<rparr>"

definition IncTotalRequests :: "string \<Rightarrow> metrics \<Rightarrow> metrics" where
  "IncTotalRequests m x = x\<lparr>TotalRequests := (TotalRequests x)(m := Suc (TotalRequests x m))\<rparr>"

definition IncTotalErrors :: "string \<Rightarrow> string \<Rightarrow> metrics \<Rightarrow> metrics" where
  "IncTotalErrors m c x =
     x\<lparr>TotalErrors := (TotalErrors x)(m := (TotalErrors x m)(c := Suc (TotalErrors x m c)))\<rparr>"

definition ObserveRequestDuration :: "string \<Rightarrow> int \<Rightarrow> metrics \<Rightarrow> metrics" where
  "ObserveRequestDuration m dur x = x\<lparr>RequestDuration := RequestDuration x @ [(m, dur, None)]\<rparr>"

definition ObserveRequestDurationExemplar :: "string \<Rightarrow> int \<Rightarrow> string \<Rightarrow> metrics \<Rightarrow> metrics" where
  "ObserveRequestDurationExemplar m dur traceID x =
     x\<lparr>RequestDuration := RequestDuration x @ [(m, dur, if traceID \<noteq> [] then Some traceID else None)]\<rparr>"

definition IncActiveStreams :: "metrics \<Rightarrow> metrics" where
  "IncActiveStreams x = x\<lparr>ActiveStreams := ActiveStreams x + 1\<rparr>"

definition DecActiveStreams :: "metrics \<Rightarrow> metrics" where
  "DecActiveStreams x = (if ActiveStreams x > 0 then x\<lparr>ActiveStreams := ActiveStreams x - 1\<rparr> else x)"

definition meter :: "(metrics \<Rightarrow> metrics) \<Rightarrow> ('l, 's) world \<Rightarrow> ('l, 's) world" where
  "meter f w = w\<lparr>w_met := f (w_met w)\<rparr>"

section \<open>Request identifiers\<close>

definition extractClientID :: "Context \<Rightarrow> string" where
  "extractClientID ctx = (case v_clientID ctx of None \<Rightarrow> [] | Some c \<Rightarrow> c)"

definition RequestIDFromContext :: "Context \<Rightarrow> string" where
  "RequestIDFromContext ctx = (case v_requestID ctx of None \<Rightarrow> [] | Some r \<Rightarrow> r)"

definition generateRequestID :: "('l, 's) world \<Rightarrow> string \<times> ('l, 's) world" where
  "generateRequestID w =
     (case rand_Read w of
        (None, w') \<Rightarrow> (replicate 32 CHR ''0'', w')
      | (Some b, w') \<Rightarrow> (hex_encode b, w'))"

definition withRequestID :: "Context \<Rightarrow> ('l, 's) world \<Rightarrow> Context \<times> ('l, 's) world" where
  "withRequestID ctx w =
     (let given = (case md_in ctx of
                     None \<Rightarrow> []
                   | Some md \<Rightarrow> (case md_Get md ''x-request-id'' of [] \<Rightarrow> [] | v # _ \<Rightarrow> v));
          (rid, w') = (if given = [] then generateRequestID w else (given, w))
      in (ctx\<lparr>v_requestID := Some rid, md_out := md_out ctx @ [(''x-request-id'', rid)]\<rparr>, w'))"

text \<open>\<open>utf8.ValidString\<close>: the well-formed byte sequences of UTF-8.\<close>

definition cont :: "char \<Rightarrow> bool" where
  "cont c \<longleftrightarrow> CHR 0x80 \<le> c \<and> c \<le> CHR 0xBF"

definition utf8_two :: "char \<Rightarrow> char \<Rightarrow> bool" where
  "utf8_two a b \<longleftrightarrow> CHR 0xC2 \<le> a \<and> a \<le> CHR 0xDF \<and> cont b"

definition utf8_three :: "char \<Rightarrow> char \<Rightarrow> char \<Rightarrow> bool" where
  "utf8_three a b c \<longleftrightarrow> CHR 0xE0 \<le> a \<and> a \<le> CHR 0xEF \<and> cont b \<and> cont c \<and>
     (a = CHR 0xE0 \<longrightarrow> CHR 0xA0 \<le> b) \<and> (a = CHR 0xED \<longrightarrow> b \<le> CHR 0x9F)"

definition utf8_four :: "char \<Rightarrow> char \<Rightarrow> char \<Rightarrow> char \<Rightarrow> bool" where
  "utf8_four a b c d \<longleftrightarrow> CHR 0xF0 \<le> a \<and> a \<le> CHR 0xF4 \<and> cont b \<and> cont c \<and> cont d \<and>
     (a = CHR 0xF0 \<longrightarrow> CHR 0x90 \<le> b) \<and> (a = CHR 0xF4 \<longrightarrow> b \<le> CHR 0x8F)"

fun ValidString :: "string \<Rightarrow> bool" where
  "ValidString [] = True"
| "ValidString (a # s) =
     (if a \<le> CHR 0x7F then ValidString s
      else case s of
        [] \<Rightarrow> False
      | b # t \<Rightarrow>
          if utf8_two a b then ValidString t
          else case t of
            [] \<Rightarrow> False
          | c # u \<Rightarrow>
              if utf8_three a b c then ValidString u
              else case u of [] \<Rightarrow> False | d # v \<Rightarrow> utf8_four a b c d \<and> ValidString v)"

definition getRequestID :: "Context \<Rightarrow> string" where
  "getRequestID ctx =
     (if RequestIDFromContext ctx \<noteq> [] then RequestIDFromContext ctx
      else case md_in ctx of
        None \<Rightarrow> []
      | Some md \<Rightarrow>
          (case md_Get md ''x-request-id'' of
             [v] \<Rightarrow>
               if length v > 128 \<or> \<not> ValidString v then []
               else if list_ex (\<lambda>r. r < CHR 0x20 \<or> r = CHR 0x7F) v then []
               else TrimSpace v
           | _ \<Rightarrow> []))"

definition UnaryRequestIDInterceptor :: "('l, 's, 'r) handler \<Rightarrow> ('l, 's, 'r) handler" where
  "UnaryRequestIDInterceptor handler ctx w = (case withRequestID ctx w of (ctx', w') \<Rightarrow> handler ctx' w')"

definition StreamRequestIDInterceptor :: "('l, 's, 'r) handler \<Rightarrow> ('l, 's, 'r) handler" where
  "StreamRequestIDInterceptor handler ctx w = (case withRequestID ctx w of (ctx', w') \<Rightarrow> handler ctx' w')"

section \<open>Logging, metrics and panic recovery\<close>

definition traceIDFromContext :: "Context \<Rightarrow> string" where
  "traceIDFromContext ctx = (case v_traceID ctx of None \<Rightarrow> [] | Some t \<Rightarrow> t)"

definition withCorrelation :: "Context \<Rightarrow> (string \<times> field) list \<Rightarrow> (string \<times> field) list" where
  "withCorrelation ctx base =
     base @ [(''request_id'', FStr (getRequestID ctx))] @
     (case v_traceID ctx of None \<Rightarrow> [] | Some t \<Rightarrow> [(''trace_id'', FStr t)]) @
     (case v_spanID ctx of None \<Rightarrow> [] | Some t \<Rightarrow> [(''span_id'', FStr t)])"

definition errToString :: "go_error option \<Rightarrow> string" where
  "errToString err = (case err of None \<Rightarrow> [] | Some e \<Rightarrow> Error e)"

definition getErrorCode :: "go_error option \<Rightarrow> string" where
  "getErrorCode err = (case err of None \<Rightarrow> code_String OK | Some e \<Rightarrow> code_String (status_Code (Some e)))"

definition since :: "int \<Rightarrow> ('l, 's) world \<Rightarrow> int \<times> ('l, 's) world" where
  "since start w = (case time_Now w of (t, w') \<Rightarrow> (sat64 (t - start), w'))"

definition logging_interceptor ::
  "(string \<times> field) list \<Rightarrow> string \<Rightarrow> string \<Rightarrow> ('l, 's, 'r) handler \<Rightarrow> ('l, 's, 'r) handler" where
  "logging_interceptor base started completed handler ctx w =
     (let (start, w1) = time_Now w;
          fs = withCorrelation ctx base;
          w2 = log_to InfoLevel fs started w1
      in case handler ctx w2 of
           (Panicked p, w3) \<Rightarrow> (Panicked p, w3)
         | (Returned resp err, w3) \<Rightarrow>
             let (dur, w4) = since start w3
             in (Returned resp err,
                 log_to InfoLevel (fs @ [(''duration'', FDur dur), (''code'', FStr (getErrorCode err))]) completed w4))"

definition UnaryLoggingInterceptor :: "string \<Rightarrow> ('l, 's, 'r) handler \<Rightarrow> ('l, 's, 'r) handler" where
  "UnaryLoggingInterceptor FullMethod =
     logging_interceptor [(''method'', FStr FullMethod)] ''gRPC request started'' ''gRPC request completed''"

definition StreamLoggingInterceptor :: "string \<Rightarrow> ('l, 's, 'r) handler \<Rightarrow> ('l, 's, 'r) handler" where
  "StreamLoggingInterceptor FullMethod =
     logging_interceptor [(''method'', FStr FullMethod), (''stream'', FStr ''true'')]
       ''gRPC stream started'' ''gRPC stream completed''"

text \<open>What the metrics interceptors record after the handler returned.\<close>

definition record_completion :: "string \<Rightarrow> Context \<Rightarrow> int \<Rightarrow> go_error option \<Rightarrow> ('l, 's) world \<Rightarrow> ('l, 's) world" where
  "record_completion m ctx start err w =
     (let (dur, w1) = since start w;
          w2 = meter (ObserveRequestDurationExemplar m dur (traceIDFromContext ctx)) w1
      in if err \<noteq> None then meter (IncTotalErrors m (getErrorCode err)) w2 else w2)"

definition UnaryMetricsInterceptor :: "string \<Rightarrow> ('l, 's, 'r) handler \<Rightarrow> ('l, 's, 'r) handler" where
  "UnaryMetricsInterceptor FullMethod handler ctx w =
     (let (start, w1) = time_Now w;
          w2 = meter (IncTotalRequests FullMethod) w1
      in case handler ctx w2 of
           (Panicked p, w3) \<Rightarrow> (Panicked p, w3)
         | (Returned resp err, w3) \<Rightarrow> (Returned resp err, record_completion FullMethod ctx start err w3))"

definition StreamMetricsInterceptor :: "string \<Rightarrow> ('l, 's, 'r) handler \<Rightarrow> ('l, 's, 'r) handler" where
  "StreamMetricsInterceptor FullMethod handler ctx w =
     (let w1 = meter IncActiveStreams (meter (IncTotalRequests FullMethod) w);
          (start, w2) = time_Now w1
      in case handler ctx w2 of
           (Panicked p, w3) \<Rightarrow> (Panicked p, meter DecActiveStreams w3)
         | (Returned resp err, w3) \<Rightarrow>
             (Returned resp err, meter DecActiveStreams (record_completion FullMethod ctx start err w3)))"

definition recovery :: "string \<Rightarrow> string \<Rightarrow> ('l, 's, 'r) handler \<Rightarrow> ('l, 's, 'r) handler" where
  "recovery msg FullMethod handler ctx w =
     (case handler ctx w of
        (Panicked p, w') \<Rightarrow>
          (Returned None (Some (StatusErr Internal ''internal server error'')),
           log_to ErrorLevel [(''panic'', FStr p), (''method'', FStr FullMethod)] msg w')
      | (Returned resp err, w') \<Rightarrow> (Returned resp err, w'))"

definition UnaryPanicRecoveryInterceptor :: "string \<Rightarrow> ('l, 's, 'r) handler \<Rightarrow> ('l, 's, 'r) handler" where
  "UnaryPanicRecoveryInterceptor = recovery ''panic recovered in gRPC handler''"

definition StreamPanicRecoveryInterceptor :: "string \<Rightarrow> ('l, 's, 'r) handler \<Rightarrow> ('l, 's, 'r) handler" where
  "StreamPanicRecoveryInterceptor = recovery ''panic recovered in gRPC stream handler''"

section \<open>Audit\<close>

definition requiresAuth :: "string \<Rightarrow> bool" where
  "requiresAuth m \<longleftrightarrow> \<not> (m = ''/grpc.health.v1.Health/Check'' \<or> m = ''/grpc.health.v1.Health/Watch'')"

definition auditedMethods :: "string list" where
  "auditedMethods = [''CollectUserMetrics'']"

definition isMutation :: "string \<Rightarrow> bool" where
  "isMutation fullMethod \<longleftrightarrow>
     (let name = after_last CHR ''/'' fullMethod
      in name \<in> set auditedMethods \<or> HasPrefix name ''Create'' \<or> HasPrefix name ''Update'' \<or> HasPrefix name ''Delete'')"

definition remoteAddr :: "Context \<Rightarrow> string" where
  "remoteAddr ctx = (case v_peer ctx of None \<Rightarrow> [] | Some a \<Rightarrow> a)"

definition mutation_record :: "Context \<Rightarrow> string \<Rightarrow> string \<Rightarrow> int \<Rightarrow> log_line" where
  "mutation_record ctx m c dur =
     \<lparr>ll_level = InfoLevel,
      ll_fields = [(''audit'', FBool True), (''event'', FStr ''mutation''), (''method'', FStr m),
        (''client_id'', FStr (extractClientID ctx)), (''request_id'', FStr (getRequestID ctx)),
        (''code'', FStr c), (''duration'', FDur dur)],
      ll_msg = ''audit: mutation''\<rparr>"

definition auditMutation :: "Context \<Rightarrow> string \<Rightarrow> string \<Rightarrow> int \<Rightarrow> ('l, 's) world \<Rightarrow> ('l, 's) world" where
  "auditMutation ctx m c dur w = w\<lparr>w_log := w_log w @ [mutation_record ctx m c dur]\<rparr>"

definition decision_record :: "Context \<Rightarrow> string \<Rightarrow> string \<Rightarrow> string \<Rightarrow> string \<Rightarrow> log_line" where
  "decision_record ctx event m decision clientID =
     \<lparr>ll_level = InfoLevel,
      ll_fields = [(''audit'', FBool True), (''event'', FStr event), (''decision'', FStr decision), (''method'', FStr m),
        (''client_id'', FStr clientID), (''request_id'', FStr (getRequestID ctx)), (''remote_addr'', FStr (remoteAddr ctx))],
      ll_msg = ''audit: '' @ event\<rparr>"

definition auditAuthDecision ::
  "Context \<Rightarrow> string \<Rightarrow> string \<Rightarrow> string \<Rightarrow> string \<Rightarrow> ('l, 's) world \<Rightarrow> ('l, 's) world" where
  "auditAuthDecision ctx event m decision clientID w =
     w\<lparr>w_log := w_log w @ [decision_record ctx event m decision clientID]\<rparr>"

definition UnaryAuditInterceptor :: "string \<Rightarrow> ('l, 's, 'r) handler \<Rightarrow> ('l, 's, 'r) handler" where
  "UnaryAuditInterceptor FullMethod handler ctx w =
     (let (start, w1) = time_Now w
      in case handler ctx w1 of
           (Panicked p, w2) \<Rightarrow> (Panicked p, w2)
         | (Returned resp err, w2) \<Rightarrow>
             if isMutation FullMethod
             then let (dur, w3) = since start w2
                  in (Returned resp err, auditMutation ctx FullMethod (getErrorCode err) dur w3)
             else (Returned resp err, w2))"

definition StreamAuditInterceptor :: "string \<Rightarrow> ('l, 's, 'r) handler \<Rightarrow> ('l, 's, 'r) handler" where
  "StreamAuditInterceptor = UnaryAuditInterceptor"

section \<open>Authentication and authorization\<close>

definition authenticationError :: go_error where
  "authenticationError = StatusErr Unauthenticated ''authentication required''"

text \<open>
  \<open>authenticatePrincipal\<close> in the world: it logs the warning of \<open>credentialFromContext\<close> and reads
  the clock for the times of a token.
\<close>

definition principal :: "auth_lib \<Rightarrow> Authenticator option \<Rightarrow> Context \<Rightarrow> ('l, 's) world \<Rightarrow> Claims option \<times> ('l, 's) world" where
  "principal B auth ctx w =
     (let w1 = (if auth \<noteq> None \<and> snd (credentialFromContext ctx)
                then log_to WarnLevel [] ''both x-api-key and authorization headers present; preferring authorization'' w
                else w);
          (t1, w2) = time_Now w1; (t2, w3) = time_Now w2; (t3, w4) = time_Now w3
      in (authenticatePrincipal B \<lparr>now_exp = t1, now_nbf = t2, now_iat = t3\<rparr> auth ctx, w4))"

definition withClientID :: "Context \<Rightarrow> string \<Rightarrow> Context" where
  "withClientID ctx i = ctx\<lparr>v_clientID := Some i\<rparr>"

definition withClaims :: "Context \<Rightarrow> Claims \<Rightarrow> Context" where
  "withClaims ctx c = ctx\<lparr>v_claims := Some c\<rparr>"

definition ClaimsFromContext :: "Context \<Rightarrow> Claims option" where
  "ClaimsFromContext ctx = v_claims ctx"

declare withClientID_def [simp] withClaims_def [simp] ClaimsFromContext_def [simp]

definition UnaryAuthInterceptorWithAuthenticator ::
  "auth_lib \<Rightarrow> Authenticator option \<Rightarrow> string \<Rightarrow> ('l, 's, 'r) handler \<Rightarrow> ('l, 's, 'r) handler" where
  "UnaryAuthInterceptorWithAuthenticator B auth FullMethod handler ctx w =
     (if requiresAuth FullMethod then
        (case principal B auth ctx w of
           (None, w1) \<Rightarrow>
             (Returned None (Some authenticationError), auditAuthDecision ctx ''authn'' FullMethod ''deny'' [] w1)
         | (Some claims, w1) \<Rightarrow>
             let ctx' = withClaims (withClientID ctx (Subject claims)) claims;
                 w2 = (case auth of
                         Some a \<Rightarrow> if auditAllows a
                           then auditAuthDecision ctx' ''authn'' FullMethod ''allow'' (Subject claims) w1 else w1
                       | None \<Rightarrow> w1)
             in handler ctx' w2)
      else handler ctx w)"

definition StreamAuthInterceptorWithAuthenticator ::
  "auth_lib \<Rightarrow> Authenticator option \<Rightarrow> string \<Rightarrow> ('l, 's, 'r) handler \<Rightarrow> ('l, 's, 'r) handler" where
  "StreamAuthInterceptorWithAuthenticator = UnaryAuthInterceptorWithAuthenticator"

text \<open>The fail-closed compatibility interceptor without an authenticator.\<close>

definition UnaryAuthInterceptor :: "auth_lib \<Rightarrow> string \<Rightarrow> ('l, 's, 'r) handler \<Rightarrow> ('l, 's, 'r) handler" where
  "UnaryAuthInterceptor B = UnaryAuthInterceptorWithAuthenticator B None"

definition StreamAuthInterceptor :: "auth_lib \<Rightarrow> string \<Rightarrow> ('l, 's, 'r) handler \<Rightarrow> ('l, 's, 'r) handler" where
  "StreamAuthInterceptor B = StreamAuthInterceptorWithAuthenticator B None"

definition extractToken :: "Context \<Rightarrow> ('l, 's) world \<Rightarrow> (go_error + string) \<times> ('l, 's) world" where
  "extractToken ctx w =
     (case fst (credentialFromContext ctx) of None \<Rightarrow> Inl authenticationError | Some c \<Rightarrow> Inr c,
      if snd (credentialFromContext ctx)
      then log_to WarnLevel [] ''both x-api-key and authorization headers present; preferring authorization'' w else w)"

definition hasAnyScope :: "string list \<Rightarrow> string list \<Rightarrow> bool" where
  "hasAnyScope have required \<longleftrightarrow> list_ex (\<lambda>r. r \<in> set have) required"

definition authorize ::
  "(string, string list) gomap \<Rightarrow> bool \<Rightarrow> Context \<Rightarrow> string \<Rightarrow> ('l, 's) world \<Rightarrow> go_error option \<times> ('l, 's) world" where
  "authorize policy defaultDeny ctx m w =
     (case mget policy m of
        None \<Rightarrow>
          if defaultDeny
          then (Some (StatusErr PermissionDenied ''no authorization policy for method''),
                auditAuthDecision ctx ''authz'' m ''deny'' (extractClientID ctx) w)
          else (None, w)
      | Some required \<Rightarrow>
          if length required = 0 then (None, w)
          else if (case ClaimsFromContext ctx of None \<Rightarrow> False | Some c \<Rightarrow> hasAnyScope (Scopes c) required) then (None, w)
          else (Some (StatusErr PermissionDenied ''insufficient scope''),
                auditAuthDecision ctx ''authz'' m ''deny'' (extractClientID ctx) w))"

definition UnaryAuthorizationInterceptor ::
  "(string, string list) gomap \<Rightarrow> bool \<Rightarrow> string \<Rightarrow> ('l, 's, 'r) handler \<Rightarrow> ('l, 's, 'r) handler" where
  "UnaryAuthorizationInterceptor policy defaultDeny FullMethod handler ctx w =
     (if \<not> requiresAuth FullMethod then handler ctx w
      else case authorize policy defaultDeny ctx FullMethod w of
        (Some err, w') \<Rightarrow> (Returned None (Some err), w')
      | (None, w') \<Rightarrow> handler ctx w')"

definition StreamAuthorizationInterceptor ::
  "(string, string list) gomap \<Rightarrow> bool \<Rightarrow> string \<Rightarrow> ('l, 's, 'r) handler \<Rightarrow> ('l, 's, 'r) handler" where
  "StreamAuthorizationInterceptor = UnaryAuthorizationInterceptor"

text \<open>Without an authenticator no protected method reaches its handler.\<close>

lemma fail_closed:
  assumes "requiresAuth m"
  shows "fst (UnaryAuthInterceptor B m h ctx w) = Returned None (Some authenticationError)"
    and "StreamAuthInterceptor B m h ctx w = UnaryAuthInterceptor B m h' ctx w"
  using assms
  by (simp_all add: UnaryAuthInterceptor_def StreamAuthInterceptor_def StreamAuthInterceptorWithAuthenticator_def
      UnaryAuthInterceptorWithAuthenticator_def principal_def authenticatePrincipal_def time_Now_def Let_def)

end
