(* ===== verification/Limits.thy ===== *)
theory Limits
  imports Interceptors
begin

text \<open>
  Admission control: the rate limits and deadlines of \<open>pkg/interceptors/limits.go\<close> and the
  concurrency limiter of \<open>pkg/interceptors/concurrency.go\<close>. The critical section of
  \<open>PerClientRateLimiter.Allow\<close> and the call on the bucket it found form one step; the background
  cleanup is a sequence of such steps. The channel of the concurrency limiter is the number of
  its occupied slots, and an interleaved step relation describes many requests in flight.
\<close>

section \<open>Rate limits\<close>

definition at_least_one :: "int \<Rightarrow> int" where
  "at_least_one n = (if n < 1 then 1 else n)"

definition NewRateLimiter :: "'l limiter_lib \<Rightarrow> int \<Rightarrow> int \<Rightarrow> 'l" where
  "NewRateLimiter R perSecond burst = rate_NewLimiter R (at_least_one perSecond) (at_least_one burst)"

definition limiter_Allow :: "'l limiter_lib \<Rightarrow> ('l, 's) world \<Rightarrow> bool \<times> ('l, 's) world" where
  "limiter_Allow R w =
     (let (t, w1) = time_Now w; (ok, l) = rate_Allow R t (w_limiter w1) in (ok, w1\<lparr>w_limiter := l\<rparr>))"

definition UnaryRateLimit :: "'l limiter_lib \<Rightarrow> ('l, 's, 'r) handler \<Rightarrow> ('l, 's, 'r) handler" where
  "UnaryRateLimit R handler ctx w =
     (case limiter_Allow R w of
        (False, w') \<Rightarrow> (Returned None (Some (StatusErr ResourceExhausted ''request rate limit exceeded'')), w')
      | (True, w') \<Rightarrow> handler ctx w')"

definition StreamRateLimit :: "'l limiter_lib \<Rightarrow> ('l, 's, 'r) handler \<Rightarrow> ('l, 's, 'r) handler" where
  "StreamRateLimit = UnaryRateLimit"

section \<open>Rate limits per client\<close>

definition NewPerClientRateLimiter :: "'l limiter_lib \<Rightarrow> int \<Rightarrow> int \<Rightarrow> 'l PerClientRateLimiter" where
  "NewPerClientRateLimiter R r burst =
     \<lparr>limiters = [], pc_rate = r, pc_burst = burst, pc_global = rate_NewLimiter R r burst, pc_quit = False\<rparr>"

definition NewPerClient :: "'l limiter_lib \<Rightarrow> int \<Rightarrow> int \<Rightarrow> 'l PerClientRateLimiter" where
  "NewPerClient R perSecond burst = NewPerClientRateLimiter R (at_least_one perSecond) (at_least_one burst)"

definition pc_Stop :: "'l PerClientRateLimiter \<Rightarrow> 'l PerClientRateLimiter" where
  "pc_Stop p = p\<lparr>pc_quit := True\<rparr>"

text \<open>\<open>access\<close> is the clock reading of the critical section, \<open>t\<close> that of the bucket.\<close>

definition pc_Allow ::
  "'l limiter_lib \<Rightarrow> int \<Rightarrow> int \<Rightarrow> string \<Rightarrow> 'l PerClientRateLimiter \<Rightarrow> bool \<times> 'l PerClientRateLimiter" where
  "pc_Allow R access t clientID p =
     (if clientID = [] then
        (let (ok, g) = rate_Allow R t (pc_global p) in (ok, p\<lparr>pc_global := g\<rparr>))
      else
        (let l = (case mget (limiters p) clientID of
                    None \<Rightarrow> rate_NewLimiter R (pc_rate p) (pc_burst p)
                  | Some cl \<Rightarrow> cl_limiter cl);
             (ok, l') = rate_Allow R t l
         in (ok, p\<lparr>limiters := mput clientID \<lparr>cl_limiter = l', lastAccess = access\<rparr> (limiters p)\<rparr>)))"

definition evictIdle :: "int \<Rightarrow> int \<Rightarrow> 'l PerClientRateLimiter \<Rightarrow> 'l PerClientRateLimiter" where
  "evictIdle age now p =
     p\<lparr>limiters := filter (\<lambda>(i, cl). \<not> sat64 (now - lastAccess cl) > age) (limiters p)\<rparr>"

text \<open>The cleanup goroutine: an eviction at every tick until \<open>Stop\<close>.\<close>

fun cleanupLoop :: "int \<Rightarrow> int list \<Rightarrow> 'l PerClientRateLimiter \<Rightarrow> 'l PerClientRateLimiter" where
  "cleanupLoop interval [] p = p"
| "cleanupLoop interval (now # ticks) p =
     (if pc_quit p then p else cleanupLoop interval ticks (evictIdle (wrap64 (interval * 2)) now p))"

definition UnaryPerClientRateLimit :: "'l limiter_lib \<Rightarrow> ('l, 's, 'r) handler \<Rightarrow> ('l, 's, 'r) handler" where
  "UnaryPerClientRateLimit R handler ctx w =
     (let (access, w1) = time_Now w; (t, w2) = time_Now w1;
          (ok, p) = pc_Allow R access t (extractClientID ctx) (w_clients w2);
          w3 = w2\<lparr>w_clients := p\<rparr>
      in if ok then handler ctx w3
         else (Returned None (Some (StatusErr ResourceExhausted ''per-client rate limit exceeded'')), w3))"

definition StreamPerClientRateLimit :: "'l limiter_lib \<Rightarrow> ('l, 's, 'r) handler \<Rightarrow> ('l, 's, 'r) handler" where
  "StreamPerClientRateLimit = UnaryPerClientRateLimit"

section \<open>Deadlines\<close>

text \<open>\<open>context.WithTimeout\<close> keeps the earlier of the two deadlines.\<close>

definition WithTimeout :: "Context \<Rightarrow> int \<Rightarrow> Context" where
  "WithTimeout ctx t =
     ctx\<lparr>ctx_Timeout := Some (case ctx_Timeout ctx of None \<Rightarrow> t | Some d \<Rightarrow> min d t)\<rparr>"

definition UnaryTimeoutInterceptor :: "int \<Rightarrow> ('l, 's, 'r) handler \<Rightarrow> ('l, 's, 'r) handler" where
  "UnaryTimeoutInterceptor timeout handler ctx w =
     (if timeout \<le> 0 then handler ctx w else handler (WithTimeout ctx timeout) w)"

definition StreamTimeoutInterceptor :: "int \<Rightarrow> ('l, 's, 'r) handler \<Rightarrow> ('l, 's, 'r) handler" where
  "StreamTimeoutInterceptor = UnaryTimeoutInterceptor"

section \<open>Concurrency\<close>

text \<open>Taking a slot if one is free, with the gauge, and giving it back.\<close>

definition sem_acquire :: "int \<Rightarrow> ('l, 's) world \<Rightarrow> ('l, 's) world option" where
  "sem_acquire n w =
     (if int (w_sem w) < n then Some (meter (AddInFlight 1) (w\<lparr>w_sem := Suc (w_sem w)\<rparr>)) else None)"

definition sem_release :: "('l, 's) world \<Rightarrow> ('l, 's) world" where
  "sem_release w = (meter (AddInFlight (-1)) w)\<lparr>w_sem := w_sem w - 1\<rparr>"

definition NewConcurrencyLimitInterceptor :: "int \<Rightarrow> string \<Rightarrow> ('l, 's, 'r) handler \<Rightarrow> ('l, 's, 'r) handler" where
  "NewConcurrencyLimitInterceptor n FullMethod handler ctx w =
     (if n \<le> 0 \<or> \<not> requiresAuth FullMethod then handler ctx w
      else case sem_acquire n w of
        None \<Rightarrow>
          (Returned None (Some (StatusErr ResourceExhausted ''server at capacity'')), meter (IncLoadShed FullMethod) w)
      | Some w1 \<Rightarrow> (case handler ctx w1 of (out, w2) \<Rightarrow> (out, sem_release w2)))"

section \<open>Many requests in flight\<close>

text \<open>
  Requests of many goroutines interleave: a request enters the limiter, where it is admitted or
  shed, and an admitted one leaves it when its handler returns or panics. Between these steps
  handlers change the rest of the world as they like, but not the slots. \<open>rs\<close> are the
  methods of the requests between entering and leaving.
\<close>

inductive conc_step :: "int \<Rightarrow> ('l, 's) world \<times> string list \<Rightarrow> ('l, 's) world \<times> string list \<Rightarrow> bool" for n where
  admit: "0 < n \<Longrightarrow> requiresAuth m \<Longrightarrow> sem_acquire n w = Some w' \<Longrightarrow> conc_step n (w, rs) (w', m # rs)"
| shed: "0 < n \<Longrightarrow> requiresAuth m \<Longrightarrow> sem_acquire n w = None \<Longrightarrow>
    conc_step n (w, rs) (meter (IncLoadShed m) w, rs)"
| leave: "m \<in> set rs \<Longrightarrow> conc_step n (w, rs) (sem_release w, remove1 m rs)"
| work: "w_sem w' = w_sem w \<Longrightarrow> InFlightRequests (w_met w') = InFlightRequests (w_met w) \<Longrightarrow>
    conc_step n (w, rs) (w', rs)"

inductive_cases conc_stepE: "conc_step n (w, rs) s"

inductive conc_reach :: "int \<Rightarrow> ('l, 's) world \<Rightarrow> ('l, 's) world \<times> string list \<Rightarrow> bool" for n w0 where
  start: "conc_reach n w0 (w0, [])"
| step: "conc_reach n w0 s \<Longrightarrow> conc_step n s s' \<Longrightarrow> conc_reach n w0 s'"

section \<open>Facts about the limiters\<close>

lemma sem_acquire_simps:
  "sem_acquire n w = Some w' \<longleftrightarrow> int (w_sem w) < n \<and> w' = meter (AddInFlight 1) (w\<lparr>w_sem := Suc (w_sem w)\<rparr>)"
  "sem_acquire n w = None \<longleftrightarrow> n \<le> int (w_sem w)"
  by (auto simp: sem_acquire_def)

lemma slot_counts [simp]:
  "w_sem (meter f w) = w_sem w" "w_met (meter f w) = f (w_met w)" "w_app (meter f w) = w_app w"
  "w_log (meter f w) = w_log w"
  "InFlightRequests (AddInFlight d x) = InFlightRequests x + d"
  "InFlightRequests (IncLoadShed m x) = InFlightRequests x"
  by (simp_all add: meter_def AddInFlight_def IncLoadShed_def)

definition slots_ok :: "int \<Rightarrow> ('l, 's) world \<times> string list \<Rightarrow> bool" where
  "slots_ok n s \<longleftrightarrow> w_sem (fst s) = length (snd s) \<and> int (length (snd s)) \<le> n \<and>
     InFlightRequests (w_met (fst s)) = int (length (snd s))"

lemma slots_ok_step: "conc_step n s s' \<Longrightarrow> slots_ok n s \<Longrightarrow> slots_ok n s'"
proof (induction rule: conc_step.induct)
  case (leave m rs w)
  then have "int (length rs - Suc 0) = int (length rs) - 1" by (cases rs) auto
  with leave show ?case by (auto simp: slots_ok_def sem_release_def length_remove1)
qed (auto simp: slots_ok_def sem_acquire_simps)

lemma slots_ok_reach:
  assumes "conc_reach n w0 s" and "0 \<le> n" and "w_sem w0 = 0" and "InFlightRequests (w_met w0) = 0"
  shows "slots_ok n s"
  using assms(1)
proof induction
  case start
  with assms show ?case by (simp add: slots_ok_def)
next
  case (step s s')
  then show ?case by (blast intro: slots_ok_step)
qed

text \<open>
  A run of the interceptor is a path of such steps whenever the run of its handler is one that
  keeps the request in flight: it enters, works, and leaves, also when the handler panics.
\<close>

lemma interceptor_path:
  assumes "0 < n" and "requiresAuth m"
    and "\<And>w1 out w2. handler ctx w1 = (out, w2) \<Longrightarrow> \<exists>rs'. (conc_step n)\<^sup>*\<^sup>* (w1, m # rs) (w2, rs') \<and> m \<in> set rs'"
    and "NewConcurrencyLimitInterceptor n m handler ctx w = (out, w')"
  shows "\<exists>rs'. (conc_step n)\<^sup>*\<^sup>* (w, rs) (w', rs')"
proof (cases "sem_acquire n w")
  case None
  with assms(1,2,4) have "w' = meter (IncLoadShed m) w" by (simp add: NewConcurrencyLimitInterceptor_def)
  with conc_step.shed [OF assms(1,2) None, of rs] show ?thesis by blast
next
  case (Some w1)
  obtain out2 w2 where h: "handler ctx w1 = (out2, w2)" by fastforce
  with assms(1,2,4) Some have w': "w' = sem_release w2" by (simp add: NewConcurrencyLimitInterceptor_def)
  from assms(3) [OF h] obtain rs' where path: "(conc_step n)\<^sup>*\<^sup>* (w1, m # rs) (w2, rs')" and m: "m \<in> set rs'" by blast
  from conc_step.admit [OF assms(1,2) Some, of rs] path have "(conc_step n)\<^sup>*\<^sup>* (w, rs) (w2, rs')"
    by (rule converse_rtranclp_into_rtranclp)
  also from conc_step.leave [OF m, of n w2] have "conc_step n (w2, rs') (w', remove1 m rs')" by (simp add: w')
  finally show ?thesis by blast
qed


text \<open>A world with buckets that are never empty.\<close>

definition no_metrics :: metrics where
  "no_metrics =
     \<lparr>TotalRequests = (\<lambda>_. 0), TotalErrors = (\<lambda>_ _. 0), RequestDuration = [], ActiveStreams = 0,
      InFlightRequests = 0, LoadShed = (\<lambda>_. 0)\<rparr>"

definition full_buckets :: "unit limiter_lib" where
  "full_buckets = \<lparr>rate_NewLimiter = (\<lambda>_ _. ()), rate_Allow = (\<lambda>_ _. (True, ()))\<rparr>"

definition demo_world :: "(unit, nat) world" where
  "demo_world =
     \<lparr>w_clk = (\<lambda>n. 50 * second + int n), w_rnd = (\<lambda>_. None), w_tick = 0, w_log = [], w_met = no_metrics,
      w_limiter = (), w_clients = NewPerClient full_buckets 50 100, w_sem = 0, w_app = 7\<rparr>"


section \<open>Buckets of clients\<close>

text \<open>The bucket a client is served from: its own, or a new one when it has none.\<close>

definition bucket :: "'l limiter_lib \<Rightarrow> 'l PerClientRateLimiter \<Rightarrow> string \<Rightarrow> 'l" where
  "bucket R p c = (case mget (limiters p) c of None \<Rightarrow> rate_NewLimiter R (pc_rate p) (pc_burst p) | Some cl \<Rightarrow> cl_limiter cl)"

lemma pc_Allow_own:
  assumes "c \<noteq> []" and "pc_Allow R access t c p = (ok, p')"
  shows "rate_Allow R t (bucket R p c) = (ok, bucket R p' c)"
  using assms by (auto simp: pc_Allow_def bucket_def Let_def gomap_simps split: prod.splits)

lemma pc_Allow_other:
  assumes "d \<noteq> c" and "pc_Allow R access t c p = (ok, p')"
  shows "bucket R p' d = bucket R p d"
  using assms by (auto simp: pc_Allow_def bucket_def Let_def gomap_simps cong: option.case_cong split: prod.splits if_splits)

text \<open>Requests of clients in the order in which they reach the limiter: client, access time, bucket time.\<close>

fun pc_run :: "'l limiter_lib \<Rightarrow> (string \<times> int \<times> int) list \<Rightarrow> 'l PerClientRateLimiter \<Rightarrow> bool list \<times> 'l PerClientRateLimiter" where
  "pc_run R [] p = ([], p)"
| "pc_run R ((c, access, t) # qs) p =
     (let (ok, p1) = pc_Allow R access t c p; (oks, p2) = pc_run R qs p1 in (ok # oks, p2))"

text \<open>One bucket asked at a sequence of times.\<close>

fun bucket_run :: "'l limiter_lib \<Rightarrow> int list \<Rightarrow> 'l \<Rightarrow> bool list" where
  "bucket_run R [] l = []"
| "bucket_run R (t # ts) l = (let (ok, l') = rate_Allow R t l in ok # bucket_run R ts l')"

lemma pc_run_length: "pc_run R qs p = (oks, p') \<Longrightarrow> length oks = length qs"
  by (induction qs arbitrary: p oks p') (auto simp: Let_def split: prod.splits)

text \<open>A client gets the answers of a bucket of its own, whatever the other clients do.\<close>

lemma pc_run_isolated:
  assumes "c \<noteq> []" and "pc_run R qs p = (oks, p')"
  shows "map snd (filter (\<lambda>(q, ok). fst q = c) (zip qs oks)) =
    bucket_run R (map (\<lambda>(c, access, t). t) (filter (\<lambda>q. fst q = c) qs)) (bucket R p c)"
  using assms(2)
proof (induction qs arbitrary: p oks p')
  case Nil
  then show ?case by simp
next
  case (Cons q qs)
  obtain d access t where q: "q = (d, access, t)" by (cases q)
  obtain ok p1 where a: "pc_Allow R access t d p = (ok, p1)" by fastforce
  obtain oks1 p2 where r: "pc_run R qs p1 = (oks1, p2)" by fastforce
  from Cons.prems q a r have oks: "oks = ok # oks1" by simp
  note ih = Cons.IH [OF r]
  show ?case
  proof (cases "d = c")
    case True
    with pc_Allow_own [OF assms(1)] a have "rate_Allow R t (bucket R p c) = (ok, bucket R p1 c)" by blast
    with True ih q oks show ?thesis by simp
  next
    case False
    with pc_Allow_other [OF _ a, of c] have "bucket R p1 c = bucket R p c" by auto
    with False ih q oks show ?thesis by simp
  qed
qed


text \<open>Buckets that hold a number of tokens and are never refilled.\<close>

definition counters :: "int limiter_lib" where
  "counters = \<lparr>rate_NewLimiter = (\<lambda>r b. b), rate_Allow = (\<lambda>t l. if l > 0 then (True, l - 1) else (False, l))\<rparr>"


text \<open>Eviction drops exactly the buckets idle for longer than the age, and no bucket is used while idle.\<close>

lemma evictIdle_keeps:
  assumes "gomap_ok (limiters p)"
  shows "mget (limiters (evictIdle age now p)) c =
    (case mget (limiters p) c of
       None \<Rightarrow> None
     | Some cl \<Rightarrow> if sat64 (now - lastAccess cl) > age then None else Some cl)"
proof -
  have "map_of (filter (\<lambda>(i, cl). \<not> sat64 (now - lastAccess cl) > age) m) c =
     (case map_of m c of None \<Rightarrow> None | Some cl \<Rightarrow> if sat64 (now - lastAccess cl) > age then None else Some cl)"
    if "gomap_ok m" for m :: "(string, 'a clientLimiter) gomap"
    using that
  proof (induction m)
    case Nil
    then show ?case by simp
  next
    case (Cons x m)
    then show ?case by (cases x) (auto split: option.splits dest: mget_SomeD)
  qed
  with assms show ?thesis by (simp add: evictIdle_def)
qed

end
