(* ===== verification/Interceptor_Chain.thy ===== *)
theory Interceptor_Chain
  imports Limits
begin

text \<open>
  The interceptor chains that \<open>newGRPCServer\<close> of \<open>cmd/server/main.go\<close> puts around every handler,
  in the order of the code, and what they guarantee together. An interceptor either refuses a
  request whatever its handler is, or passes it on once with a changed context; these two
  behaviours compose, so that a property of a chain follows from its members.
\<close>

record 'l chain =
  ch_lib :: auth_lib
  ch_rate :: "'l limiter_lib"
  ch_auth :: "Authenticator option"
  ch_policy :: "(string, string list) gomap"
  ch_defaultDeny :: bool
  ch_maxInFlight :: int
  ch_timeout :: int

text \<open>The interceptors between panic recovery and audit.\<close>

definition unary_gates :: "'l chain \<Rightarrow> string \<Rightarrow> ('l, 's, 'r) handler \<Rightarrow> ('l, 's, 'r) handler" where
  "unary_gates C m handler =
     UnaryRequestIDInterceptor (UnaryLoggingInterceptor m (UnaryMetricsInterceptor m (UnaryRateLimit (ch_rate C)
       (UnaryAuthInterceptorWithAuthenticator (ch_lib C) (ch_auth C) m (UnaryPerClientRateLimit (ch_rate C)
         (UnaryAuthorizationInterceptor (ch_policy C) (ch_defaultDeny C) m
           (NewConcurrencyLimitInterceptor (ch_maxInFlight C) m handler)))))))"

definition unary_chain :: "'l chain \<Rightarrow> string \<Rightarrow> ('l, 's, 'r) handler \<Rightarrow> ('l, 's, 'r) handler" where
  "unary_chain C m handler =
     UnaryPanicRecoveryInterceptor m (unary_gates C m
       (UnaryAuditInterceptor m (UnaryTimeoutInterceptor (ch_timeout C) handler)))"

definition stream_gates :: "'l chain \<Rightarrow> string \<Rightarrow> ('l, 's, 'r) handler \<Rightarrow> ('l, 's, 'r) handler" where
  "stream_gates C m handler =
     StreamRequestIDInterceptor (StreamLoggingInterceptor m (StreamMetricsInterceptor m (StreamRateLimit (ch_rate C)
       (StreamAuthInterceptorWithAuthenticator (ch_lib C) (ch_auth C) m (StreamPerClientRateLimit (ch_rate C)
         (StreamAuthorizationInterceptor (ch_policy C) (ch_defaultDeny C) m handler))))))"

definition stream_chain :: "'l chain \<Rightarrow> string \<Rightarrow> ('l, 's, 'r) handler \<Rightarrow> ('l, 's, 'r) handler" where
  "stream_chain C m handler =
     StreamPanicRecoveryInterceptor m (stream_gates C m (StreamAuditInterceptor m handler))"

section \<open>Gates\<close>

type_synonym ('l, 's, 'r) interceptor = "('l, 's, 'r) handler \<Rightarrow> ('l, 's, 'r) handler"

definition refusal_codes :: "code set" where
  "refusal_codes = {Unauthenticated, PermissionDenied, ResourceExhausted}"

definition refuses :: "('l, 's, 'r) interceptor \<Rightarrow> Context \<Rightarrow> ('l, 's) world \<Rightarrow> go_error \<Rightarrow> ('l, 's) world \<Rightarrow> bool" where
  "refuses I ctx w err w' \<longleftrightarrow>
     (\<forall>h. I h ctx w = (Returned None (Some err), w')) \<and> w_app w' = w_app w \<and> status_Code (Some err) \<in> refusal_codes"

text \<open>
  What an interceptor does after the handler: it returns the handler's outcome, keeps the
  application's state and only adds to the log, and after a panic it logs nothing.
\<close>

definition transparent :: "('r outcome \<times> ('l, 's) world \<Rightarrow> 'r outcome \<times> ('l, 's) world) \<Rightarrow> bool" where
  "transparent fin \<longleftrightarrow>
     (\<forall>out w. \<exists>w' more. fin (out, w) = (out, w') \<and> w_app w' = w_app w \<and> w_log w' = w_log w @ more \<and>
        ((\<exists>p. out = Panicked p) \<longrightarrow> more = []))"

definition passes ::
  "('l, 's, 'r) interceptor \<Rightarrow> Context \<Rightarrow> ('l, 's) world \<Rightarrow> Context \<Rightarrow> ('l, 's) world \<Rightarrow>
   ('r outcome \<times> ('l, 's) world \<Rightarrow> 'r outcome \<times> ('l, 's) world) \<Rightarrow> bool" where
  "passes I ctx w ctx' w' fin \<longleftrightarrow>
     (\<forall>h. I h ctx w = fin (h ctx' w')) \<and> transparent fin \<and> w_app w' = w_app w \<and> w_clk w' = w_clk w"

text \<open>A gate passes requests only with a context related to the incoming one (under the clock).\<close>

definition gate :: "((nat \<Rightarrow> int) \<Rightarrow> Context \<Rightarrow> Context \<Rightarrow> bool) \<Rightarrow> ('l, 's, 'r) interceptor \<Rightarrow> bool" where
  "gate P I \<longleftrightarrow>
     (\<forall>ctx w. (\<exists>err w'. refuses I ctx w err w') \<or> (\<exists>ctx' w' fin. passes I ctx w ctx' w' fin \<and> P (w_clk w) ctx ctx'))"

lemma transparent_id: "transparent (\<lambda>r. r)"
  by (simp add: transparent_def)

lemma transparent_comp:
  assumes "transparent f" and "transparent g"
  shows "transparent (\<lambda>r. f (g r))"
  unfolding transparent_def
proof (intro allI)
  fix out w
  obtain w1 m1 where 1: "g (out, w) = (out, w1)" "w_app w1 = w_app w" "w_log w1 = w_log w @ m1"
    "(\<exists>p. out = Panicked p) \<longrightarrow> m1 = []" using assms(2) unfolding transparent_def by blast
  obtain w2 m2 where 2: "f (out, w1) = (out, w2)" "w_app w2 = w_app w1" "w_log w2 = w_log w1 @ m2"
    "(\<exists>p. out = Panicked p) \<longrightarrow> m2 = []" using assms(1) unfolding transparent_def by blast
  from 1 2 show "\<exists>w' more. f (g (out, w)) = (out, w') \<and> w_app w' = w_app w \<and> w_log w' = w_log w @ more \<and>
    ((\<exists>p. out = Panicked p) \<longrightarrow> more = [])" by auto
qed

lemma refuses_behind:
  assumes "passes I ctx w ctx1 w1 fin" and "refuses J ctx1 w1 err w2"
  shows "\<exists>w'. refuses (\<lambda>h. I (J h)) ctx w err w'"
proof -
  from assms(1) have I: "\<And>h. I h ctx w = fin (h ctx1 w1)" and "transparent fin" and app: "w_app w1 = w_app w"
    by (auto simp: passes_def)
  then obtain w' where w': "fin (Returned None (Some err), w2) = (Returned None (Some err), w')" "w_app w' = w_app w2"
    unfolding transparent_def by blast
  from assms(2) have J: "\<And>h. J h ctx1 w1 = (Returned None (Some err), w2)" "w_app w2 = w_app w1"
    "status_Code (Some err) \<in> refusal_codes" by (auto simp: refuses_def)
  have "refuses (\<lambda>h. I (J h)) ctx w err w'" using I J w' app by (simp add: refuses_def)
  then show ?thesis ..
qed

lemma passes_behind:
  assumes "passes I ctx w ctx1 w1 fin1" and "passes J ctx1 w1 ctx2 w2 fin2"
  shows "passes (\<lambda>h. I (J h)) ctx w ctx2 w2 (\<lambda>r. fin1 (fin2 r))"
  using assms transparent_comp unfolding passes_def by auto

lemma gate_comp:
  assumes "gate P I" and "gate Q J"
  shows "gate (\<lambda>k c c2. \<exists>c1. P k c c1 \<and> Q k c1 c2) (\<lambda>h. I (J h))"
  unfolding gate_def
proof (intro allI)
  fix ctx and w :: "('a, 'b) world"
  from assms(1) consider (no) err w' where "refuses I ctx w err w'"
    | (yes) ctx1 w1 fin1 where "passes I ctx w ctx1 w1 fin1" "P (w_clk w) ctx ctx1"
    unfolding gate_def by blast
  then show "(\<exists>err w'. refuses (\<lambda>h. I (J h)) ctx w err w') \<or>
    (\<exists>ctx' w' fin. passes (\<lambda>h. I (J h)) ctx w ctx' w' fin \<and> (\<exists>c1. P (w_clk w) ctx c1 \<and> Q (w_clk w) c1 ctx'))"
  proof cases
    case no
    then have "refuses (\<lambda>h. I (J h)) ctx w err w'" by (simp add: refuses_def)
    then show ?thesis by blast
  next
    case yes
    then have clk: "w_clk w1 = w_clk w" by (simp add: passes_def)
    from assms(2) consider err w' where "refuses J ctx1 w1 err w'"
      | ctx2 w2 fin2 where "passes J ctx1 w1 ctx2 w2 fin2" "Q (w_clk w1) ctx1 ctx2"
      unfolding gate_def by blast
    then show ?thesis
      using refuses_behind [OF yes(1)] passes_behind [OF yes(1)] yes(2) clk by cases metis+
  qed
qed

lemma gate_mono: "gate P I \<Longrightarrow> (\<And>k c c'. P k c c' \<Longrightarrow> Q k c c') \<Longrightarrow> gate Q I"
  unfolding gate_def by meson

section \<open>The interceptors as gates\<close>

lemma world_simps [simp]:
  "w_app (log_to l fs msg w) = w_app w" "w_clk (log_to l fs msg w) = w_clk w" "w_clk (meter f w) = w_clk w"
  "w_app (auditAuthDecision ctx e m d c w) = w_app w" "w_clk (auditAuthDecision ctx e m d c w) = w_clk w"
  by (simp_all add: log_to_def meter_def auditAuthDecision_def)

lemma refusal_codesI [simp]:
  "ResourceExhausted \<in> refusal_codes" "PermissionDenied \<in> refusal_codes" "Unauthenticated \<in> refusal_codes"
  "status_Code (Some authenticationError) \<in> refusal_codes"
  by (simp_all add: refusal_codes_def authenticationError_def)

lemma passes_same: "(\<And>h. I h ctx w = h ctx' w') \<Longrightarrow> w_app w' = w_app w \<Longrightarrow> w_clk w' = w_clk w \<Longrightarrow> passes I ctx w ctx' w' (\<lambda>r. r)"
  by (simp add: passes_def transparent_id)

lemma gateI:
  assumes "\<And>ctx w. (\<exists>err w'. refuses I ctx w err w') \<or> (\<exists>ctx' w' fin. passes I ctx w ctx' w' fin \<and> P (w_clk w) ctx ctx')"
  shows "gate P I"
  using assms by (simp add: gate_def)

definition rid_rel :: "(nat \<Rightarrow> int) \<Rightarrow> Context \<Rightarrow> Context \<Rightarrow> bool" where
  "rid_rel k c c' \<longleftrightarrow> (\<exists>rid. c' = c\<lparr>v_requestID := Some rid, md_out := md_out c @ [(''x-request-id'', rid)]\<rparr>)"

definition same_ctx :: "(nat \<Rightarrow> int) \<Rightarrow> Context \<Rightarrow> Context \<Rightarrow> bool" where
  "same_ctx k c c' \<longleftrightarrow> c' = c"

lemma gate_requestID: "gate rid_rel UnaryRequestIDInterceptor"
proof (rule gateI)
  fix ctx and w :: "('a, 'b) world"
  obtain ctx' w' where R: "withRequestID ctx w = (ctx', w')" by fastforce
  then have "rid_rel (w_clk w) ctx ctx'" "w_app w' = w_app w" "w_clk w' = w_clk w"
    by (auto simp: withRequestID_def rid_rel_def generateRequestID_def rand_Read_def Let_def split: if_splits option.splits prod.splits)
  then have "passes UnaryRequestIDInterceptor ctx w ctx' w' (\<lambda>r. r)" and "rid_rel (w_clk w) ctx ctx'"
    by (auto intro!: passes_same simp: UnaryRequestIDInterceptor_def R)
  then show "(\<exists>err w'. refuses UnaryRequestIDInterceptor ctx w err w') \<or>
    (\<exists>ctx' w' fin. passes UnaryRequestIDInterceptor ctx w ctx' w' fin \<and> rid_rel (w_clk w) ctx ctx')" by blast
qed

text \<open>Interceptors that call the handler once and then act on its outcome.\<close>

lemma gate_around:
  assumes "\<And>h ctx w. I h ctx w = fin ctx w (h ctx (pre ctx w))" and "\<And>ctx w. transparent (fin ctx w)"
    and "\<And>ctx w. w_app (pre ctx w) = w_app w \<and> w_clk (pre ctx w) = w_clk w"
  shows "gate same_ctx I"
proof (rule gateI)
  fix ctx w
  have "passes I ctx w ctx (pre ctx w) (fin ctx w)" using assms by (simp add: passes_def)
  then show "(\<exists>err w'. refuses I ctx w err w') \<or> (\<exists>ctx' w' fin. passes I ctx w ctx' w' fin \<and> same_ctx (w_clk w) ctx ctx')"
    by (auto simp: same_ctx_def)
qed

lemma transparentI:
  assumes "\<And>resp err w. \<exists>w' more. fin (Returned resp err, w) = (Returned resp err, w') \<and> w_app w' = w_app w \<and> w_log w' = w_log w @ more"
    and "\<And>p w. \<exists>w'. fin (Panicked p, w) = (Panicked p, w') \<and> w_app w' = w_app w \<and> w_log w' = w_log w"
  shows "transparent fin"
  unfolding transparent_def
proof (intro allI)
  fix out :: "'a outcome" and w
  show "\<exists>w' more. fin (out, w) = (out, w') \<and> w_app w' = w_app w \<and> w_log w' = w_log w @ more \<and> ((\<exists>p. out = Panicked p) \<longrightarrow> more = [])"
  proof (cases out)
    case (Returned resp err)
    with assms(1) [of resp err w] show ?thesis by auto
  next
    case (Panicked p)
    with assms(2) [of p w] show ?thesis by auto
  qed
qed

lemma gate_logging: "gate same_ctx (logging_interceptor base started completed)"
proof (rule gate_around)
  fix h :: "('a, 'b, 'c) handler" and ctx w
  let ?pre = "\<lambda>ctx w. log_to InfoLevel (withCorrelation ctx base) started (snd (time_Now w))"
  let ?fin = "\<lambda>ctx w r. case r of
      (Panicked p, w3) \<Rightarrow> (Panicked p, w3)
    | (Returned resp err, w3) \<Rightarrow>
        (Returned resp err, log_to InfoLevel (withCorrelation ctx base @
           [(''duration'', FDur (fst (since (fst (time_Now w)) w3))), (''code'', FStr (getErrorCode err))]) completed
           (snd (since (fst (time_Now w)) w3)))"
  show "logging_interceptor base started completed h ctx w = ?fin ctx w (h ctx (?pre ctx w))"
    by (simp add: logging_interceptor_def Let_def case_prod_beta split: outcome.splits prod.splits)
  show "transparent (?fin ctx w)"
    by (rule transparentI) (auto simp: since_def time_Now_def log_to_def Let_def)
  show "w_app (?pre ctx w) = w_app w \<and> w_clk (?pre ctx w) = w_clk w"
    by (simp add: time_Now_def)
qed

lemma since_simps [simp]:
  "w_app (snd (since t w)) = w_app w" "w_clk (snd (since t w)) = w_clk w" "w_log (snd (since t w)) = w_log w"
  "w_app (snd (time_Now w)) = w_app w" "w_clk (snd (time_Now w)) = w_clk w" "w_log (snd (time_Now w)) = w_log w"
  by (simp_all add: since_def time_Now_def)

lemma record_completion_simps [simp]:
  "w_app (record_completion m ctx t err w) = w_app w" "w_log (record_completion m ctx t err w) = w_log w"
  by (simp_all add: record_completion_def Let_def case_prod_beta meter_def)

lemma gate_metrics: "gate same_ctx (UnaryMetricsInterceptor m)"
proof (rule gate_around)
  fix h :: "('a, 'b, 'c) handler" and ctx w
  let ?pre = "\<lambda>ctx w. meter (IncTotalRequests m) (snd (time_Now w))"
  let ?fin = "\<lambda>ctx w r. case r of
      (Panicked p, w3) \<Rightarrow> (Panicked p, w3)
    | (Returned resp err, w3) \<Rightarrow> (Returned resp err, record_completion m ctx (fst (time_Now w)) err w3)"
  show "UnaryMetricsInterceptor m h ctx w = ?fin ctx w (h ctx (?pre ctx w))"
    by (simp add: UnaryMetricsInterceptor_def Let_def case_prod_beta split: outcome.splits prod.splits)
  show "transparent (?fin ctx w)" by (rule transparentI) auto
  show "w_app (?pre ctx w) = w_app w \<and> w_clk (?pre ctx w) = w_clk w" by simp
qed

lemma gate_stream_metrics: "gate same_ctx (StreamMetricsInterceptor m)"
proof (rule gate_around)
  fix h :: "('a, 'b, 'c) handler" and ctx w
  let ?w1 = "\<lambda>w. meter IncActiveStreams (meter (IncTotalRequests m) w)"
  let ?pre = "\<lambda>ctx w. snd (time_Now (?w1 w))"
  let ?fin = "\<lambda>ctx w r. case r of
      (Panicked p, w3) \<Rightarrow> (Panicked p, meter DecActiveStreams w3)
    | (Returned resp err, w3) \<Rightarrow>
        (Returned resp err, meter DecActiveStreams (record_completion m ctx (fst (time_Now (?w1 w))) err w3))"
  show "StreamMetricsInterceptor m h ctx w = ?fin ctx w (h ctx (?pre ctx w))"
    by (simp add: StreamMetricsInterceptor_def Let_def case_prod_beta split: outcome.splits prod.splits)
  show "transparent (?fin ctx w)" by (rule transparentI) auto
  show "w_app (?pre ctx w) = w_app w \<and> w_clk (?pre ctx w) = w_clk w" by simp
qed

text \<open>Interceptors that decide before the handler: a refusal, or one call with the outcome unchanged.\<close>

lemma gate_before:
  assumes "\<And>ctx w. (\<exists>err w'. (\<forall>h. I h ctx w = (Returned None (Some err), w')) \<and> w_app w' = w_app w \<and> status_Code (Some err) \<in> refusal_codes) \<or>
     (\<exists>ctx' w'. (\<forall>h. I h ctx w = h ctx' w') \<and> w_app w' = w_app w \<and> w_clk w' = w_clk w \<and> P (w_clk w) ctx ctx')"
  shows "gate P I"
proof (rule gateI)
  fix ctx w
  from assms [of ctx w] show "(\<exists>err w'. refuses I ctx w err w') \<or> (\<exists>ctx' w' fin. passes I ctx w ctx' w' fin \<and> P (w_clk w) ctx ctx')"
    unfolding refuses_def using passes_same [of I ctx w] by blast
qed

lemma gate_rate: "gate same_ctx (UnaryRateLimit R)"
proof (rule gate_before)
  fix ctx and w :: "('a, 'b) world"
  obtain ok w' where a: "limiter_Allow R w = (ok, w')" by fastforce
  then have "w_app w' = w_app w" "w_clk w' = w_clk w"
    by (auto simp: limiter_Allow_def time_Now_def Let_def split: prod.splits)
  then show "(\<exists>err w'. (\<forall>h. UnaryRateLimit R h ctx w = (Returned None (Some err), w')) \<and> w_app w' = w_app w \<and> status_Code (Some err) \<in> refusal_codes) \<or>
     (\<exists>ctx' w'. (\<forall>h. UnaryRateLimit R h ctx w = h ctx' w') \<and> w_app w' = w_app w \<and> w_clk w' = w_clk w \<and> same_ctx (w_clk w) ctx ctx')"
    by (cases ok) (auto simp: UnaryRateLimit_def a same_ctx_def)
qed

lemma gate_client_rate: "gate same_ctx (UnaryPerClientRateLimit R)"
proof (rule gate_before)
  fix ctx and w :: "('a, 'b) world"
  define w2 where "w2 = snd (time_Now (snd (time_Now w)))"
  obtain ok p where a: "pc_Allow R (fst (time_Now w)) (fst (time_Now (snd (time_Now w)))) (extractClientID ctx) (w_clients w2) = (ok, p)"
    by fastforce
  have I: "UnaryPerClientRateLimit R h ctx w = (if ok then h ctx (w2\<lparr>w_clients := p\<rparr>)
      else (Returned None (Some (StatusErr ResourceExhausted ''per-client rate limit exceeded'')), w2\<lparr>w_clients := p\<rparr>))"
    for h :: "('a, 'b, 'c) handler"
    using a by (simp add: UnaryPerClientRateLimit_def w2_def Let_def case_prod_beta)
  have "w_app (w2\<lparr>w_clients := p\<rparr>) = w_app w" "w_clk (w2\<lparr>w_clients := p\<rparr>) = w_clk w" by (simp_all add: w2_def)
  with I show "(\<exists>err w'. (\<forall>h :: ('a, 'b, 'c) handler. UnaryPerClientRateLimit R h ctx w = (Returned None (Some err), w')) \<and> w_app w' = w_app w \<and> status_Code (Some err) \<in> refusal_codes) \<or>
     (\<exists>ctx' w'. (\<forall>h :: ('a, 'b, 'c) handler. UnaryPerClientRateLimit R h ctx w = h ctx' w') \<and> w_app w' = w_app w \<and> w_clk w' = w_clk w \<and> same_ctx (w_clk w) ctx ctx')"
    by (cases ok) (auto simp: same_ctx_def)
qed

text \<open>A request passes authentication with the claims that \<open>authenticate\<close> returned for its credential.\<close>

definition authn_rel ::
  "auth_lib \<Rightarrow> Authenticator option \<Rightarrow> string \<Rightarrow> (nat \<Rightarrow> int) \<Rightarrow> Context \<Rightarrow> Context \<Rightarrow> bool" where
  "authn_rel B auth m k c c' \<longleftrightarrow>
     (if requiresAuth m then
        (\<exists>a claims t1 t2 t3. auth = Some a \<and>
           authenticate B \<lparr>now_exp = k t1, now_nbf = k t2, now_iat = k t3\<rparr> a c = Some claims \<and>
           c' = c\<lparr>v_clientID := Some (Subject claims), v_claims := Some claims\<rparr>)
      else c' = c)"

lemma principal_world: "principal B auth ctx w = (cl, w') \<Longrightarrow> w_app w' = w_app w \<and> w_clk w' = w_clk w"
  by (auto simp: principal_def time_Now_def Let_def split: if_splits)

lemma principal_claims:
  assumes "principal B auth ctx w = (Some claims, w')"
  shows "\<exists>a t1 t2 t3. auth = Some a \<and>
    authenticate B \<lparr>now_exp = w_clk w t1, now_nbf = w_clk w t2, now_iat = w_clk w t3\<rparr> a ctx = Some claims"
  using assms by (auto simp: principal_def time_Now_def Let_def authenticatePrincipal_def split: if_splits option.splits)

lemma gate_authn: "gate (authn_rel B auth m) (UnaryAuthInterceptorWithAuthenticator B auth m)"
proof (rule gate_before)
  fix ctx and w :: "('a, 'b) world"
  let ?I = "UnaryAuthInterceptorWithAuthenticator B auth m :: ('a, 'b, 'c) interceptor"
  obtain cl w1 where p: "principal B auth ctx w = (cl, w1)" by fastforce
  note pw = principal_world [OF p]
  show "(\<exists>err w'. (\<forall>h. ?I h ctx w = (Returned None (Some err), w')) \<and> w_app w' = w_app w \<and> status_Code (Some err) \<in> refusal_codes) \<or>
     (\<exists>ctx' w'. (\<forall>h. ?I h ctx w = h ctx' w') \<and> w_app w' = w_app w \<and> w_clk w' = w_clk w \<and> authn_rel B auth m (w_clk w) ctx ctx')"
  proof (cases "requiresAuth m")
    case False
    then show ?thesis by (auto simp: UnaryAuthInterceptorWithAuthenticator_def authn_rel_def)
  next
    case True
    show ?thesis
    proof (cases cl)
      case None
      with True p pw show ?thesis by (auto simp: UnaryAuthInterceptorWithAuthenticator_def)
    next
      case (Some claims)
      from principal_claims [of B auth ctx w claims w1] p Some obtain a t1 t2 t3 where
        a: "auth = Some a" "authenticate B \<lparr>now_exp = w_clk w t1, now_nbf = w_clk w t2, now_iat = w_clk w t3\<rparr> a ctx = Some claims"
        by blast
      let ?ctx = "ctx\<lparr>v_clientID := Some (Subject claims), v_claims := Some claims\<rparr>"
      let ?w = "if auditAllows a then auditAuthDecision ?ctx ''authn'' m ''allow'' (Subject claims) w1 else w1"
      have "?I h ctx w = h ?ctx ?w" for h
        using True p Some a(1) by (simp add: UnaryAuthInterceptorWithAuthenticator_def Let_def)
      moreover have "w_app ?w = w_app w" "w_clk ?w = w_clk w" using pw by simp_all
      moreover have "authn_rel B auth m (w_clk w) ctx ?ctx" using True a unfolding authn_rel_def by auto
      ultimately show ?thesis by blast
    qed
  qed
qed

text \<open>What the policy allows: any of the scopes listed for the method.\<close>

definition allowed :: "(string, string list) gomap \<Rightarrow> bool \<Rightarrow> Claims option \<Rightarrow> string \<Rightarrow> bool" where
  "allowed policy defaultDeny claims m \<longleftrightarrow>
     (case mget policy m of
        None \<Rightarrow> \<not> defaultDeny
      | Some required \<Rightarrow> required = [] \<or> (\<exists>c s. claims = Some c \<and> s \<in> set required \<and> s \<in> set (Scopes c)))"

lemma authorize_allowed:
  "authorize policy defaultDeny ctx m w = (None, w) \<and> allowed policy defaultDeny (v_claims ctx) m \<or>
   (\<exists>err w'. authorize policy defaultDeny ctx m w = (Some err, w') \<and> w_app w' = w_app w \<and>
      status_Code (Some err) \<in> refusal_codes \<and> \<not> allowed policy defaultDeny (v_claims ctx) m)"
proof (cases "mget policy m")
  case None
  then show ?thesis by (auto simp: authorize_def allowed_def simp del: mget_None_iff)
next
  case (Some required)
  show ?thesis
  proof (cases "required = [] \<or> (\<exists>c s. v_claims ctx = Some c \<and> s \<in> set required \<and> s \<in> set (Scopes c))")
    case True
    with Some show ?thesis by (auto simp: authorize_def allowed_def hasAnyScope_def list_ex_iff)
  next
    case False
    with Some show ?thesis
      by (cases "v_claims ctx") (auto simp: authorize_def allowed_def hasAnyScope_def list_ex_iff)
  qed
qed

definition authz_rel ::
  "(string, string list) gomap \<Rightarrow> bool \<Rightarrow> string \<Rightarrow> (nat \<Rightarrow> int) \<Rightarrow> Context \<Rightarrow> Context \<Rightarrow> bool" where
  "authz_rel policy defaultDeny m k c c' \<longleftrightarrow>
     c' = c \<and> (requiresAuth m \<longrightarrow> allowed policy defaultDeny (v_claims c) m)"

lemma gate_authz: "gate (authz_rel policy defaultDeny m) (UnaryAuthorizationInterceptor policy defaultDeny m)"
proof (rule gate_before)
  fix ctx and w :: "('a, 'b) world"
  let ?I = "UnaryAuthorizationInterceptor policy defaultDeny m :: ('a, 'b, 'c) interceptor"
  show "(\<exists>err w'. (\<forall>h. ?I h ctx w = (Returned None (Some err), w')) \<and> w_app w' = w_app w \<and> status_Code (Some err) \<in> refusal_codes) \<or>
     (\<exists>ctx' w'. (\<forall>h. ?I h ctx w = h ctx' w') \<and> w_app w' = w_app w \<and> w_clk w' = w_clk w \<and> authz_rel policy defaultDeny m (w_clk w) ctx ctx')"
    using authorize_allowed [of policy defaultDeny ctx m w]
    by (cases "requiresAuth m") (auto simp: UnaryAuthorizationInterceptor_def authz_rel_def)
qed

lemma gate_concurrency: "gate same_ctx (NewConcurrencyLimitInterceptor n m)"
proof (rule gateI)
  fix ctx and w :: "('a, 'b) world"
  let ?I = "NewConcurrencyLimitInterceptor n m :: ('a, 'b, 'c) interceptor"
  show "(\<exists>err w'. refuses ?I ctx w err w') \<or> (\<exists>ctx' w' fin. passes ?I ctx w ctx' w' fin \<and> same_ctx (w_clk w) ctx ctx')"
  proof (cases "n \<le> 0 \<or> \<not> requiresAuth m")
    case True
    then have "passes ?I ctx w ctx w (\<lambda>r. r)" by (auto intro!: passes_same simp: NewConcurrencyLimitInterceptor_def)
    then show ?thesis by (auto simp: same_ctx_def)
  next
    case free: False
    show ?thesis
    proof (cases "sem_acquire n w")
      case None
      with free have "refuses ?I ctx w (StatusErr ResourceExhausted ''server at capacity'') (meter (IncLoadShed m) w)"
        by (simp add: refuses_def NewConcurrencyLimitInterceptor_def)
      then show ?thesis by blast
    next
      case (Some w1)
      let ?fin = "\<lambda>r. (fst r, sem_release (snd r))"
      have "transparent ?fin" by (rule transparentI) (auto simp: sem_release_def)
      moreover have "?I h ctx w = ?fin (h ctx w1)" for h
        using free Some by (simp add: NewConcurrencyLimitInterceptor_def case_prod_beta)
      moreover have "w_app w1 = w_app w" "w_clk w1 = w_clk w" using Some by (auto simp: sem_acquire_simps)
      ultimately have "passes ?I ctx w ctx w1 ?fin" by (simp add: passes_def)
      then show ?thesis by (auto simp: same_ctx_def)
    qed
  qed
qed

section \<open>The chains as gates\<close>

lemmas stream_as_unary = StreamRequestIDInterceptor_def [abs_def, folded UnaryRequestIDInterceptor_def [abs_def]]
  StreamRateLimit_def StreamAuthInterceptorWithAuthenticator_def StreamPerClientRateLimit_def
  StreamAuthorizationInterceptor_def StreamAuditInterceptor_def

text \<open>
  What is known of the context a guarded handler is called with: it carries the claims of an
  accepted credential of the request, and the policy allows these claims to call the method.
\<close>

definition guarded_ctx :: "'l chain \<Rightarrow> string \<Rightarrow> (nat \<Rightarrow> int) \<Rightarrow> Context \<Rightarrow> Context \<Rightarrow> bool" where
  "guarded_ctx C m k c c' \<longleftrightarrow> md_in c' = md_in c \<and> ctx_done c' = ctx_done c \<and>
     (requiresAuth m \<longrightarrow>
       (\<exists>a claims t1 t2 t3. ch_auth C = Some a \<and>
          authenticate (ch_lib C) \<lparr>now_exp = k t1, now_nbf = k t2, now_iat = k t3\<rparr> a c = Some claims \<and>
          v_claims c' = Some claims \<and> v_clientID c' = Some (Subject claims) \<and>
          allowed (ch_policy C) (ch_defaultDeny C) (Some claims) m))"

lemma authenticate_md: "md_in c = md_in c' \<Longrightarrow> authenticate B K a c = authenticate B K a c'"
  by (simp add: authenticate_def credentialFromContext_def)

lemma guarded_ctxI:
  assumes "rid_rel k c c1" and "authn_rel (ch_lib C) (ch_auth C) m k c1 c2" and "authz_rel (ch_policy C) (ch_defaultDeny C) m k c2 c'"
  shows "guarded_ctx C m k c c'"
proof -
  from assms(1) have md: "md_in c1 = md_in c" "ctx_done c1 = ctx_done c" by (auto simp: rid_rel_def)
  note auth = authenticate_md [OF md(1)]
  show ?thesis
    using assms(2,3) md unfolding guarded_ctx_def authn_rel_def authz_rel_def
    by (cases "requiresAuth m") (auto simp: auth, blast)
qed

lemma gate_unary: "gate (guarded_ctx C m) (unary_gates C m)"
proof -
  note g = gate_comp [OF gate_requestID, OF gate_comp [OF gate_logging, OF gate_comp [OF gate_metrics [of m],
    OF gate_comp [OF gate_rate, OF gate_comp [OF gate_authn, OF gate_comp [OF gate_client_rate,
    OF gate_comp [OF gate_authz gate_concurrency [of "ch_maxInFlight C" m]]]]]]]]
  show ?thesis
    unfolding unary_gates_def [abs_def] UnaryLoggingInterceptor_def
    by (rule gate_mono, rule g) (auto simp: same_ctx_def intro: guarded_ctxI)
qed

lemma gate_stream: "gate (guarded_ctx C m) (stream_gates C m)"
proof -
  note g = gate_comp [OF gate_requestID, OF gate_comp [OF gate_logging, OF gate_comp [OF gate_stream_metrics [of m],
    OF gate_comp [OF gate_rate, OF gate_comp [OF gate_authn, OF gate_comp [OF gate_client_rate gate_authz]]]]]]
  show ?thesis
    unfolding stream_gates_def [abs_def] StreamLoggingInterceptor_def stream_as_unary
    by (rule gate_mono, rule g) (auto simp: same_ctx_def intro: guarded_ctxI)
qed

section \<open>What the chains guarantee\<close>

text \<open>The two chains have the same shape: recovery, gates, audit, and the handler's context.\<close>

definition server_chain :: "'l chain \<Rightarrow> string \<Rightarrow> ('l, 's, 'r) interceptor \<Rightarrow> bool" where
  "server_chain C m I \<longleftrightarrow> I = unary_chain C m \<or> I = stream_chain C m"

definition recovered :: "string \<Rightarrow> string \<Rightarrow> 'r outcome \<times> ('l, 's) world \<Rightarrow> 'r outcome \<times> ('l, 's) world" where
  "recovered msg m r =
     (case r of
        (Panicked p, w') \<Rightarrow>
          (Returned None (Some (StatusErr Internal ''internal server error'')),
           log_to ErrorLevel [(''panic'', FStr p), (''method'', FStr m)] msg w')
      | (Returned resp err, w') \<Rightarrow> (Returned resp err, w'))"

definition inner_ctx :: "'l chain \<Rightarrow> Context \<Rightarrow> Context \<Rightarrow> bool" where
  "inner_ctx C c c' \<longleftrightarrow> c' = c \<or> c' = WithTimeout c (ch_timeout C)"

lemma chain_shape:
  assumes "server_chain C m I"
  obtains msg gates inner where "gate (guarded_ctx C m) gates"
    and "\<And>c. inner_ctx C c (inner c)"
    and "\<And>h ctx w. I h ctx w = recovered msg m (gates (UnaryAuditInterceptor m (\<lambda>c. h (inner c))) ctx w)"
proof (cases "I = unary_chain C m")
  case True
  let ?inner = "\<lambda>c. if ch_timeout C \<le> 0 then c else WithTimeout c (ch_timeout C)"
  have timeout: "UnaryTimeoutInterceptor (ch_timeout C) h = (\<lambda>c. h (?inner c))" for h :: "('a, 'b, 'c) handler"
    by (auto simp: UnaryTimeoutInterceptor_def fun_eq_iff)
  show ?thesis
    by (rule that [OF gate_unary, of ?inner "''panic recovered in gRPC handler''"])
      (auto simp: True inner_ctx_def unary_chain_def UnaryPanicRecoveryInterceptor_def recovery_def recovered_def timeout)
next
  case False
  with assms have S: "I = stream_chain C m" by (simp add: server_chain_def)
  show ?thesis
    by (rule that [OF gate_stream, of "\<lambda>c. c" "''panic recovered in gRPC stream handler''"])
      (auto simp: S inner_ctx_def stream_chain_def StreamPanicRecoveryInterceptor_def recovery_def recovered_def
        StreamAuditInterceptor_def)
qed

text \<open>The record that the audit interceptor adds when a mutation completes.\<close>

definition audit_lines :: "Context \<Rightarrow> string \<Rightarrow> 'r outcome \<Rightarrow> log_line list \<Rightarrow> bool" where
  "audit_lines c m out ls \<longleftrightarrow>
     (case out of
        Panicked p \<Rightarrow> ls = []
      | Returned resp err \<Rightarrow>
          if isMutation m then \<exists>dur. ls = [mutation_record c m (getErrorCode err) dur] else ls = [])"

lemma audit_call:
  fixes w :: "('l, 's) world"
  shows "\<exists>w'. w_app w' = w_app w \<and>
   (\<forall>h h' :: ('l, 's, 'r) handler. h c w' = h' c w' \<longrightarrow> UnaryAuditInterceptor m h c w = UnaryAuditInterceptor m h' c w) \<and>
   (\<forall>h :: ('l, 's, 'r) handler. case h c w' of (out, w2) \<Rightarrow>
     \<exists>w3 ls. UnaryAuditInterceptor m h c w = (out, w3) \<and> w_app w3 = w_app w2 \<and> w_log w3 = w_log w2 @ ls \<and>
       audit_lines c m out ls)"
proof (intro exI [of _ "snd (time_Now w)"] conjI allI impI)
  show "w_app (snd (time_Now w)) = w_app w" by simp
  show "UnaryAuditInterceptor m h c w = UnaryAuditInterceptor m h' c w"
    if "h c (snd (time_Now w)) = h' c (snd (time_Now w))" for h h' :: "('l, 's, 'r) handler"
    by (cases "time_Now w") (use that in \<open>simp add: UnaryAuditInterceptor_def\<close>)
  fix h :: "('l, 's, 'r) handler"
  obtain out w2 where H: "h c (snd (time_Now w)) = (out, w2)" by fastforce
  show "case h c (snd (time_Now w)) of (out, w2) \<Rightarrow>
     \<exists>w3 ls. UnaryAuditInterceptor m h c w = (out, w3) \<and> w_app w3 = w_app w2 \<and> w_log w3 = w_log w2 @ ls \<and>
       audit_lines c m out ls"
    by (cases out)
      (auto simp: UnaryAuditInterceptor_def H audit_lines_def auditMutation_def Let_def case_prod_beta)
qed

text \<open>One request through a chain: a refusal for every handler, or one call of the handler.\<close>

lemma chain_call:
  assumes "server_chain C m I"
  obtains (refused) err w' where "refuses I ctx w err w'"
  | (called) c c' w' msg where "guarded_ctx C m (w_clk w) ctx c" and "inner_ctx C c c'" and "w_app w' = w_app w"
    and "\<And>h h'. h c' w' = h' c' w' \<Longrightarrow> I h ctx w = I h' ctx w"
    and "\<And>h out w2. h c' w' = (out, w2) \<Longrightarrow>
      \<exists>w3 ls ls2. I h ctx w = recovered msg m (out, w3) \<and> w_app w3 = w_app w2 \<and> w_log w3 = w_log w2 @ ls @ ls2 \<and>
        audit_lines c m out ls \<and> ((\<exists>p. out = Panicked p) \<longrightarrow> ls2 = [])"
proof -
  from assms obtain msg gates inner where g: "gate (guarded_ctx C m) gates" and inner: "\<And>c. inner_ctx C c (inner c)"
    and I: "\<And>h ctx w. I h ctx w = recovered msg m (gates (UnaryAuditInterceptor m (\<lambda>c. h (inner c))) ctx w)"
    by (rule chain_shape) blast
  from g consider (no) err w' where "refuses gates ctx w err w'"
    | (yes) c w1 fin where "passes gates ctx w c w1 fin" "guarded_ctx C m (w_clk w) ctx c"
    unfolding gate_def by blast
  then show thesis
  proof cases
    case no
    then have "refuses I ctx w err w'" by (simp add: refuses_def I recovered_def)
    then show thesis by (rule refused)
  next
    case yes
    from audit_call [where w = w1 and c = c and m = m] obtain w' where app: "w_app w' = w_app w1"
      and once: "\<And>h h' :: ('a, 'b, 'c) handler. h c w' = h' c w' \<Longrightarrow> UnaryAuditInterceptor m h c w1 = UnaryAuditInterceptor m h' c w1"
      and audit: "\<And>h :: ('a, 'b, 'c) handler. case h c w' of (out, w2) \<Rightarrow>
        \<exists>w3 ls. UnaryAuditInterceptor m h c w1 = (out, w3) \<and> w_app w3 = w_app w2 \<and> w_log w3 = w_log w2 @ ls \<and>
          audit_lines c m out ls" by blast
    from yes(1) have gates: "\<And>h. gates h ctx w = fin (h c w1)" and fin: "transparent fin" and app1: "w_app w1 = w_app w"
      by (auto simp: passes_def)
    show thesis
    proof (rule called [OF yes(2) inner])
      show "w_app w' = w_app w" by (simp add: app app1)
      show "I h ctx w = I h' ctx w" if "h (inner c) w' = h' (inner c) w'" for h h' :: "('a, 'b, 'c) handler"
        using once [of "\<lambda>c. h (inner c)" "\<lambda>c. h' (inner c)"] that by (simp add: I gates)
      fix h :: "('a, 'b, 'c) handler" and out w2
      assume h: "h (inner c) w' = (out, w2)"
      with audit [of "\<lambda>c. h (inner c)"] obtain w3 ls where
        a: "UnaryAuditInterceptor m (\<lambda>c. h (inner c)) c w1 = (out, w3)" "w_app w3 = w_app w2" "w_log w3 = w_log w2 @ ls"
          "audit_lines c m out ls" by auto
      from fin obtain w4 ls2 where f: "fin (out, w3) = (out, w4)" "w_app w4 = w_app w3" "w_log w4 = w_log w3 @ ls2"
        "(\<exists>p. out = Panicked p) \<longrightarrow> ls2 = []" unfolding transparent_def by blast
      have "I h ctx w = recovered msg m (out, w4)" by (simp add: I gates a(1) f(1))
      with a f show "\<exists>w3 ls ls2. I h ctx w = recovered msg m (out, w3) \<and> w_app w3 = w_app w2 \<and>
          w_log w3 = w_log w2 @ ls @ ls2 \<and> audit_lines c m out ls \<and> ((\<exists>p. out = Panicked p) \<longrightarrow> ls2 = [])"
        by auto
    qed
  qed
qed

text \<open>
  C7: no handler runs for a request that is not authenticated and authorized. For every method
  but the health checks and on both chains, a request is either refused, whatever its handler is,
  with \<open>Unauthenticated\<close>, \<open>PermissionDenied\<close> or \<open>ResourceExhausted\<close> and without any effect on the
  application, or its handler is called once. Then a credential of the request was accepted at
  some readings of the clock, the context carries the claims of that principal, and the policy
  allows the method for one of the principal's scopes (or does not restrict it).
\<close>

theorem handler_guarded:
  assumes "requiresAuth m" and "server_chain C m I"
  shows "(\<exists>err w'. (\<forall>h. I h ctx w = (Returned None (Some err), w')) \<and> w_app w' = w_app w \<and>
            status_Code (Some err) \<in> {Unauthenticated, PermissionDenied, ResourceExhausted}) \<or>
     (\<exists>ctx' w' a claims t1 t2 t3.
        (\<forall>h h'. h ctx' w' = h' ctx' w' \<longrightarrow> I h ctx w = I h' ctx w) \<and> w_app w' = w_app w \<and>
        ch_auth C = Some a \<and>
        authenticate (ch_lib C) \<lparr>now_exp = w_clk w t1, now_nbf = w_clk w t2, now_iat = w_clk w t3\<rparr> a ctx = Some claims \<and>
        v_claims ctx' = Some claims \<and> v_clientID ctx' = Some (Subject claims) \<and>
        allowed (ch_policy C) (ch_defaultDeny C) (Some claims) m)"
  using assms(2)
proof (cases rule: chain_call [where ctx = ctx and w = w])
  case (refused err w')
  then show ?thesis by (auto simp: refuses_def refusal_codes_def)
next
  case (called c c' w' msg)
  from called(1) assms(1) obtain a claims t1 t2 t3 where
    g: "ch_auth C = Some a" "v_claims c = Some claims" "v_clientID c = Some (Subject claims)"
      "authenticate (ch_lib C) \<lparr>now_exp = w_clk w t1, now_nbf = w_clk w t2, now_iat = w_clk w t3\<rparr> a ctx = Some claims"
      "allowed (ch_policy C) (ch_defaultDeny C) (Some claims) m"
    unfolding guarded_ctx_def by blast
  from called(2) g(2,3) have "v_claims c' = Some claims" "v_clientID c' = Some (Subject claims)"
    by (auto simp: inner_ctx_def WithTimeout_def)
  with called(3,4) g show ?thesis by blast
qed

text \<open>
  C37: panics are contained, and what the audit trail holds. A request that is not refused calls
  its handler once. When the handler returns, the client gets exactly its response and error, and
  a mutation leaves an audit record with its status code and the authenticated client. When the
  handler panics, the client gets the generic internal error and the panic is logged, but nothing
  else is: a mutation that panicked after changing the application leaves no audit record.
\<close>

theorem completed_mutations_audited:
  assumes "server_chain C m I"
  shows "(\<exists>err w'. (\<forall>h. I h ctx w = (Returned None (Some err), w')) \<and> w_app w' = w_app w) \<or>
     (\<exists>c c' w' msg. guarded_ctx C m (w_clk w) ctx c \<and> inner_ctx C c c' \<and> w_app w' = w_app w \<and>
       (\<forall>h. case h c' w' of
          (Returned resp err, w2) \<Rightarrow>
            \<exists>w3 ls. I h ctx w = (Returned resp err, w3) \<and> w_app w3 = w_app w2 \<and> w_log w3 = w_log w2 @ ls \<and>
              (isMutation m \<longrightarrow> (\<exists>dur. mutation_record c m (getErrorCode err) dur \<in> set ls))
        | (Panicked p, w2) \<Rightarrow>
            \<exists>w3. I h ctx w = (Returned None (Some (StatusErr Internal ''internal server error'')), w3) \<and>
              w_app w3 = w_app w2 \<and>
              w_log w3 = w_log w2 @ [\<lparr>ll_level = ErrorLevel, ll_fields = [(''panic'', FStr p), (''method'', FStr m)], ll_msg = msg\<rparr>]))"
  using assms
proof (cases rule: chain_call [where ctx = ctx and w = w])
  case (refused err w')
  then show ?thesis by (auto simp: refuses_def)
next
  case (called c c' w' msg)
  have "case h c' w' of
          (Returned resp err, w2) \<Rightarrow>
            \<exists>w3 ls. I h ctx w = (Returned resp err, w3) \<and> w_app w3 = w_app w2 \<and> w_log w3 = w_log w2 @ ls \<and>
              (isMutation m \<longrightarrow> (\<exists>dur. mutation_record c m (getErrorCode err) dur \<in> set ls))
        | (Panicked p, w2) \<Rightarrow>
            \<exists>w3. I h ctx w = (Returned None (Some (StatusErr Internal ''internal server error'')), w3) \<and>
              w_app w3 = w_app w2 \<and>
              w_log w3 = w_log w2 @ [\<lparr>ll_level = ErrorLevel, ll_fields = [(''panic'', FStr p), (''method'', FStr m)], ll_msg = msg\<rparr>]"
    for h
  proof -
    obtain out w2 where h: "h c' w' = (out, w2)" by fastforce
    from called(5) [of h out w2, OF h] obtain w3 ls ls2 where I: "I h ctx w = recovered msg m (out, w3)" "w_app w3 = w_app w2"
      "w_log w3 = w_log w2 @ ls @ ls2" "audit_lines c m out ls" "(\<exists>p. out = Panicked p) \<longrightarrow> ls2 = []" by blast
    then show ?thesis
      by (cases out) (auto simp: h recovered_def audit_lines_def log_to_def, blast)
  qed
  with called(1-3) show ?thesis by blast
qed

text \<open>A server with one secret and a policy on one method.\<close>

definition create_method :: string where
  "create_method = ''/example.v1.UserService/CreateUser''"

definition demo_chain :: "unit chain" where
  "demo_chain =
     \<lparr>ch_lib = demo_lib, ch_rate = full_buckets, ch_auth = Some demo_authenticator,
      ch_policy = [(create_method, [''users:write''])], ch_defaultDeny = False, ch_maxInFlight = 2,
      ch_timeout = 30 * second\<rparr>"

theorem handler_guarded_witness:
  "requiresAuth create_method \<and> server_chain demo_chain create_method (unary_chain demo_chain create_method) \<and>
   (\<exists>err w'. \<forall>h :: (unit, nat, unit) handler.
      unary_chain demo_chain create_method h Background demo_world = (Returned None (Some err), w'))"
proof -
  have m: "requiresAuth create_method" by (simp add: requiresAuth_def create_method_def)
  have s: "server_chain demo_chain create_method (unary_chain demo_chain create_method :: (unit, nat, unit) interceptor)"
    by (simp add: server_chain_def)
  have "authenticate B K a Background = None" for B K a
    by (simp add: authenticate_def credentialFromContext_def Background_def)
  with handler_guarded [OF m s, of Background demo_world] m s show ?thesis
    by (auto simp: server_chain_def)
qed

lemma demo_create:
  "fst (unary_chain demo_chain create_method (\<lambda>c w. (Returned (Some ()) None, w)) demo_ctx demo_world) = Returned (Some ()) None"
  by code_simp

theorem completed_mutations_audited_witness:
  "\<exists>w' c dur. unary_chain demo_chain create_method (\<lambda>c w. (Returned (Some ()) None, w)) demo_ctx demo_world = (Returned (Some ()) None, w') \<and>
     mutation_record c create_method ''OK'' dur \<in> set (w_log w')"
proof -
  let ?h = "\<lambda>(c :: Context) (w :: (unit, nat) world). (Returned (Some ()) None, w)"
  have mut: "isMutation create_method" by code_simp
  have s: "server_chain demo_chain create_method (unary_chain demo_chain create_method :: (unit, nat, unit) interceptor)"
    by (simp add: server_chain_def)
  have not_refused: "unary_chain demo_chain create_method ?h demo_ctx demo_world \<noteq> (Returned None (Some err), w)" for err w
    using demo_create by (cases "unary_chain demo_chain create_method ?h demo_ctx demo_world") auto
  have ok: "getErrorCode None = ''OK''" by (simp add: getErrorCode_def)
  from completed_mutations_audited [OF s, of demo_ctx demo_world] show ?thesis
  proof (elim disjE exE conjE)
    fix err w'
    assume "\<forall>h :: (unit, nat, unit) handler. unary_chain demo_chain create_method h demo_ctx demo_world = (Returned None (Some err), w')"
    with not_refused show ?thesis by blast
  next
    fix c c' w' msg
    assume call: "\<forall>h :: (unit, nat, unit) handler. case h c' w' of
          (Returned resp err, w2) \<Rightarrow>
            \<exists>w3 ls. unary_chain demo_chain create_method h demo_ctx demo_world = (Returned resp err, w3) \<and> w_app w3 = w_app w2 \<and>
              w_log w3 = w_log w2 @ ls \<and> (isMutation create_method \<longrightarrow> (\<exists>dur. mutation_record c create_method (getErrorCode err) dur \<in> set ls))
        | (Panicked p, w2) \<Rightarrow>
            \<exists>w3. unary_chain demo_chain create_method h demo_ctx demo_world = (Returned None (Some (StatusErr Internal ''internal server error'')), w3) \<and>
              w_app w3 = w_app w2 \<and>
              w_log w3 = w_log w2 @ [\<lparr>ll_level = ErrorLevel, ll_fields = [(''panic'', FStr p), (''method'', FStr create_method)], ll_msg = msg\<rparr>]"
    from call [THEN spec, of ?h] mut ok show ?thesis by (auto, blast)
  qed
qed

end
