(* ===== verification/Observability.thy ===== *)
theory Observability
  imports Service_Config Storage
begin

text \<open>
  The process-wide observability of the server: the logger of \<open>pkg/logging/logger.go\<close>, the tracer
  provider of \<open>pkg/tracing/tracing.go\<close> and the collector of \<open>pkg/metrics/db.go\<close>.

  The libraries below are parameters: zerolog's \<open>ParseLevel\<close>, the OTLP exporter, the Prometheus
  registry and the statistics of \<open>database/sql\<close>. Package variables and library globals are the
  fields of a record.
\<close>

section \<open>Logging\<close>

datatype logger = JSONLogger | ConsoleLogger | NopLogger | TestLogger nat

text \<open>The global level and time format of zerolog, and the pointer \<open>logger\<close>.\<close>

record 'lv logging =
  lv_global :: 'lv
  lv_TimeFieldFormat :: string
  lv_logger :: "logger option"

record 'lv zerolog =
  zl_ParseLevel :: "string \<Rightarrow> 'lv result"
  zl_InfoLevel :: 'lv

definition logging_init :: "'lv logging \<Rightarrow> 'lv logging" where
  "logging_init s = s\<lparr>lv_logger := Some JSONLogger\<rparr>"

definition Logger :: "'lv logging \<Rightarrow> logger" where
  "Logger s = (case lv_logger s of Some l \<Rightarrow> l | None \<Rightarrow> NopLogger)"

definition RFC3339Nano :: string where
  "RFC3339Nano = ''2006-01-02T15:04:05.999999999Z07:00''"

definition logging_Init :: "'lv zerolog \<Rightarrow> string \<Rightarrow> string \<Rightarrow> 'lv logging \<Rightarrow> 'lv logging" where
  "logging_Init Z level format s =
     s\<lparr>lv_TimeFieldFormat := RFC3339Nano,
       lv_global := (case zl_ParseLevel Z level of Inl err \<Rightarrow> zl_InfoLevel Z | Inr lvl \<Rightarrow> lvl),
       lv_logger := Some (if format = ''json'' then JSONLogger else ConsoleLogger)\<rparr>"

definition SetLevel :: "'lv zerolog \<Rightarrow> string \<Rightarrow> 'lv logging \<Rightarrow> go_error option \<times> 'lv logging" where
  "SetLevel Z level s =
     (case zl_ParseLevel Z level of
        Inl err \<Rightarrow> (Some err, s)
      | Inr lvl \<Rightarrow> (None, s\<lparr>lv_global := lvl\<rparr>))"

definition SetLogger :: "logger option \<Rightarrow> 'lv logging \<Rightarrow> 'lv logging" where
  "SetLogger l s = s\<lparr>lv_logger := l\<rparr>"

section \<open>Tracing\<close>

datatype 'f sampler = ParentBased "'f root_sampler" and 'f root_sampler = AlwaysSample | TraceIDRatioBased 'f

datatype otlp_option = WithEndpointURL string | WithTimeout_opt int | WithInsecure

datatype ('x, 'f) tracer_provider = NoopProvider | BatchProvider 'x "'f sampler" string

text \<open>The exporter's constructor, the comparisons of \<open>float64\<close> with 0 and 1, and \<open>Shutdown\<close>.\<close>

record ('x, 'f) otel =
  otlptracehttp_New :: "otlp_option list \<Rightarrow> 'x result"
  f_le0 :: "'f \<Rightarrow> bool"
  f_ge1 :: "'f \<Rightarrow> bool"
  provider_Shutdown :: "'x \<Rightarrow> go_error option"

definition samplerFor :: "('x, 'f) otel \<Rightarrow> 'f \<Rightarrow> 'f sampler" where
  "samplerFor T ratio =
     (if f_le0 T ratio \<or> f_ge1 T ratio then ParentBased AlwaysSample else ParentBased (TraceIDRatioBased ratio))"

text \<open>The provider that is installed; its shutdown function follows from it.\<close>

definition tracing_Init :: "('x, 'f) otel \<Rightarrow> 'f TracingConfig \<Rightarrow> ('x, 'f) tracer_provider result" where
  "tracing_Init T cfg =
     (if \<not> tr_Enabled cfg then Inr NoopProvider
      else
        let options = [WithEndpointURL (tr_Endpoint cfg), WithTimeout_opt (5 * second)];
            options = (if HasPrefix (ToLower (tr_Endpoint cfg)) ''http://'' then options @ [WithInsecure] else options)
        in case otlptracehttp_New T options of
             Inl err \<Rightarrow> Inl err
           | Inr exporter \<Rightarrow> Inr (BatchProvider exporter (samplerFor T (tr_SampleRatio cfg)) (tr_ServiceName cfg)))"

definition tracing_shutdown :: "('x, 'f) otel \<Rightarrow> ('x, 'f) tracer_provider \<Rightarrow> go_error option" where
  "tracing_shutdown T p = (case p of NoopProvider \<Rightarrow> None | BatchProvider x _ _ \<Rightarrow> provider_Shutdown T x)"

text \<open>
  The calls of OpenTelemetry that the package forwards: a tracer of the installed provider by its
  name, the span of a context, the events of a span, and the handler for gRPC statistics.
\<close>

record ('p, 'c, 'sp, 'h) otel_calls =
  tracer_Start :: "'p \<Rightarrow> string \<Rightarrow> 'c \<Rightarrow> string \<Rightarrow> 'c \<times> 'sp"
  SpanFromContext :: "'c \<Rightarrow> 'sp"
  span_AddEvent :: "'sp \<Rightarrow> string \<Rightarrow> 'sp"
  otelgrpc_NewServerHandler :: 'h

definition NewServerHandler :: "('p, 'c, 'sp, 'h) otel_calls \<Rightarrow> 'h" where
  "NewServerHandler O1 = otelgrpc_NewServerHandler O1"

definition tracing_Start :: "('p, 'c, 'sp, 'h) otel_calls \<Rightarrow> 'p \<Rightarrow> 'c \<Rightarrow> string \<Rightarrow> 'c \<times> 'sp" where
  "tracing_Start O1 provider ctx name = tracer_Start O1 provider ''grpc-service'' ctx name"

definition AddEvent :: "('p, 'c, 'sp, 'h) otel_calls \<Rightarrow> 'c \<Rightarrow> string \<Rightarrow> 'sp" where
  "AddEvent O1 ctx name = span_AddEvent O1 (SpanFromContext O1 ctx) name"

section \<open>Statistics of the connection pool\<close>

record DBStats =
  st_MaxOpenConnections :: int
  st_InUse :: int
  st_Idle :: int
  st_WaitCount :: int
  st_WaitDuration :: int
  st_MaxIdleClosed :: int
  st_MaxLifetimeClosed :: int

record prom_desc =
  pd_fqName :: string
  pd_help :: string

record 'b DBStatsCollector =
  dc_db :: 'b
  dc_maxOpen :: prom_desc
  dc_inUse :: prom_desc
  dc_idle :: prom_desc
  dc_waitCount :: prom_desc
  dc_waitDuration :: prom_desc
  dc_maxIdleClosed :: prom_desc
  dc_maxLifetimeClosed :: prom_desc

definition metrics_namespace :: string where
  "metrics_namespace = ''grpc''"

text \<open>\<open>prometheus.BuildFQName\<close> joins its non-empty parts with underscores; an empty name gives none.\<close>

definition BuildFQName :: "string \<Rightarrow> string \<Rightarrow> string \<Rightarrow> string" where
  "BuildFQName ns sub name =
     (if name = [] then []
      else (if ns = [] then [] else ns @ ''_'') @ (if sub = [] then [] else sub @ ''_'') @ name)"

definition newDBStatsCollector :: "'b \<Rightarrow> string \<Rightarrow> 'b DBStatsCollector" where
  "newDBStatsCollector db subsystem =
     (let sub = (if subsystem \<noteq> [] then subsystem else ''db'');
          desc = (\<lambda>name help. \<lparr>pd_fqName = BuildFQName metrics_namespace sub name, pd_help = help\<rparr>)
      in \<lparr>dc_db = db,
          dc_maxOpen = desc ''max_open_connections'' ''Maximum number of open connections to the database.'',
          dc_inUse = desc ''in_use_connections'' ''The number of connections currently in use.'',
          dc_idle = desc ''idle_connections'' ''The number of idle connections.'',
          dc_waitCount = desc ''wait_count_total'' ''The total number of connections waited for.'',
          dc_waitDuration = desc ''wait_duration_seconds_total'' ''The total time blocked waiting for a new connection in seconds.'',
          dc_maxIdleClosed = desc ''max_idle_closed_total'' ''The total number of connections closed due to SetMaxIdleConns.'',
          dc_maxLifetimeClosed = desc ''max_lifetime_closed_total'' ''The total number of connections closed due to SetConnMaxLifetime.''\<rparr>)"

text \<open>The registry refuses a second collector with the same descriptors and names the first one.\<close>

datatype 'b register_outcome = Registered | AlreadyRegistered "'b DBStatsCollector" | RegisterFailed go_error

definition NewDBStatsCollector ::
  "('b DBStatsCollector \<Rightarrow> 'g \<Rightarrow> 'b register_outcome \<times> 'g) \<Rightarrow> 'b \<Rightarrow> string \<Rightarrow> 'g \<Rightarrow> 'b DBStatsCollector \<times> 'g" where
  "NewDBStatsCollector Register db subsystem g =
     (let c = newDBStatsCollector db subsystem
      in case Register c g of
           (AlreadyRegistered existing, g') \<Rightarrow> (existing, g')
         | (RegisterFailed err, g') \<Rightarrow> (c, g')
         | (Registered, g') \<Rightarrow> (c, g'))"

definition Describe :: "'b DBStatsCollector \<Rightarrow> prom_desc list" where
  "Describe c =
     [dc_maxOpen c, dc_inUse c, dc_idle c, dc_waitCount c, dc_waitDuration c, dc_maxIdleClosed c, dc_maxLifetimeClosed c]"

datatype metric_kind = GaugeValue | CounterValue

text \<open>A scrape reads the statistics once; \<open>of_int\<close> and \<open>seconds\<close> convert to \<open>float64\<close>.\<close>

definition Collect ::
  "('b \<Rightarrow> DBStats) \<Rightarrow> (int \<Rightarrow> 'f) \<Rightarrow> (int \<Rightarrow> 'f) \<Rightarrow> 'b DBStatsCollector \<Rightarrow> (prom_desc \<times> metric_kind \<times> 'f) list" where
  "Collect Stats of_int_f seconds_f c =
     (let stats = Stats (dc_db c)
      in [(dc_maxOpen c, GaugeValue, of_int_f (st_MaxOpenConnections stats)),
          (dc_inUse c, GaugeValue, of_int_f (st_InUse stats)),
          (dc_idle c, GaugeValue, of_int_f (st_Idle stats)),
          (dc_waitCount c, CounterValue, of_int_f (st_WaitCount stats)),
          (dc_waitDuration c, CounterValue, seconds_f (st_WaitDuration stats)),
          (dc_maxIdleClosed c, CounterValue, of_int_f (st_MaxIdleClosed stats)),
          (dc_maxLifetimeClosed c, CounterValue, of_int_f (st_MaxLifetimeClosed stats))])"

section \<open>Facts\<close>

text \<open>A level that does not parse leaves the level in force; initialisation falls back to info.\<close>

lemma SetLevel_keeps: "SetLevel Z level s = (r, s') \<Longrightarrow>
   lv_logger s' = lv_logger s \<and> lv_TimeFieldFormat s' = lv_TimeFieldFormat s \<and> (r \<noteq> None \<longrightarrow> s' = s)"
  by (auto simp: SetLevel_def split: sum.splits)

lemma SetLevel_Init: "SetLevel Z level (logging_Init Z level' format s) = (None, s') \<Longrightarrow> s' = logging_Init Z level format s"
  by (auto simp: SetLevel_def logging_Init_def split: sum.splits)

text \<open>Every collected metric is one that was described, in the same order, and no name repeats.\<close>

lemma Collect_described: "map fst (Collect S f g c) = Describe c"
  by (simp add: Collect_def Describe_def Let_def)

lemma collector_names_distinct: "distinct (map pd_fqName (Describe (newDBStatsCollector db sub)))"
  by (simp add: Describe_def newDBStatsCollector_def BuildFQName_def Let_def)

end
