(* ===== verification/Transport_Security.thy ===== *)
theory Transport_Security
  imports Service_Config
begin

text \<open>
  The TLS settings of the server (\<open>loadTLSCredentials\<close> of \<open>cmd/server/main.go\<close>) and of the client
  (\<open>loadClientTLSCredentials\<close> of \<open>cmd/client/main.go\<close>). Key pairs (\<open>'k\<close>), certificate pools (\<open>'p\<close>)
  and the files they are read from are parameters; what is modelled is which settings end up in the
  \<open>tls.Config\<close> and every way the loading fails.
\<close>

record ('k, 'p) tls_lib =
  LoadX509KeyPair :: "string \<Rightarrow> string \<Rightarrow> 'k result"
  tls_ReadFile :: "string \<Rightarrow> string result"
  NewCertPool :: 'p
  SystemCertPool :: "'p option result"
  AppendCertsFromPEM :: "'p \<Rightarrow> string \<Rightarrow> bool \<times> 'p"

datatype client_auth = NoClientCert | RequireAndVerifyClientCert

definition VersionTLS12 :: int where
  "VersionTLS12 = 771"

record ('k, 'p) tls_Config =
  MinVersion :: int
  Certificates :: "'k list"
  ClientCAs :: "'p option"
  ClientAuth :: client_auth
  RootCAs :: "'p option"
  ServerName :: string

definition server_tls :: "'k \<Rightarrow> ('k, 'p) tls_Config" where
  "server_tls cert =
     \<lparr>MinVersion = VersionTLS12, Certificates = [cert], ClientCAs = None, ClientAuth = NoClientCert, RootCAs = None,
      ServerName = []\<rparr>"

definition loadTLSCredentials :: "('k, 'p) tls_lib \<Rightarrow> 'f Config \<Rightarrow> ('k, 'p) tls_Config result" where
  "loadTLSCredentials X cfg =
     (let t = cfg_TLS cfg in
      case LoadX509KeyPair X (tls_CertFile t) (tls_KeyFile t) of
        Inl err \<Rightarrow> Inl (Wrapf ''load server certificate: '' err)
      | Inr serverCert \<Rightarrow>
          if mtls_Enabled (tls_MTLS t)
          then (case tls_ReadFile X (mtls_ClientCAFile (tls_MTLS t)) of
                  Inl err \<Rightarrow> Inl (Wrapf ''read client CA: '' err)
                | Inr clientCA \<Rightarrow>
                    (case AppendCertsFromPEM X (NewCertPool X) clientCA of
                       (False, _) \<Rightarrow> Inl (ErrorString ''client CA contains no valid certificates'')
                     | (True, certPool) \<Rightarrow>
                         Inr ((server_tls serverCert)\<lparr>ClientCAs := Some certPool, ClientAuth := RequireAndVerifyClientCert\<rparr>)))
          else Inr (server_tls serverCert))"

definition client_roots :: "('k, 'p) tls_lib \<Rightarrow> 'p" where
  "client_roots X = (case SystemCertPool X of Inr (Some pool) \<Rightarrow> pool | _ \<Rightarrow> NewCertPool X)"

definition loadClientTLSCredentials :: "('k, 'p) tls_lib \<Rightarrow> 'f Config \<Rightarrow> ('k, 'p) tls_Config result" where
  "loadClientTLSCredentials X cfg =
     (let t = cfg_TLS cfg in
      if tls_CAFile t = [] then Inl (ErrorString ''tls.ca_file is required for the client when TLS is enabled'')
      else case tls_ReadFile X (tls_CAFile t) of
        Inl err \<Rightarrow> Inl (Wrapf ''read client CA: '' err)
      | Inr caPEM \<Rightarrow>
          (case AppendCertsFromPEM X (client_roots X) caPEM of
             (False, _) \<Rightarrow> Inl (ErrorString ''client CA contains no valid certificates'')
           | (True, rootCAs) \<Rightarrow>
               let serverName = (if cl_ServerName (cfg_Client cfg) = [] then Split CHR '':'' (cl_Address (cfg_Client cfg)) ! 0
                                 else cl_ServerName (cfg_Client cfg));
                   tlsConfig = \<lparr>MinVersion = VersionTLS12, Certificates = [], ClientCAs = None, ClientAuth = NoClientCert,
                                RootCAs = Some rootCAs, ServerName = serverName\<rparr>
               in if mtls_Enabled (tls_MTLS t)
                  then (if tls_ClientCertFile t = [] \<or> tls_ClientKeyFile t = []
                        then Inl (ErrorString ''client certificate and key are required when mTLS is enabled'')
                        else case LoadX509KeyPair X (tls_ClientCertFile t) (tls_ClientKeyFile t) of
                          Inl err \<Rightarrow> Inl (Wrapf ''load client certificate: '' err)
                        | Inr clientCert \<Rightarrow> Inr (tlsConfig\<lparr>Certificates := [clientCert]\<rparr>))
                  else Inr tlsConfig))"

text \<open>
  A server that starts with mutual TLS asks every client for a certificate and verifies it against
  the configured authority, never against the system's.
\<close>

lemma server_mtls:
  assumes "loadTLSCredentials X cfg = Inr t"
  shows "MinVersion t = VersionTLS12 \<and> length (Certificates t) = 1 \<and>
     (mtls_Enabled (tls_MTLS (cfg_TLS cfg)) \<longleftrightarrow> ClientAuth t = RequireAndVerifyClientCert) \<and>
     (mtls_Enabled (tls_MTLS (cfg_TLS cfg)) \<longrightarrow>
        (\<exists>pem pool. tls_ReadFile X (mtls_ClientCAFile (tls_MTLS (cfg_TLS cfg))) = Inr pem \<and>
           AppendCertsFromPEM X (NewCertPool X) pem = (True, pool) \<and> ClientCAs t = Some pool))"
  using assms by (auto simp: loadTLSCredentials_def server_tls_def Let_def split: sum.splits if_splits prod.splits bool.splits)

text \<open>
  The client always verifies the server against a pool that holds the configured authority, under
  the configured name or the host of the address.
\<close>

lemma client_verifies:
  assumes "loadClientTLSCredentials X cfg = Inr t"
  shows "MinVersion t = VersionTLS12 \<and>
     (\<exists>pem pool. tls_ReadFile X (tls_CAFile (cfg_TLS cfg)) = Inr pem \<and>
        AppendCertsFromPEM X (client_roots X) pem = (True, pool) \<and> RootCAs t = Some pool) \<and>
     (cl_ServerName (cfg_Client cfg) \<noteq> [] \<longrightarrow> ServerName t = cl_ServerName (cfg_Client cfg)) \<and>
     (mtls_Enabled (tls_MTLS (cfg_TLS cfg)) \<longleftrightarrow> Certificates t \<noteq> [])"
  using assms
  by (auto simp: loadClientTLSCredentials_def Let_def split: sum.splits if_splits prod.splits bool.splits)

text \<open>Files that hold a certificate, for the examples.\<close>

definition plain_tls :: "(unit, unit) tls_lib" where
  "plain_tls =
     \<lparr>LoadX509KeyPair = \<lambda>_ _. Inr (), tls_ReadFile = \<lambda>_. Inr [], NewCertPool = (), SystemCertPool = Inr None,
      AppendCertsFromPEM = \<lambda>_ _. (True, ())\<rparr>"

end
