(* ===== verification/Server_Main.thy ===== *)
theory Server_Main
  imports Repository_Stack Interceptor_Chain Observability Transport_Security
begin

text \<open>
  The server program, \<open>cmd/server/main.go\<close>: the gRPC server with its interceptor chains and
  transport options, the readiness and health endpoints, the CORS wrapper, the reload of the log
  level, and the life of the process in \<open>run\<close>.

  \<open>run\<close> is a function from what its surroundings answer, a \<open>host\<close>, to its error and the trace of
  its effects: what is opened and closed, announced, served and logged, in the order of the code.
  A deferred call appears in the trace where Go runs it, after the body and in reverse order of
  registration.
\<close>

section \<open>The gRPC server\<close>

record keepalive_params =
  MaxConnectionIdle :: int
  MaxConnectionAge :: int
  MaxConnectionAgeGrace :: int
  ka_Time :: int
  ka_Timeout :: int
  MinTime :: int
  PermitWithoutStream :: bool

record ('k, 'p, 'l) grpc_server =
  gs_chain :: "'l chain"
  gs_limiter :: 'l
  gs_clients :: "'l PerClientRateLimiter"
  MaxRecvMsgSize :: int
  MaxSendMsgSize :: int
  MaxConcurrentStreams :: int
  gs_keepalive :: keepalive_params
  gs_creds :: "('k, 'p) tls_Config option"
  gs_tracing :: bool

definition chain_of :: "auth_lib \<Rightarrow> 'l limiter_lib \<Rightarrow> 'f Config \<Rightarrow> Authenticator \<Rightarrow> 'l chain" where
  "chain_of B R cfg authenticator =
     \<lparr>ch_lib = B, ch_rate = R, ch_auth = Some authenticator, ch_policy = au_MethodScopes (cfg_Auth cfg),
      ch_defaultDeny = au_DefaultDeny (cfg_Auth cfg), ch_maxInFlight = sv_MaxInFlightRequests (cfg_Server cfg),
      ch_timeout = sv_Timeout (cfg_Server cfg)\<rparr>"

definition uint32 :: "int \<Rightarrow> int" where
  "uint32 x = x mod 2 ^ 32"

definition newGRPCServer ::
  "auth_lib \<Rightarrow> 'l limiter_lib \<Rightarrow> ('k, 'p) tls_lib \<Rightarrow> 'f Config \<Rightarrow> Authenticator \<Rightarrow> ('k, 'p, 'l) grpc_server result" where
  "newGRPCServer B R X cfg authenticator =
     (let s = cfg_Server cfg;
          server = \<lparr>gs_chain = chain_of B R cfg authenticator,
            gs_limiter = NewRateLimiter R (sv_RateLimitPerSecond s) (sv_RateLimitBurst s),
            gs_clients = NewPerClient R (sv_PerClientRateLimitPerSecond s) (sv_PerClientRateLimitBurst s),
            MaxRecvMsgSize = wrap64 (wrap64 (sv_MaxRecvMessageMB s * 1024) * 1024),
            MaxSendMsgSize = wrap64 (wrap64 (sv_MaxSendMessageMB s * 1024) * 1024),
            MaxConcurrentStreams = uint32 (sv_MaxConns s),
            gs_keepalive = \<lparr>MaxConnectionIdle = 15 * minute, MaxConnectionAge = 30 * minute,
              MaxConnectionAgeGrace = sv_Timeout s, ka_Time = 1 * minute, ka_Timeout = 20 * second,
              MinTime = 10 * second, PermitWithoutStream = False\<rparr>,
            gs_creds = None, gs_tracing = tr_Enabled (cfg_Tracing cfg)\<rparr>
      in if tls_Enabled (cfg_TLS cfg)
         then (case loadTLSCredentials X cfg of
                 Inl err \<Rightarrow> Inl (Wrapf ''load TLS credentials: '' err)
               | Inr creds \<Rightarrow> Inr (server\<lparr>gs_creds := Some creds\<rparr>))
         else Inr server)"

section \<open>Readiness, health and CORS\<close>

text \<open>The readiness check is the repository's \<open>Ping\<close>; \<open>None\<close> when none is set.\<close>

record 's readinessState =
  rs_ready :: bool
  rs_check :: "(Context option \<Rightarrow> 's \<Rightarrow> go_error option \<times> 's) option"

definition new_readiness :: "'s readinessState" where
  "new_readiness = \<lparr>rs_ready = False, rs_check = None\<rparr>"

definition readiness_Set :: "bool \<Rightarrow> 's readinessState \<Rightarrow> 's readinessState" where
  "readiness_Set v r = r\<lparr>rs_ready := v\<rparr>"

definition readiness_Get :: "'s readinessState \<Rightarrow> bool" where
  "readiness_Get r = rs_ready r"

definition readiness_SetCheck ::
  "(Context option \<Rightarrow> 's \<Rightarrow> go_error option \<times> 's) \<Rightarrow> 's readinessState \<Rightarrow> 's readinessState" where
  "readiness_SetCheck ping r = r\<lparr>rs_check := Some ping\<rparr>"

definition readiness_Check :: "'s readinessState \<Rightarrow> Context \<Rightarrow> 's \<Rightarrow> bool \<times> 's" where
  "readiness_Check r ctx s =
     (if \<not> rs_ready r then (False, s)
      else case rs_check r of
        None \<Rightarrow> (True, s)
      | Some ping \<Rightarrow> (case ping (Some (WithTimeout ctx (2 * second))) s of (err, s') \<Rightarrow> (err = None, s')))"

record http_response =
  hs_Status :: int
  hs_Header :: "(string, string) gomap"
  hs_Body :: string

definition newline :: string where
  "newline = [CHR 0x0A]"

definition text_plain :: "(string, string) gomap" where
  "text_plain = [(''Content-Type'', ''text/plain; charset=utf-8'')]"

text \<open>\<open>http.Error\<close> sets its own headers and ends the message with a line break.\<close>

definition http_Error :: "string \<Rightarrow> int \<Rightarrow> http_response" where
  "http_Error msg code =
     \<lparr>hs_Status = code, hs_Header = text_plain @ [(''X-Content-Type-Options'', ''nosniff'')], hs_Body = msg @ newline\<rparr>"

definition healthHandler :: "'s readinessState \<Rightarrow> string \<Rightarrow> Context \<Rightarrow> 's \<Rightarrow> http_response \<times> 's" where
  "healthHandler readiness path ctx s =
     (if path = ''/healthz'' then (\<lparr>hs_Status = 200, hs_Header = text_plain, hs_Body = ''ok'' @ newline\<rparr>, s)
      else if path = ''/readyz'' then
        (case readiness_Check readiness ctx s of
           (False, s') \<Rightarrow> (http_Error (''not ready'' @ newline) 503, s')
         | (True, s') \<Rightarrow> (\<lparr>hs_Status = 200, hs_Header = text_plain, hs_Body = ''ready'' @ newline\<rparr>, s'))
      else (http_Error ''404 page not found'' 404, s))"

definition cors_headers :: "(string, string) gomap" where
  "cors_headers =
     [(''Access-Control-Allow-Origin'', ''*''),
      (''Access-Control-Allow-Methods'', ''GET, POST, PUT, DELETE, OPTIONS''),
      (''Access-Control-Allow-Headers'', ''Content-Type, Authorization, X-Request-ID, X-Api-Key''),
      (''Access-Control-Expose-Headers'', ''X-Request-ID'')]"

text \<open>The wrapped handler adds to the headers that are already set.\<close>

definition corsMiddleware ::
  "((string, string) gomap \<Rightarrow> 's \<Rightarrow> http_response \<times> 's) \<Rightarrow> string \<Rightarrow> (string, string) gomap \<Rightarrow> 's \<Rightarrow> http_response \<times> 's" where
  "corsMiddleware next_h meth header s =
     (let header = fold (\<lambda>(k, v). mput k v) cors_headers header
      in if meth = ''OPTIONS'' then (\<lparr>hs_Status = 204, hs_Header = header, hs_Body = []\<rparr>, s)
         else next_h header s)"

record http_server =
  hv_Addr :: string
  ReadHeaderTimeout :: int
  ReadTimeout :: int
  WriteTimeout :: int
  IdleTimeout :: int

definition newHTTPServer :: "string \<Rightarrow> http_server" where
  "newHTTPServer address =
     \<lparr>hv_Addr = address, ReadHeaderTimeout = 5 * second, ReadTimeout = 10 * second, WriteTimeout = 10 * second,
      IdleTimeout = 60 * second\<rparr>"

section \<open>Reloading the log level\<close>

definition defaultConfigPath :: string where
  "defaultConfigPath = ''configs/config.yaml''"

definition config_path :: "'f config_lib \<Rightarrow> string" where
  "config_path L =
     (let configPath = (case LookupEnv L ''CONFIG_PATH'' of None \<Rightarrow> [] | Some p \<Rightarrow> p)
      in if blank configPath then defaultConfigPath else configPath)"

text \<open>What the loop receives: the end of its context, or SIGHUP with the files and environment of that moment.\<close>

datatype 'f hup = CtxDone | SIGHUP "'f config_lib"

fun watchLogLevel :: "'lv zerolog \<Rightarrow> ('f hup) list \<Rightarrow> 'lv logging \<Rightarrow> 'lv logging" where
  "watchLogLevel Z [] s = s"
| "watchLogLevel Z (CtxDone # hs) s = s"
| "watchLogLevel Z (SIGHUP L # hs) s =
     (case Load L (config_path L) of
        Inl err \<Rightarrow> watchLogLevel Z hs s
      | Inr cfg \<Rightarrow> watchLogLevel Z hs (snd (SetLevel Z (lg_Level (cfg_Logging cfg)) s)))"

text \<open>A reload changes the level and nothing else of the logger.\<close>

lemma watchLogLevel_only_level:
  "lv_logger (watchLogLevel Z hs s) = lv_logger s \<and> lv_TimeFieldFormat (watchLogLevel Z hs s) = lv_TimeFieldFormat s"
proof (induction Z hs s rule: watchLogLevel.induct)
  case (3 Z L hs s)
  have "lv_logger (snd (SetLevel Z l s)) = lv_logger s \<and> lv_TimeFieldFormat (snd (SetLevel Z l s)) = lv_TimeFieldFormat s" for l
    using SetLevel_keeps [of Z l s] by (cases "SetLevel Z l s") simp
  with 3 show ?case by (auto split: sum.splits)
qed simp_all

section \<open>The life of the process\<close>

datatype server = GRPC | Health | Metrics | Gateway

datatype resource = Tracing | Repository_r | ClientLimiter | Listener server

datatype select_event = ShutdownSignal | ServeError go_error

datatype event =
    LoggingInit string string | WatchStarted
  | Opened resource | Closed resource
  | DBStatsRegistered
  | HealthStatus bool | ReadySet bool
  | ServiceRegistered | HealthRegistered | ReflectionRegistered
  | Serving server
  | GracefulStop | ForcedStop | HTTPShutdown server
  | LogInfo string | LogError string go_error

text \<open>
  What the surroundings answer. A listener is known by its server; \<open>h_served\<close> is what the requests
  served until the drain made of the repository, \<open>h_graceful\<close> whether the graceful stop ended before
  the drain deadline.
\<close>

record ('x, 'f, 'd, 'l, 'k, 'p) host =
  h_cfg :: "'f config_lib"
  h_auth :: auth_lib
  h_otel :: "('x, 'f) otel"
  h_pg :: "'d postgres"
  h_db :: 'd
  h_rate :: "'l limiter_lib"
  h_tls :: "('k, 'p) tls_lib"
  h_Listen :: "server \<Rightarrow> string \<Rightarrow> go_error option"
  h_Close :: "server \<Rightarrow> go_error option"
  h_gateway :: "go_error option"
  h_select :: select_event
  h_served :: "'d repository \<Rightarrow> 'd repository"
  h_graceful :: bool
  h_Shutdown :: "server \<Rightarrow> go_error option"

type_synonym ended = "go_error option \<times> event list"

definition JoinHostPort :: "string \<Rightarrow> string \<Rightarrow> string" where
  "JoinHostPort h port = (if CHR '':'' \<in> set h then ''['' @ h @ '']:'' @ port else h @ '':'' @ port)"

text \<open>Effects before a continuation, and a deferred clean-up after it.\<close>

definition doing :: "event list \<Rightarrow> ended \<Rightarrow> ended" where
  "doing es k = (fst k, es @ snd k)"

definition holding :: "resource \<Rightarrow> event list \<Rightarrow> ended \<Rightarrow> ended" where
  "holding r cleanup k = (fst k, Opened r # snd k @ Closed r # cleanup)"

definition failing :: "go_error \<Rightarrow> ended" where
  "failing err = (Some err, [])"

definition closeListener :: "go_error option \<Rightarrow> event list" where
  "closeListener closeErr =
     (case closeErr of
        None \<Rightarrow> []
      | Some err \<Rightarrow> if \<not> errors_Is err net_ErrClosed then [LogError ''listener close failed'' err] else [])"

definition log_failure :: "string \<Rightarrow> go_error option \<Rightarrow> event list" where
  "log_failure msg e = (case e of None \<Rightarrow> [] | Some err \<Rightarrow> [LogError msg err])"

definition listening ::
  "('x, 'f, 'd, 'l, 'k, 'p) host \<Rightarrow> server \<Rightarrow> string \<Rightarrow> string \<Rightarrow> ended \<Rightarrow> ended" where
  "listening H sv what address k =
     (case h_Listen H sv address of
        Some err \<Rightarrow> failing (Wrapf (''listen for '' @ what @ '' on '' @ address @ '': '') err)
      | None \<Rightarrow> holding (Listener sv) (closeListener (h_Close H sv)) k)"

definition shutdownGRPC :: "bool \<Rightarrow> event list" where
  "shutdownGRPC graceful = (if graceful then [GracefulStop] else [ForcedStop, GracefulStop])"

definition normalizeServeError :: "go_error option \<Rightarrow> go_error option" where
  "normalizeServeError err =
     (case err of
        None \<Rightarrow> None
      | Some e \<Rightarrow> if errors_Is e grpc_ErrServerStopped \<or> errors_Is e http_ErrServerClosed then None else Some e)"

text \<open>\<open>Shutdown\<close> of an HTTP server: its error is kept only if there is none yet.\<close>

definition shutdown_http ::
  "('x, 'f, 'd, 'l, 'k, 'p) host \<Rightarrow> server \<Rightarrow> string \<Rightarrow> go_error option \<Rightarrow> go_error option" where
  "shutdown_http H sv what runErr =
     (case h_Shutdown H sv of
        Some err \<Rightarrow> if runErr = None then Some (Wrapf (''shutdown '' @ what @ '' server: '') err) else runErr
      | None \<Rightarrow> runErr)"

text \<open>From the start of the servers to the end of the drain.\<close>

definition serve_and_drain :: "('x, 'f, 'd, 'l, 'k, 'p) host \<Rightarrow> 'f Config \<Rightarrow> ended" where
  "serve_and_drain H cfg =
     (let metrics = mt_Enabled (cfg_Metrics cfg); gateway = gw_Enabled (cfg_Gateway cfg);
          started = [Serving GRPC, Serving Health] @ (if metrics then [Serving Metrics] else []) @
                    (if gateway then [Serving Gateway] else []);
          (runErr, selected) =
            (case h_select H of
               ShutdownSignal \<Rightarrow> (None, [LogInfo ''shutdown signal received''])
             | ServeError e \<Rightarrow>
                 (Some e, if \<not> errors_Is e grpc_ErrServerStopped \<and> \<not> errors_Is e http_ErrServerClosed
                          then [LogError ''server listener failed'' e] else []));
          runErr = shutdown_http H Health ''health'' runErr;
          runErr = (if metrics then shutdown_http H Metrics ''metrics'' runErr else runErr);
          runErr = (if gateway then shutdown_http H Gateway ''gateway'' runErr else runErr)
      in (normalizeServeError runErr,
          started @ [ReadySet True, HealthStatus True, LogInfo ''gRPC server ready''] @ selected @
          [ReadySet False, HealthStatus False] @ shutdownGRPC (h_graceful H) @ [HTTPShutdown Health] @
          (if metrics then [HTTPShutdown Metrics] else []) @ (if gateway then [HTTPShutdown Gateway] else [])))"

definition with_gateway :: "('x, 'f, 'd, 'l, 'k, 'p) host \<Rightarrow> 'f Config \<Rightarrow> ended" where
  "with_gateway H cfg =
     (if gw_Enabled (cfg_Gateway cfg)
      then (case h_gateway H of
              Some err \<Rightarrow> failing (Wrapf ''register gateway handler: '' err)
            | None \<Rightarrow>
                listening H Gateway ''gateway'' (JoinHostPort (sv_Host (cfg_Server cfg)) (show_int (gw_Port (cfg_Gateway cfg))))
                  (serve_and_drain H cfg))
      else serve_and_drain H cfg)"

definition with_metrics :: "('x, 'f, 'd, 'l, 'k, 'p) host \<Rightarrow> 'f Config \<Rightarrow> ended" where
  "with_metrics H cfg =
     (if mt_Enabled (cfg_Metrics cfg)
      then if mt_Port (cfg_Metrics cfg) = hl_Port (cfg_Health cfg)
           then failing (ErrorString ''metrics.port and health.port must differ'')
           else listening H Metrics ''metrics'' (JoinHostPort (sv_Host (cfg_Server cfg)) (show_int (mt_Port (cfg_Metrics cfg))))
                  (with_gateway H cfg)
      else with_gateway H cfg)"

definition with_server :: "('x, 'f, 'd, 'l, 'k, 'p) host \<Rightarrow> 'f Config \<Rightarrow> ended" where
  "with_server H cfg =
     doing ([ServiceRegistered, HealthRegistered] @ (if cfg_Reflection cfg then [ReflectionRegistered] else []))
       (listening H GRPC ''gRPC'' (JoinHostPort (sv_Host (cfg_Server cfg)) (show_int (sv_Port (cfg_Server cfg))))
         (listening H Health ''health'' (JoinHostPort (sv_Host (cfg_Server cfg)) (show_int (hl_Port (cfg_Health cfg))))
           (with_metrics H cfg)))"

text \<open>The clean-up goroutine of the per-client limiter starts before the credentials are loaded.\<close>

definition with_grpc :: "('x, 'f, 'd, 'l, 'k, 'p) host \<Rightarrow> 'f Config \<Rightarrow> Authenticator \<Rightarrow> ended" where
  "with_grpc H cfg authenticator =
     (case newGRPCServer (h_auth H) (h_rate H) (h_tls H) cfg authenticator of
        Inl err \<Rightarrow> doing [Opened ClientLimiter] (failing err)
      | Inr _ \<Rightarrow> holding ClientLimiter [] (with_server H cfg))"

definition with_repository :: "('x, 'f, 'd, 'l, 'k, 'p) host \<Rightarrow> 'f Config \<Rightarrow> Authenticator \<Rightarrow> ended" where
  "with_repository H cfg authenticator =
     (case fst (openRepository (h_pg H) (cfg_Storage cfg) (h_db H)) of
        Inl err \<Rightarrow> failing (Wrapf ''initialize storage: '' err)
      | Inr repository \<Rightarrow>
          let closeErr = fst (Close (repository_ops (h_pg H) (cfg_Storage cfg)) (h_served H repository))
          in holding Repository_r (log_failure ''storage shutdown failed'' closeErr)
               (doing ((case repository of Plain (PostgresBackend _ _) \<Rightarrow> [DBStatsRegistered] | _ \<Rightarrow> []) @ [HealthStatus False])
                 (with_grpc H cfg authenticator)))"

definition run :: "('x, 'f, 'd, 'l, 'k, 'p) host \<Rightarrow> 'f Config option \<Rightarrow> ended" where
  "run H config =
     (case Validate (h_cfg H) config of
        Some err \<Rightarrow> failing err
      | None \<Rightarrow>
          let cfg = the config
          in doing [LoggingInit (lg_Level (cfg_Logging cfg)) (lg_Format (cfg_Logging cfg)), WatchStarted]
               (case NewAuthenticator (h_auth H) (cfg_Auth cfg) of
                  Inl err \<Rightarrow> failing (Wrapf ''create authenticator: '' err)
                | Inr authenticator \<Rightarrow>
                    (case tracing_Init (h_otel H) (cfg_Tracing cfg) of
                       Inl err \<Rightarrow> failing (Wrapf ''initialize tracing: '' err)
                     | Inr provider \<Rightarrow>
                         holding Tracing (log_failure ''tracing shutdown failed'' (tracing_shutdown (h_otel H) provider))
                           (with_repository H cfg authenticator))))"

text \<open>The exit status of the process.\<close>

definition server_main :: "('x, 'f, 'd, 'l, 'k, 'p) host \<Rightarrow> int" where
  "server_main H =
     (case Load (h_cfg H) (config_path (h_cfg H)) of
        Inl err \<Rightarrow> 1
      | Inr cfg \<Rightarrow> (case fst (run H (Some cfg)) of None \<Rightarrow> 0 | Some err \<Rightarrow> 1))"

section \<open>The life cycle of a run\<close>

text \<open>
  The specification of the trace: an automaton with the phase of the process and the stack of the
  resources it holds. A resource is opened during the start only and closed in reverse order, never
  while the process is announced as ready. Readiness is announced once everything the requests need
  is held and every server is started, and it is withdrawn before anything is drained; the servers
  are drained while the repository is still held.
\<close>

datatype phase = Starting | Up | Draining | Down

definition needed :: "resource set" where
  "needed = {Tracing, Repository_r, ClientLimiter, Listener GRPC, Listener Health}"

fun lifecycle :: "phase \<times> resource list \<Rightarrow> event \<Rightarrow> (phase \<times> resource list) option" where
  "lifecycle (ph, held) (Opened r) = (if ph = Starting \<and> r \<notin> set held then Some (ph, r # held) else None)"
| "lifecycle (ph, held) (Closed r) =
     (case held of [] \<Rightarrow> None | r' # rest \<Rightarrow> if r' = r \<and> ph \<noteq> Up then Some (Down, rest) else None)"
| "lifecycle (ph, held) (Serving sv) = (if ph = Starting \<and> Listener sv \<in> set held then Some (ph, held) else None)"
| "lifecycle (ph, held) (ReadySet b) =
     (if b then if ph = Starting \<and> needed \<subseteq> set held then Some (Up, held) else None
      else if ph = Up then Some (Draining, held) else None)"
| "lifecycle (ph, held) (HealthStatus b) = (if b = (ph = Up) then Some (ph, held) else None)"
| "lifecycle (ph, held) GracefulStop = (if ph = Draining \<and> needed \<subseteq> set held then Some (ph, held) else None)"
| "lifecycle (ph, held) ForcedStop = (if ph = Draining \<and> needed \<subseteq> set held then Some (ph, held) else None)"
| "lifecycle (ph, held) (HTTPShutdown sv) = (if ph = Draining \<and> Listener sv \<in> set held then Some (ph, held) else None)"
| "lifecycle s _ = Some s"

primrec accepts :: "phase \<times> resource list \<Rightarrow> event list \<Rightarrow> (phase \<times> resource list) option" where
  "accepts s [] = Some s"
| "accepts s (e # es) = Option.bind (lifecycle s e) (\<lambda>s'. accepts s' es)"

lemma accepts_append: "accepts s (es @ es') = Option.bind (accepts s es) (\<lambda>s'. accepts s' es')"
  by (induction es arbitrary: s) (auto split: bind_splits)

text \<open>The trace without the opening of the client limiter, when that is never closed.\<close>

definition kept :: "bool \<Rightarrow> event list \<Rightarrow> event list" where
  "kept leak es = (if leak then filter (\<lambda>e. e \<noteq> Opened ClientLimiter) es else es)"

lemma kept_simps [simp]: "kept leak [] = []" "kept leak (es @ es') = kept leak es @ kept leak es'"
  "kept False es = es"
  "kept leak (e # es) = (if leak \<and> e = Opened ClientLimiter then [] else [e]) @ kept leak es"
  by (simp_all add: kept_def)

text \<open>A continuation that leaves the resources as it found them, and the process not announced.\<close>

definition settled :: "bool \<Rightarrow> resource list \<Rightarrow> ended \<Rightarrow> bool" where
  "settled leak held k \<longleftrightarrow>
     (\<exists>ph. ph \<noteq> Up \<and> accepts (Starting, held) (kept leak (snd k)) = Some (ph, held)) \<and>
     (fst k = None \<longrightarrow> ReadySet True \<in> set (snd k))"

definition quiet_event :: "event \<Rightarrow> bool" where
  "quiet_event e \<longleftrightarrow> (\<forall>ph held. ph \<noteq> Up \<longrightarrow> lifecycle (ph, held) e = Some (ph, held)) \<and> e \<noteq> Opened ClientLimiter"

lemma quiet_events: "ph \<noteq> Up \<Longrightarrow> list_all quiet_event es \<Longrightarrow>
   kept leak es = es \<and> accepts (ph, held) es = Some (ph, held)"
  by (induction es) (auto simp: quiet_event_def)

lemma settled_failing [simp]: "settled leak held (failing err)"
  by (simp add: settled_def failing_def)

lemma settled_doing: "list_all quiet_event es \<Longrightarrow> settled leak held k \<Longrightarrow> settled leak held (doing es k)"
  using quiet_events [of Starting es leak held] by (auto simp: settled_def doing_def accepts_append)

lemma settled_holding:
  assumes "r \<notin> set held" and "settled leak (r # held) k" and "list_all quiet_event cleanup" and "leak \<longrightarrow> r \<noteq> ClientLimiter"
  shows "settled leak held (holding r cleanup k)"
  using assms quiet_events [of Down cleanup leak held] by (auto simp: settled_def holding_def accepts_append)

lemma quiet_simps [simp]: "list_all quiet_event (closeListener c)" "list_all quiet_event (log_failure m c)"
  "quiet_event (LogInfo m)" "quiet_event (LogError m e)" "quiet_event (LoggingInit l f)" "quiet_event WatchStarted"
  "quiet_event DBStatsRegistered" "quiet_event (HealthStatus False)" "quiet_event ServiceRegistered"
  "quiet_event HealthRegistered" "quiet_event ReflectionRegistered"
  by (auto simp: quiet_event_def closeListener_def log_failure_def split: option.splits)

lemma settled_listening:
  "Listener sv \<notin> set held \<Longrightarrow> settled leak (Listener sv # held) k \<Longrightarrow> settled leak held (listening H sv what addr k)"
  by (auto simp: listening_def split: option.splits intro: settled_holding)

lemma selected_accepted: "accepts (Up, held) (LogInfo m # es) = accepts (Up, held) es"
  "accepts (Up, held) (LogError m e # es) = accepts (Up, held) es"
  by simp_all

lemma settled_serve:
  assumes "needed \<subseteq> set held" and "mt_Enabled (cfg_Metrics cfg) \<longrightarrow> Listener Metrics \<in> set held"
    and "gw_Enabled (cfg_Gateway cfg) \<longrightarrow> Listener Gateway \<in> set held"
  shows "settled leak held (serve_and_drain H cfg)"
proof -
  have listeners: "Listener GRPC \<in> set held" "Listener Health \<in> set held" using assms(1) by (auto simp: needed_def)
  define selected where "selected = (case h_select H of ShutdownSignal \<Rightarrow> [LogInfo ''shutdown signal received''] | ServeError e \<Rightarrow>
    if \<not> errors_Is e grpc_ErrServerStopped \<and> \<not> errors_Is e http_ErrServerClosed then [LogError ''server listener failed'' e] else [])"
  have sel: "accepts (Up, held) (selected @ es) = accepts (Up, held) es" "kept leak selected = selected" for es
    by (auto simp: selected_def split: select_event.splits)
  have trace: "snd (serve_and_drain H cfg) =
      ([Serving GRPC, Serving Health] @ (if mt_Enabled (cfg_Metrics cfg) then [Serving Metrics] else []) @
        (if gw_Enabled (cfg_Gateway cfg) then [Serving Gateway] else [])) @
      [ReadySet True, HealthStatus True, LogInfo ''gRPC server ready''] @ selected @
      [ReadySet False, HealthStatus False] @ shutdownGRPC (h_graceful H) @ [HTTPShutdown Health] @
      (if mt_Enabled (cfg_Metrics cfg) then [HTTPShutdown Metrics] else []) @
      (if gw_Enabled (cfg_Gateway cfg) then [HTTPShutdown Gateway] else [])"
    by (simp add: serve_and_drain_def Let_def selected_def case_prod_beta split: select_event.splits)
  show ?thesis
    using assms listeners
    by (auto simp: settled_def trace sel shutdownGRPC_def)
qed

lemma settled_gateway:
  assumes "needed \<subseteq> set held" and "mt_Enabled (cfg_Metrics cfg) \<longrightarrow> Listener Metrics \<in> set held"
    and "Listener Gateway \<notin> set held"
  shows "settled leak held (with_gateway H cfg)"
  using assms by (auto simp: with_gateway_def split: option.splits intro!: settled_listening settled_serve)

lemma settled_metrics:
  assumes "needed \<subseteq> set held" and "Listener Metrics \<notin> set held" and "Listener Gateway \<notin> set held"
  shows "settled leak held (with_metrics H cfg)"
  using assms by (auto simp: with_metrics_def intro!: settled_listening settled_gateway)

lemma settled_server: "settled leak [ClientLimiter, Repository_r, Tracing] (with_server H cfg)"
  unfolding with_server_def
  by (intro settled_doing settled_listening settled_metrics) (auto simp: needed_def)

text \<open>The one resource that can leak: the client limiter, when the TLS credentials do not load.\<close>

definition leaks_limiter :: "('x, 'f, 'd, 'l, 'k, 'p) host \<Rightarrow> 'f Config \<Rightarrow> bool" where
  "leaks_limiter H cfg \<longleftrightarrow> tls_Enabled (cfg_TLS cfg) \<and> isl (loadTLSCredentials (h_tls H) cfg)"

lemma newGRPCServer_Inl: "isl (newGRPCServer B R X cfg a) \<longleftrightarrow> tls_Enabled (cfg_TLS cfg) \<and> isl (loadTLSCredentials X cfg)"
  by (auto simp: newGRPCServer_def Let_def split: sum.splits)

lemma settled_grpc: "settled (leaks_limiter H cfg) [Repository_r, Tracing] (with_grpc H cfg a)"
proof (cases "newGRPCServer (h_auth H) (h_rate H) (h_tls H) cfg a")
  case (Inl err)
  then have "leaks_limiter H cfg" using newGRPCServer_Inl [of "h_auth H" "h_rate H" "h_tls H" cfg a] by (simp add: leaks_limiter_def)
  with Inl show ?thesis by (simp add: with_grpc_def settled_def doing_def failing_def)
next
  case (Inr sv)
  then have "\<not> leaks_limiter H cfg" using newGRPCServer_Inl [of "h_auth H" "h_rate H" "h_tls H" cfg a] by (simp add: leaks_limiter_def)
  with Inr show ?thesis by (simp add: with_grpc_def settled_holding settled_server)
qed

lemma settled_repository: "settled (leaks_limiter H cfg) [Tracing] (with_repository H cfg a)"
  by (auto simp: with_repository_def Let_def split: sum.splits repository.splits backend.splits
      intro!: settled_holding settled_doing settled_grpc)

lemma settled_run:
  "settled (\<exists>cfg. config = Some cfg \<and> leaks_limiter H cfg) [] (run H config)"
proof (cases config)
  case None
  then show ?thesis by (simp add: run_def Validate_def)
next
  case (Some cfg)
  then show ?thesis
    by (auto simp: run_def split: option.splits sum.splits intro!: settled_doing settled_holding settled_repository)
qed

lemma accepts_Closed: "accepts (ph, held) es = Some s \<Longrightarrow> Closed r \<in> set es \<Longrightarrow> r \<in> set held \<or> Opened r \<in> set es"
proof (induction es arbitrary: ph held)
  case (Cons e es)
  then obtain ph' held' where step: "lifecycle (ph, held) e = Some (ph', held')" and rest: "accepts (ph', held') es = Some s"
    by (auto simp: bind_eq_Some_conv)
  have "set held' \<subseteq> set held \<union> {r. e = Opened r}" "e = Closed r \<Longrightarrow> r \<in> set held"
    using step by (cases e; auto split: if_splits list.splits)+
  with Cons.IH [OF rest] Cons.prems(2) show ?case by auto
qed simp

lemma accepts_Opened: "accepts (ph, held) es = Some (ph', held') \<Longrightarrow> Opened r \<in> set es \<or> r \<in> set held \<Longrightarrow>
   Closed r \<in> set es \<or> r \<in> set held'"
proof (induction es arbitrary: ph held)
  case (Cons e es)
  then obtain ph1 held1 where step: "lifecycle (ph, held) e = Some (ph1, held1)" and rest: "accepts (ph1, held1) es = Some (ph', held')"
    by (auto simp: bind_eq_Some_conv)
  have "r \<in> set held1 \<or> e = Closed r" if "e = Opened r \<or> r \<in> set held"
    using step that by (cases e; auto split: if_splits list.splits)
  with Cons.IH [OF rest] Cons.prems(2) show ?case by auto
qed auto


text \<open>A host on which the baseline configuration starts, and a signal ends the run.\<close>

definition no_otel :: "(unit, unit) otel" where
  "no_otel = \<lparr>otlptracehttp_New = \<lambda>_. Inr (), f_le0 = \<lambda>_. True, f_ge1 = \<lambda>_. False, provider_Shutdown = \<lambda>_. None\<rparr>"

definition demo_host :: "'d postgres \<Rightarrow> 'd \<Rightarrow> (unit, unit, 'd, unit, unit, unit) host" where
  "demo_host pg d =
     \<lparr>h_cfg = injected, h_auth = demo_lib, h_otel = no_otel, h_pg = pg, h_db = d, h_rate = full_buckets, h_tls = plain_tls,
      h_Listen = \<lambda>_ _. None, h_Close = \<lambda>_. Some net_ErrClosed, h_gateway = None, h_select = ShutdownSignal,
      h_served = \<lambda>r. r, h_graceful = True, h_Shutdown = \<lambda>_. None\<rparr>"

definition demo_trace :: "event list" where
  "demo_trace =
     [LoggingInit ''info'' ''json'', WatchStarted, Opened Tracing, Opened Repository_r, HealthStatus False, Opened ClientLimiter,
      ServiceRegistered, HealthRegistered, Opened (Listener GRPC), Opened (Listener Health), Opened (Listener Metrics),
      Serving GRPC, Serving Health, Serving Metrics, ReadySet True, HealthStatus True, LogInfo ''gRPC server ready'',
      LogInfo ''shutdown signal received'', ReadySet False, HealthStatus False, GracefulStop, HTTPShutdown Health,
      HTTPShutdown Metrics, Closed (Listener Metrics), Closed (Listener Health), Closed (Listener GRPC),
      Closed ClientLimiter, Closed Repository_r, Closed Tracing]"

lemma running_fields:
  "cfg_Metrics running_config = \<lparr>mt_Enabled = True, mt_Port = 9090\<rparr>" "cfg_Health running_config = \<lparr>hl_Port = 8080\<rparr>"
  "cfg_Gateway running_config = \<lparr>gw_Enabled = False, gw_Port = 8081\<rparr>" "cfg_Reflection running_config = False"
  "cfg_Logging running_config = \<lparr>lg_Level = ''info'', lg_Format = ''json''\<rparr>" "tr_Enabled (cfg_Tracing running_config) = False"
  "tls_Enabled (cfg_TLS running_config) = True" "mtls_Enabled (tls_MTLS (cfg_TLS running_config)) = False"
  "sg_Backend (cfg_Storage running_config) = ''memory''" "cbc_Enabled (sg_CircuitBreaker (cfg_Storage running_config)) = False"
  "cc_Enabled (sg_Cache (cfg_Storage running_config)) = False"
  by (simp_all add: running_config_def baseline_def)

lemma running_auth: "\<exists>a. NewAuthenticator B (cfg_Auth running_config) = Inr a"
  by (simp add: NewAuthenticator_def running_config_def baseline_def words_not_blank)

lemma demo_run: "run (demo_host pg d) (Some running_config) = (None, demo_trace)"
proof -
  from running_auth obtain a where "NewAuthenticator demo_lib (cfg_Auth running_config) = Inr a" by blast
  then show ?thesis
    by (simp add: run_def demo_host_def running_valid tracing_Init_def tracing_shutdown_def running_fields with_repository_def
        openRepository_def open_backend_def repository_ops_def dispatch_def repository_methods_def at_type_def backend_ops_def
        backend_methods_def memory_ops_def mem_Close_def with_grpc_def newGRPCServer_def loadTLSCredentials_def plain_tls_def
        with_server_def listening_def with_metrics_def with_gateway_def serve_and_drain_def shutdownGRPC_def shutdown_http_def
        normalizeServeError_def closeListener_def log_failure_def doing_def holding_def demo_trace_def Let_def)
qed


end
