(* ===== verification/Service_Rpc.thy ===== *)
theory Service_Rpc
  imports User_Service Interceptor_Chain
begin

text \<open>
  The user service as gRPC methods, \<open>pkg/pb/service_grpc.pb.go\<close>: the full method names, the server
  interface with the replies of the unary methods, and the registered handlers, which decode a
  request and pass it through the interceptor of the server.
\<close>

section \<open>Methods\<close>

definition UserService_GetUser_FullMethodName :: string where
  "UserService_GetUser_FullMethodName = ''/example.v1.UserService/GetUser''"
definition UserService_CreateUser_FullMethodName :: string where
  "UserService_CreateUser_FullMethodName = ''/example.v1.UserService/CreateUser''"
definition UserService_UpdateUser_FullMethodName :: string where
  "UserService_UpdateUser_FullMethodName = ''/example.v1.UserService/UpdateUser''"
definition UserService_DeleteUser_FullMethodName :: string where
  "UserService_DeleteUser_FullMethodName = ''/example.v1.UserService/DeleteUser''"
definition UserService_ListUsers_FullMethodName :: string where
  "UserService_ListUsers_FullMethodName = ''/example.v1.UserService/ListUsers''"
definition UserService_StreamUserEvents_FullMethodName :: string where
  "UserService_StreamUserEvents_FullMethodName = ''/example.v1.UserService/StreamUserEvents''"
definition UserService_CollectUserMetrics_FullMethodName :: string where
  "UserService_CollectUserMetrics_FullMethodName = ''/example.v1.UserService/CollectUserMetrics''"
definition UserService_ChatStream_FullMethodName :: string where
  "UserService_ChatStream_FullMethodName = ''/example.v1.UserService/ChatStream''"

lemmas method_names =
  UserService_GetUser_FullMethodName_def UserService_CreateUser_FullMethodName_def UserService_UpdateUser_FullMethodName_def
  UserService_DeleteUser_FullMethodName_def UserService_ListUsers_FullMethodName_def

primrec full_method :: "unary_call \<Rightarrow> string" where
  "full_method (CallGet q) = UserService_GetUser_FullMethodName"
| "full_method (CallList q) = UserService_ListUsers_FullMethodName"
| "full_method (CallCreate q) = UserService_CreateUser_FullMethodName"
| "full_method (CallUpdate q) = UserService_UpdateUser_FullMethodName"
| "full_method (CallDelete q) = UserService_DeleteUser_FullMethodName"

section \<open>The server interface\<close>

datatype reply = UserReply User | UsersReply ListUsersResponse | EmptyReply

definition replying :: "('a \<Rightarrow> reply) \<Rightarrow> 'a result \<times> 's \<Rightarrow> reply result \<times> 's" where
  "replying f = apfst (map_sum (\<lambda>e. e) f)"

fun UserServiceServer ::
  "(string \<Rightarrow> string option) \<Rightarrow> 's UserService \<Rightarrow> env \<Rightarrow> Context option \<Rightarrow> unary_call \<Rightarrow> 's \<Rightarrow> reply result \<times> 's" where
  "UserServiceServer P svc E ctx (CallGet q) s = replying UserReply (GetUser svc E ctx q s)"
| "UserServiceServer P svc E ctx (CallList q) s = replying UsersReply (ListUsers svc E ctx q s)"
| "UserServiceServer P svc E ctx (CallCreate q) s = replying UserReply (CreateUser P svc E ctx q s)"
| "UserServiceServer P svc E ctx (CallUpdate q) s = replying UserReply (UpdateUser P svc E ctx q s)"
| "UserServiceServer P svc E ctx (CallDelete q) s =
     (case DeleteUser svc E ctx q s of (None, s') \<Rightarrow> (Inr EmptyReply, s') | (Some err, s') \<Rightarrow> (Inl err, s'))"

text \<open>The method as the innermost handler of a chain, on the application's state of the world.\<close>

definition rpc_handler ::
  "(string \<Rightarrow> string option) \<Rightarrow> 's UserService \<Rightarrow> env \<Rightarrow> unary_call \<Rightarrow> ('l, 's, reply) handler" where
  "rpc_handler P svc E call ctx w =
     (case UserServiceServer P svc E (Some ctx) call (w_app w) of
        (Inr v, s) \<Rightarrow> (Returned (Some v) None, w\<lparr>w_app := s\<rparr>)
      | (Inl err, s) \<Rightarrow> (Returned None (Some err), w\<lparr>w_app := s\<rparr>))"

text \<open>
  The registered unary handlers: a request that does not decode is answered before any interceptor
  runs; otherwise the server's interceptor, if there is one, decides about the call.
\<close>

definition UserService_Handler ::
  "(string \<Rightarrow> string option) \<Rightarrow> 's UserService \<Rightarrow> (string \<Rightarrow> ('l, 's, reply) interceptor) option \<Rightarrow> env \<Rightarrow>
     unary_call result \<Rightarrow> ('l, 's, reply) handler" where
  "UserService_Handler P svc interceptor E dec ctx w =
     (case dec of
        Inl err \<Rightarrow> (Returned None (Some err), w)
      | Inr call \<Rightarrow>
          (case interceptor of
             None \<Rightarrow> rpc_handler P svc E call ctx w
           | Some I \<Rightarrow> I (full_method call) (rpc_handler P svc E call) ctx w))"

text \<open>A request to a server with the given chain, and a sequence of them.\<close>

type_synonym rpc = "env \<times> Context \<times> unary_call result"

definition unary_rpc where
  "unary_rpc P svc C q = (case q of (E, ctx, dec) \<Rightarrow> UserService_Handler P svc (Some (unary_chain C)) E dec ctx)"

definition serve_rpcs where
  "serve_rpcs P svc C qs w = fold (\<lambda>q w. snd (unary_rpc P svc C q w)) qs w"

section \<open>One request\<close>

lemma serve_is_call: "serve P svc (E, ctx, call) s = drop_value (UserServiceServer P svc E ctx call s)"
  by (cases call) (auto simp: drop_value_def replying_def apfst_def map_prod_def err_of_def split: prod.splits sum.splits option.splits)

lemma rpc_handler_app:
  "rpc_handler P svc E call ctx w = (out, w2) \<Longrightarrow>
     \<exists>r. UserServiceServer P svc E (Some ctx) call (w_app w) = (r, w_app w2) \<and>
       out = (case r of Inr v \<Rightarrow> Returned (Some v) None | Inl err \<Rightarrow> Returned None (Some err))"
  by (auto simp: rpc_handler_def split: prod.splits sum.splits)

lemma methods_require_auth [simp]: "requiresAuth (full_method call)"
  by (cases call) (simp_all add: requiresAuth_def method_names)

text \<open>
  A request through the chain is refused without effect, or the service is called once on the
  application's state, with an authenticated and authorized context, and its outcome is the reply.
\<close>

lemma unary_rpc_cases:
  assumes "unary_rpc P svc C (E, ctx, dec) w = (out, w')"
  obtains (undecoded) err where "dec = Inl err" and "w' = w" and "out = Returned None (Some err)"
  | (refused) err where "out = Returned None (Some err)" and "w_app w' = w_app w" and "status_Code (Some err) \<in> refusal_codes"
  | (called) c c' call r where "dec = Inr call" and "guarded_ctx C (full_method call) (w_clk w) ctx c" and "inner_ctx C c c'"
    and "UserServiceServer P svc E (Some c') call (w_app w) = (r, w_app w')"
    and "out = (case r of Inr v \<Rightarrow> Returned (Some v) None | Inl err \<Rightarrow> Returned None (Some err))"
proof (cases dec)
  case (Inl err)
  with assms that(1) show thesis by (simp add: unary_rpc_def UserService_Handler_def)
next
  case (Inr call)
  let ?m = "full_method call"
  let ?h = "rpc_handler P svc E call"
  have run: "unary_chain C ?m ?h ctx w = (out, w')" using assms Inr by (simp add: unary_rpc_def UserService_Handler_def)
  have "server_chain C ?m (unary_chain C ?m)" by (simp add: server_chain_def)
  then show thesis
  proof (cases rule: chain_call [where ctx = ctx and w = w and I = "unary_chain C ?m :: (_, _, reply) interceptor"])
    case (refused err w1)
    with run have "out = Returned None (Some err)" "w_app w' = w_app w" "status_Code (Some err) \<in> refusal_codes"
      by (auto simp: refuses_def)
    then show thesis by (rule that(2))
  next
    case (called c c' w1 msg)
    obtain o1 w2 where h: "?h c' w1 = (o1, w2)" by fastforce
    from called(5) [of ?h o1 w2, OF h] obtain w3 where w3: "unary_chain C ?m ?h ctx w = recovered msg ?m (o1, w3)" "w_app w3 = w_app w2" by blast
    from rpc_handler_app [OF h] obtain r where r: "UserServiceServer P svc E (Some c') call (w_app w1) = (r, w_app w2)"
      "o1 = (case r of Inr v \<Rightarrow> Returned (Some v) None | Inl err \<Rightarrow> Returned None (Some err))" by blast
    from w3(1) run r(2) have "out = o1" "w' = w3" by (auto simp: recovered_def split: sum.splits)
    with that(3) [OF Inr called(1,2)] r w3(2) called(3) show thesis by simp
  qed
qed

section \<open>Well-typed replies\<close>

text \<open>
  What the messages of a reply carry: identifiers, an age that fits an \<open>int32\<close>, both times; a page
  has at most \<open>maxPageSize\<close> users, in ascending order, and a token that the server will accept again.
\<close>

definition typed_user :: "User \<Rightarrow> bool" where
  "typed_user u \<longleftrightarrow> u_Id u \<noteq> [] \<and> u_Name u \<noteq> [] \<and> int32 (u_Age u) = u_Age u \<and> has_times u"

primrec typed_reply :: "reply \<Rightarrow> bool" where
  "typed_reply (UserReply u) \<longleftrightarrow> typed_user u"
| "typed_reply (UsersReply p) \<longleftrightarrow> list_all typed_user (lu_Users p) \<and> int (length (lu_Users p)) \<le> maxPageSize \<and>
     sorted_wrt (<) (map u_Id (lu_Users p)) \<and> decodePageToken (lu_NextPageToken p) \<noteq> None"
| "typed_reply EmptyReply \<longleftrightarrow> True"

lemma user_ok_typed: "user_ok svc i u \<Longrightarrow> typed_user u"
  by (auto simp: user_ok_def typed_user_def)

lemma store_ok_typed: "store_ok svc m \<Longrightarrow> m i = Some u \<Longrightarrow> typed_user u \<and> u_Id u = i"
  unfolding store_ok_def by (metis user_ok_def user_ok_typed)

lemma replyingE:
  assumes "replying f p = (Inr reply, s')"
  obtains v where "p = (Inr v, s')" and "reply = f v"
  using assms by (cases p; cases "fst p") (auto simp: replying_def)

lemma page_typed:
  assumes "finite (dom m)" and "store_ok svc m"
  shows "list_all typed_user (fst (page_of m n a)) \<and> sorted_wrt (<) (map u_Id (fst (page_of m n a)))"
proof -
  let ?ids = "take n (ids_after m a)"
  have ids: "typed_user (the (m i)) \<and> u_Id (the (m i)) = i" if "i \<in> set ?ids" for i
    using in_set_takeD [OF that] set_ids_after [OF assms(1)] store_ok_typed [OF assms(2)] by fastforce
  then have "map u_Id (fst (page_of m n a)) = ?ids" by (simp add: page_of_def Let_def map_idI)
  moreover have "sorted_wrt (<) ?ids" using ids_after_strict by (rule sorted_wrt_take)
  ultimately show ?thesis using ids by (simp add: page_of_def Let_def list_all_iff)
qed

lemma page_size_bound: "page_size n \<le> maxPageSize"
  by (simp add: page_size_def defaultPageSize_def maxPageSize_def)

context service_over
begin

lemma reply_typed:
  assumes "inv s" and "store_ok svc (abs s)" and "UserServiceServer P svc E ctx call s = (Inr reply, s')"
  shows "typed_reply reply"
proof (cases call)
  case (CallGet q)
  with assms(3) obtain u where op: "GetUser svc E ctx q s = (Inr u, s')" and "reply = UserReply u" by (auto elim: replyingE)
  with GetUser_ok [OF assms(1) op] store_ok_typed [OF assms(2)] show ?thesis by auto
next
  case (CallList q)
  with assms(3) obtain p where op: "ListUsers svc E ctx q s = (Inr p, s')" and reply: "reply = UsersReply p" by (auto elim: replyingE)
  from ListUsers_ok [OF assms(1) op] obtain n a where
    page: "lu_Users p = fst (page_of (abs s) (nat (page_size n)) a)" "lu_NextPageToken p = encodePageToken (snd (page_of (abs s) (nat (page_size n)) a))"
    by auto
  have "int (length (lu_Users p)) \<le> maxPageSize"
    using page_of_size [of "abs s" "nat (page_size n)" a] page_size_bound [of n] unfolding page(1) by (simp add: maxPageSize_def)
  with page_typed [OF fin [OF assms(1)] assms(2)] show ?thesis by (simp add: reply page page_token_roundtrip)
next
  case (CallCreate q)
  with assms(3) obtain u where op: "CreateUser P svc E ctx q s = (Inr u, s')" and reply: "reply = UserReply u" by (auto elim: replyingE)
  from CreateUser_ok [OF assms(1) op] have "u \<in> ran (abs s) \<or> user_ok svc (u_Id u) u" by auto
  then show ?thesis using store_ok_typed [OF assms(2)] user_ok_typed by (auto simp: reply ran_def)
next
  case (CallUpdate q)
  with assms(3) obtain u where op: "UpdateUser P svc E ctx q s = (Inr u, s')" and reply: "reply = UserReply u" by (auto elim: replyingE)
  have "\<exists>i. abs s i = Some u \<or> user_ok svc i u"
    using UpdateUser_ok [OF assms(1) op] assms(2) unfolding store_ok_def by (metis Inr_inject)
  then show ?thesis using store_ok_typed [OF assms(2)] user_ok_typed by (auto simp: reply)
next
  case (CallDelete q)
  with assms(3) show ?thesis by (auto split: prod.splits option.splits)
qed

end

end
