(* ===== verification/Gateway.thy ===== *)
theory Gateway
  imports Service_Rpc
begin

text \<open>
  The REST gateway, \<open>pkg/pb/service.pb.gw.go\<close>: for each method the construction of the request from
  path, query and body with its error cases, the call, and the two registrations of the routes, in
  process (\<open>RegisterUserServiceHandlerServer\<close>) and over a connection
  (\<open>RegisterUserServiceHandlerClient\<close>). The program registers the routes in process.

  The runtime of grpc-gateway is a parameter, a \<open>gateway_lib\<close>: which registered route a request
  takes and its path parameters, the decoding of a body, the query parameters, and the context made
  from the request's headers. A body decoder returns the message as far as it was filled with the
  error, so that an empty body (\<open>io.EOF\<close>) leaves the zero message. Headers and trailers of the
  response are not modelled.
\<close>

section \<open>Requests\<close>

record http_request =
  hr_Method :: string
  hr_Path :: string
  hr_Query :: string
  hr_Header :: "(string, string) gomap"
  hr_Body :: string

record pattern =
  pt_ops :: "int list"
  pt_pool :: "string list"

type_synonym pathParams = "(string, string) gomap"

record 'form gateway_lib =
  mux_route :: "(string \<times> pattern) list \<Rightarrow> http_request \<Rightarrow> (nat \<times> pathParams) result"
  Decode_CreateUserRequest :: "string \<Rightarrow> go_error option \<times> CreateUserRequest"
  Decode_UpdateUserRequest :: "string \<Rightarrow> go_error option \<times> UpdateUserRequest"
  runtime_String :: "string \<Rightarrow> string result"
  ParseForm :: "http_request \<Rightarrow> 'form result"
  Populate_ListUsersRequest :: "string list \<Rightarrow> 'form \<Rightarrow> ListUsersRequest \<Rightarrow> ListUsersRequest result"
  Populate_StreamUserEventsRequest :: "string list \<Rightarrow> 'form \<Rightarrow> StreamUserEventsRequest \<Rightarrow> StreamUserEventsRequest result"
  AnnotateIncomingContext :: "Context \<Rightarrow> http_request \<Rightarrow> string \<Rightarrow> Context result"
  AnnotateContext :: "Context \<Rightarrow> http_request \<Rightarrow> string \<Rightarrow> Context result"

definition invalid_argument :: "go_error \<Rightarrow> go_error" where
  "invalid_argument err = StatusErr InvalidArgument (Error err)"

text \<open>\<open>err != nil && !errors.Is(err, io.EOF)\<close> after decoding a body.\<close>

definition body_message :: "go_error option \<times> 'm \<Rightarrow> 'm result" where
  "body_message p =
     (case p of
        (Some err, m) \<Rightarrow> if errors_Is err io_EOF then Inr m else Inl (invalid_argument err)
      | (None, m) \<Rightarrow> Inr m)"

definition path_param :: "'form gateway_lib \<Rightarrow> pathParams \<Rightarrow> string \<Rightarrow> string result" where
  "path_param G params name =
     (case mget params name of
        None \<Rightarrow> Inl (StatusErr InvalidArgument (''missing parameter '' @ name))
      | Some val \<Rightarrow>
          (case runtime_String G val of
             Inl err \<Rightarrow> Inl (StatusErr InvalidArgument (''type mismatch, parameter: '' @ name @ '', error: '' @ Error err))
           | Inr v \<Rightarrow> Inr v))"

text \<open>The functions are the same for both callees, the service in process and a client.\<close>

type_synonym 'n callee = "Context \<Rightarrow> unary_call \<Rightarrow> 'n \<Rightarrow> reply result \<times> 'n"

definition request_UserService_GetUser_0 ::
  "'form gateway_lib \<Rightarrow> 'n callee \<Rightarrow> Context \<Rightarrow> http_request \<Rightarrow> pathParams \<Rightarrow> 'n \<Rightarrow> reply result \<times> 'n" where
  "request_UserService_GetUser_0 G client ctx req params n =
     (case path_param G params ''id'' of
        Inl err \<Rightarrow> (Inl err, n)
      | Inr i \<Rightarrow> client ctx (CallGet (Some \<lparr>gr_Id = i\<rparr>)) n)"

definition request_UserService_CreateUser_0 ::
  "'form gateway_lib \<Rightarrow> 'n callee \<Rightarrow> Context \<Rightarrow> http_request \<Rightarrow> pathParams \<Rightarrow> 'n \<Rightarrow> reply result \<times> 'n" where
  "request_UserService_CreateUser_0 G client ctx req params n =
     (case body_message (Decode_CreateUserRequest G (hr_Body req)) of
        Inl err \<Rightarrow> (Inl err, n)
      | Inr protoReq \<Rightarrow> client ctx (CallCreate (Some protoReq)) n)"

definition request_UserService_UpdateUser_0 ::
  "'form gateway_lib \<Rightarrow> 'n callee \<Rightarrow> Context \<Rightarrow> http_request \<Rightarrow> pathParams \<Rightarrow> 'n \<Rightarrow> reply result \<times> 'n" where
  "request_UserService_UpdateUser_0 G client ctx req params n =
     (case body_message (Decode_UpdateUserRequest G (hr_Body req)) of
        Inl err \<Rightarrow> (Inl err, n)
      | Inr protoReq \<Rightarrow>
          (case path_param G params ''id'' of
             Inl err \<Rightarrow> (Inl err, n)
           | Inr i \<Rightarrow> client ctx (CallUpdate (Some (protoReq\<lparr>ur_Id := i\<rparr>))) n))"

definition request_UserService_DeleteUser_0 ::
  "'form gateway_lib \<Rightarrow> 'n callee \<Rightarrow> Context \<Rightarrow> http_request \<Rightarrow> pathParams \<Rightarrow> 'n \<Rightarrow> reply result \<times> 'n" where
  "request_UserService_DeleteUser_0 G client ctx req params n =
     (case path_param G params ''id'' of
        Inl err \<Rightarrow> (Inl err, n)
      | Inr i \<Rightarrow> client ctx (CallDelete (Some \<lparr>dr_Id = i\<rparr>)) n)"

definition filter_UserService_ListUsers_0 :: "string list" where
  "filter_UserService_ListUsers_0 = []"

definition query_message ::
  "'form gateway_lib \<Rightarrow> ('form \<Rightarrow> 'm \<Rightarrow> 'm result) \<Rightarrow> http_request \<Rightarrow> 'm \<Rightarrow> 'm result" where
  "query_message G populate req m =
     (case ParseForm G req of
        Inl err \<Rightarrow> Inl (invalid_argument err)
      | Inr form \<Rightarrow> (case populate form m of Inl err \<Rightarrow> Inl (invalid_argument err) | Inr m' \<Rightarrow> Inr m'))"

definition request_UserService_ListUsers_0 ::
  "'form gateway_lib \<Rightarrow> 'n callee \<Rightarrow> Context \<Rightarrow> http_request \<Rightarrow> pathParams \<Rightarrow> 'n \<Rightarrow> reply result \<times> 'n" where
  "request_UserService_ListUsers_0 G client ctx req params n =
     (case query_message G (Populate_ListUsersRequest G filter_UserService_ListUsers_0) req \<lparr>lr_PageSize = 0, lr_PageToken = []\<rparr> of
        Inl err \<Rightarrow> (Inl err, n)
      | Inr protoReq \<Rightarrow> client ctx (CallList (Some protoReq)) n)"

text \<open>The local variants differ only in not draining the request's body.\<close>

definition local_request_UserService_GetUser_0 where
  "local_request_UserService_GetUser_0 G server ctx req params s =
     (case path_param G params ''id'' of
        Inl err \<Rightarrow> (Inl err, s)
      | Inr i \<Rightarrow> server ctx (CallGet (Some \<lparr>gr_Id = i\<rparr>)) s)"

definition local_request_UserService_CreateUser_0 where
  "local_request_UserService_CreateUser_0 G server ctx req params s =
     (case body_message (Decode_CreateUserRequest G (hr_Body req)) of
        Inl err \<Rightarrow> (Inl err, s)
      | Inr protoReq \<Rightarrow> server ctx (CallCreate (Some protoReq)) s)"

definition local_request_UserService_UpdateUser_0 where
  "local_request_UserService_UpdateUser_0 G server ctx req params s =
     (case body_message (Decode_UpdateUserRequest G (hr_Body req)) of
        Inl err \<Rightarrow> (Inl err, s)
      | Inr protoReq \<Rightarrow>
          (case path_param G params ''id'' of
             Inl err \<Rightarrow> (Inl err, s)
           | Inr i \<Rightarrow> server ctx (CallUpdate (Some (protoReq\<lparr>ur_Id := i\<rparr>))) s))"

definition local_request_UserService_DeleteUser_0 where
  "local_request_UserService_DeleteUser_0 G server ctx req params s =
     (case path_param G params ''id'' of
        Inl err \<Rightarrow> (Inl err, s)
      | Inr i \<Rightarrow> server ctx (CallDelete (Some \<lparr>dr_Id = i\<rparr>)) s)"

definition local_request_UserService_ListUsers_0 where
  "local_request_UserService_ListUsers_0 G server ctx req params s =
     (case query_message G (Populate_ListUsersRequest G filter_UserService_ListUsers_0) req \<lparr>lr_PageSize = 0, lr_PageToken = []\<rparr> of
        Inl err \<Rightarrow> (Inl err, s)
      | Inr protoReq \<Rightarrow> server ctx (CallList (Some protoReq)) s)"

section \<open>Streams over a connection\<close>

text \<open>The stream a client opens, given by what its calls return.\<close>

record ('m, 'r) client_stream =
  cs_Send :: "go_error option list"
  cs_CloseSend :: "go_error option"
  cs_Header :: "(string, string) gomap result"
  cs_CloseAndRecv :: "'r result"

definition filter_UserService_StreamUserEvents_0 :: "string list" where
  "filter_UserService_StreamUserEvents_0 = [''user_id'']"

text \<open>The stream is opened with the request built here; what it yields is the opener's answer.\<close>

definition request_UserService_StreamUserEvents_0 ::
  "'form gateway_lib \<Rightarrow> (Context \<Rightarrow> StreamUserEventsRequest \<Rightarrow> ('m, 'r) client_stream result) \<Rightarrow> Context \<Rightarrow> http_request \<Rightarrow>
     pathParams \<Rightarrow> (('m, 'r) client_stream \<times> (string, string) gomap) result" where
  "request_UserService_StreamUserEvents_0 G open_stream ctx req params =
     (case path_param G params ''user_id'' of
        Inl err \<Rightarrow> Inl err
      | Inr i \<Rightarrow>
          (case query_message G (Populate_StreamUserEventsRequest G filter_UserService_StreamUserEvents_0) req
                  \<lparr>sr_UserId = i, sr_EventTypes = []\<rparr> of
             Inl err \<Rightarrow> Inl err
           | Inr protoReq \<Rightarrow>
               (case open_stream ctx protoReq of
                  Inl err \<Rightarrow> Inl err
                | Inr stream \<Rightarrow>
                    (case cs_Header stream of
                       Inl err \<Rightarrow> Inl err
                     | Inr header \<Rightarrow> Inr (stream, header)))))"

text \<open>
  The loop that forwards the messages of the body: \<open>decoded\<close> is what each \<open>Decode\<close> returns (the end
  of the list is the end of the body) and \<open>sends\<close> what each \<open>Send\<close> returns. The result is the error
  that ends the request, if any, and the messages sent.
\<close>

fun forward_metrics :: "('m result) list \<Rightarrow> go_error option list \<Rightarrow> go_error option \<times> 'm list" where
  "forward_metrics [] sends = (None, [])"
| "forward_metrics (Inl err # ds) sends = (if errors_Is err io_EOF then (None, []) else (Some (invalid_argument err), []))"
| "forward_metrics (Inr m # ds) sends =
     (case sends of
        Some err # _ \<Rightarrow> if errors_Is err io_EOF then (None, []) else (Some err, [])
      | None # rest \<Rightarrow> (case forward_metrics ds rest of (e, ms) \<Rightarrow> (e, m # ms))
      | [] \<Rightarrow> (case forward_metrics ds [] of (e, ms) \<Rightarrow> (e, m # ms)))"

definition request_UserService_CollectUserMetrics_0 ::
  "(Context \<Rightarrow> ('m, 'r) client_stream result) \<Rightarrow> Context \<Rightarrow> ('m result) list \<Rightarrow> 'r result" where
  "request_UserService_CollectUserMetrics_0 open_stream ctx decoded =
     (case open_stream ctx of
        Inl err \<Rightarrow> Inl err
      | Inr stream \<Rightarrow>
          (case fst (forward_metrics decoded (cs_Send stream)) of
             Some err \<Rightarrow> Inl err
           | None \<Rightarrow>
               (case cs_CloseSend stream of
                  Some err \<Rightarrow> Inl err
                | None \<Rightarrow> (case cs_Header stream of Inl err \<Rightarrow> Inl err | Inr header \<Rightarrow> cs_CloseAndRecv stream))))"

text \<open>The sender of the chat: any error ends it, and only the log tells.\<close>

fun handleSend :: "('m result) list \<Rightarrow> go_error option list \<Rightarrow> 'm list" where
  "handleSend [] sends = []"
| "handleSend (Inl err # ds) sends = []"
| "handleSend (Inr m # ds) sends =
     (case sends of Some err # _ \<Rightarrow> [] | None # rest \<Rightarrow> m # handleSend ds rest | [] \<Rightarrow> m # handleSend ds [])"

definition request_UserService_ChatStream_0 ::
  "(Context \<Rightarrow> ('m, 'r) client_stream result) \<Rightarrow> Context \<Rightarrow> (('m, 'r) client_stream \<times> (string, string) gomap) result" where
  "request_UserService_ChatStream_0 open_stream ctx =
     (case open_stream ctx of
        Inl err \<Rightarrow> Inl err
      | Inr stream \<Rightarrow> (case cs_Header stream of Inl err \<Rightarrow> Inl err | Inr header \<Rightarrow> Inr (stream, header)))"

section \<open>Routes\<close>

definition pattern_UserService_GetUser_0 :: pattern where
  "pattern_UserService_GetUser_0 = \<lparr>pt_ops = [2, 0, 2, 1, 1, 0, 4, 1, 5, 2], pt_pool = [''v1'', ''users'', ''id'']\<rparr>"
definition pattern_UserService_CreateUser_0 :: pattern where
  "pattern_UserService_CreateUser_0 = \<lparr>pt_ops = [2, 0, 2, 1], pt_pool = [''v1'', ''users'']\<rparr>"
definition pattern_UserService_UpdateUser_0 :: pattern where
  "pattern_UserService_UpdateUser_0 = \<lparr>pt_ops = [2, 0, 2, 1, 1, 0, 4, 1, 5, 2], pt_pool = [''v1'', ''users'', ''id'']\<rparr>"
definition pattern_UserService_DeleteUser_0 :: pattern where
  "pattern_UserService_DeleteUser_0 = \<lparr>pt_ops = [2, 0, 2, 1, 1, 0, 4, 1, 5, 2], pt_pool = [''v1'', ''users'', ''id'']\<rparr>"
definition pattern_UserService_ListUsers_0 :: pattern where
  "pattern_UserService_ListUsers_0 = \<lparr>pt_ops = [2, 0, 2, 1], pt_pool = [''v1'', ''users'']\<rparr>"
definition pattern_UserService_StreamUserEvents_0 :: pattern where
  "pattern_UserService_StreamUserEvents_0 =
     \<lparr>pt_ops = [2, 0, 2, 1, 1, 0, 4, 1, 5, 2, 2, 3], pt_pool = [''v1'', ''users'', ''user_id'', ''events'']\<rparr>"
definition pattern_UserService_CollectUserMetrics_0 :: pattern where
  "pattern_UserService_CollectUserMetrics_0 = \<lparr>pt_ops = [2, 0, 2, 1], pt_pool = [''v1'', ''metrics'']\<rparr>"
definition pattern_UserService_ChatStream_0 :: pattern where
  "pattern_UserService_ChatStream_0 = \<lparr>pt_ops = [2, 0, 2, 1], pt_pool = [''v1'', ''chat'']\<rparr>"

text \<open>What the HTTP client is answered: an error, a message, or the messages of a stream.\<close>

datatype answer = HTTPError go_error | ForwardResponseMessage reply | ForwardResponseStream string

type_synonym 'n route = "string \<times> pattern \<times> (Context \<Rightarrow> http_request \<Rightarrow> pathParams \<Rightarrow> 'n \<Rightarrow> answer \<times> 'n)"

definition answer_of :: "reply result \<times> 'n \<Rightarrow> answer \<times> 'n" where
  "answer_of p = (case p of (Inl err, n) \<Rightarrow> (HTTPError err, n) | (Inr resp, n) \<Rightarrow> (ForwardResponseMessage resp, n))"

text \<open>The closure around a request function: the annotated context, the request, the answer.\<close>

definition unary_route where
  "unary_route annotate fullMethod request ctx req params n =
     (case annotate ctx req fullMethod of
        Inl err \<Rightarrow> (HTTPError err, n)
      | Inr annotatedContext \<Rightarrow> answer_of (request annotatedContext req params n))"

definition unsupported_stream :: "Context \<Rightarrow> http_request \<Rightarrow> pathParams \<Rightarrow> 'n \<Rightarrow> answer \<times> 'n" where
  "unsupported_stream ctx req params n =
     (HTTPError (StatusErr Unimplemented ''streaming calls are not yet supported in the in-process transport''), n)"

definition RegisterUserServiceHandlerServer :: "'form gateway_lib \<Rightarrow> 'n callee \<Rightarrow> 'n route list" where
  "RegisterUserServiceHandlerServer G server =
     [(''GET'', pattern_UserService_GetUser_0,
        unary_route (AnnotateIncomingContext G) ''/example.v1.UserService/GetUser'' (local_request_UserService_GetUser_0 G server)),
      (''POST'', pattern_UserService_CreateUser_0,
        unary_route (AnnotateIncomingContext G) ''/example.v1.UserService/CreateUser'' (local_request_UserService_CreateUser_0 G server)),
      (''PUT'', pattern_UserService_UpdateUser_0,
        unary_route (AnnotateIncomingContext G) ''/example.v1.UserService/UpdateUser'' (local_request_UserService_UpdateUser_0 G server)),
      (''DELETE'', pattern_UserService_DeleteUser_0,
        unary_route (AnnotateIncomingContext G) ''/example.v1.UserService/DeleteUser'' (local_request_UserService_DeleteUser_0 G server)),
      (''GET'', pattern_UserService_ListUsers_0,
        unary_route (AnnotateIncomingContext G) ''/example.v1.UserService/ListUsers'' (local_request_UserService_ListUsers_0 G server)),
      (''GET'', pattern_UserService_StreamUserEvents_0, unsupported_stream),
      (''POST'', pattern_UserService_CollectUserMetrics_0, unsupported_stream),
      (''POST'', pattern_UserService_ChatStream_0, unsupported_stream)]"

text \<open>
  Over a connection the streams are answered too; \<open>streams m\<close> stands for what a stream method
  answers through the request functions above.
\<close>

definition stream_route where
  "stream_route annotate fullMethod stream ctx req params n =
     (case annotate ctx req fullMethod of
        Inl err \<Rightarrow> (HTTPError err, n)
      | Inr annotatedContext \<Rightarrow> stream annotatedContext req params n)"

definition RegisterUserServiceHandlerClient ::
  "'form gateway_lib \<Rightarrow> 'n callee \<Rightarrow> (string \<Rightarrow> Context \<Rightarrow> http_request \<Rightarrow> pathParams \<Rightarrow> 'n \<Rightarrow> answer \<times> 'n) \<Rightarrow> 'n route list" where
  "RegisterUserServiceHandlerClient G client streams =
     [(''GET'', pattern_UserService_GetUser_0,
        unary_route (AnnotateContext G) ''/example.v1.UserService/GetUser'' (request_UserService_GetUser_0 G client)),
      (''POST'', pattern_UserService_CreateUser_0,
        unary_route (AnnotateContext G) ''/example.v1.UserService/CreateUser'' (request_UserService_CreateUser_0 G client)),
      (''PUT'', pattern_UserService_UpdateUser_0,
        unary_route (AnnotateContext G) ''/example.v1.UserService/UpdateUser'' (request_UserService_UpdateUser_0 G client)),
      (''DELETE'', pattern_UserService_DeleteUser_0,
        unary_route (AnnotateContext G) ''/example.v1.UserService/DeleteUser'' (request_UserService_DeleteUser_0 G client)),
      (''GET'', pattern_UserService_ListUsers_0,
        unary_route (AnnotateContext G) ''/example.v1.UserService/ListUsers'' (request_UserService_ListUsers_0 G client)),
      (''GET'', pattern_UserService_StreamUserEvents_0,
        stream_route (AnnotateContext G) ''/example.v1.UserService/StreamUserEvents'' (streams ''StreamUserEvents'')),
      (''POST'', pattern_UserService_CollectUserMetrics_0,
        stream_route (AnnotateContext G) ''/example.v1.UserService/CollectUserMetrics'' (streams ''CollectUserMetrics'')),
      (''POST'', pattern_UserService_ChatStream_0,
        stream_route (AnnotateContext G) ''/example.v1.UserService/ChatStream'' (streams ''ChatStream''))]"

text \<open>
  The registration that dials itself. \<open>NewUserServiceClient\<close> gives the callee and the streams of a
  connection. The registration of the routes does not fail, so the connection is kept until the
  context ends, when it is closed and a failure of that is logged.
\<close>

datatype endpoint_event = ConnClosed | CloseFailureLogged string go_error

definition RegisterUserServiceHandler where
  "RegisterUserServiceHandler G NewUserServiceClient conn =
     (case NewUserServiceClient conn of (client, streams) \<Rightarrow> RegisterUserServiceHandlerClient G client streams)"

definition RegisterUserServiceHandlerFromEndpoint where
  "RegisterUserServiceHandlerFromEndpoint G NewClient NewUserServiceClient closeErr endpoint ended =
     (case NewClient endpoint of
        Inl err \<Rightarrow> (Inl err, [])
      | Inr conn \<Rightarrow>
          (Inr (RegisterUserServiceHandler G NewUserServiceClient conn),
           if ended
           then ConnClosed # (case closeErr conn of None \<Rightarrow> [] | Some cerr \<Rightarrow> [CloseFailureLogged endpoint cerr])
           else []))"

lemma endpoint_connection_closed:
  assumes "RegisterUserServiceHandlerFromEndpoint G NewClient stub closeErr endpoint ended = (r, es)"
  shows "count_list es ConnClosed = (if isl r \<or> \<not> ended then 0 else 1)"
  using assms by (auto simp: RegisterUserServiceHandlerFromEndpoint_def split: sum.splits option.splits)

text \<open>The mux takes a route by its method and pattern, and answers itself when none fits.\<close>

definition gateway_serve where
  "gateway_serve G routes ctx req n =
     (case mux_route G (map (\<lambda>(m, pat, h). (m, pat)) routes) req of
        Inl err \<Rightarrow> (HTTPError err, n)
      | Inr (i, params) \<Rightarrow>
          if i < length routes then (case routes ! i of (m, pat, h) \<Rightarrow> h ctx req params n)
          else (HTTPError (StatusErr NotFound ''Not Found''), n))"

section \<open>The two registrations\<close>

text \<open>
  The callee of the in-process registration is the service itself; that of the other one is a client
  whose connection delivers the context, runs the registered handler with the interceptor of the
  server, and brings an error back as a status.
\<close>

definition in_process where
  "in_process P svc E ctx call w =
     (case UserServiceServer P svc E (Some ctx) call (w_app w) of (r, s) \<Rightarrow> (r, w\<lparr>w_app := s\<rparr>))"

definition over_connection where
  "over_connection wire deliver P svc interceptor E ctx call w =
     (case UserService_Handler P svc interceptor E (Inr call) (deliver ctx) w of
        (Returned resp (Some err), w') \<Rightarrow> (Inl (wire err), w')
      | (Returned (Some v) None, w') \<Rightarrow> (Inr v, w')
      | (Returned None None, w') \<Rightarrow> (Inl (wire (StatusErr Internal ''grpc: error while marshaling'')), w')
      | (Panicked p, w') \<Rightarrow> (Inl (wire (StatusErr Unavailable p)), w'))"

text \<open>What an HTTP client can tell of an answer: the status of an error, or the message.\<close>

primrec answer_code :: "answer \<Rightarrow> code + reply + string" where
  "answer_code (HTTPError err) = Inl (status_Code (Some err))"
| "answer_code (ForwardResponseMessage r) = Inr (Inl r)"
| "answer_code (ForwardResponseStream m) = Inr (Inr m)"

definition agree :: "answer \<times> 'n \<Rightarrow> answer \<times> 'n \<Rightarrow> bool" where
  "agree p q \<longleftrightarrow> answer_code (fst p) = answer_code (fst q) \<and> snd p = snd q"

lemma agree_refl [simp]: "agree p p"
  by (simp add: agree_def)

lemma callees_agree:
  assumes "\<And>e. status_Code (Some (wire e)) = status_Code (Some e)"
  shows "agree (answer_of (in_process P svc E (deliver c) call w)) (answer_of (over_connection wire deliver P svc None E c call w))"
proof -
  obtain r s where "UserServiceServer P svc E (Some (deliver c)) call (w_app w) = (r, s)" by fastforce
  then show ?thesis
    by (cases r) (simp_all add: in_process_def over_connection_def UserService_Handler_def rpc_handler_def answer_of_def agree_def assms)
qed

text \<open>The request functions of the two registrations agree when their callees do.\<close>

lemma requests_agree:
  assumes "\<And>call. agree (answer_of (server c' call n)) (answer_of (client c call n))"
  shows "agree (answer_of (local_request_UserService_GetUser_0 G server c' req ps n)) (answer_of (request_UserService_GetUser_0 G client c req ps n))"
    and "agree (answer_of (local_request_UserService_CreateUser_0 G server c' req ps n)) (answer_of (request_UserService_CreateUser_0 G client c req ps n))"
    and "agree (answer_of (local_request_UserService_UpdateUser_0 G server c' req ps n)) (answer_of (request_UserService_UpdateUser_0 G client c req ps n))"
    and "agree (answer_of (local_request_UserService_DeleteUser_0 G server c' req ps n)) (answer_of (request_UserService_DeleteUser_0 G client c req ps n))"
    and "agree (answer_of (local_request_UserService_ListUsers_0 G server c' req ps n)) (answer_of (request_UserService_ListUsers_0 G client c req ps n))"
  by (simp_all add: local_request_UserService_GetUser_0_def request_UserService_GetUser_0_def
      local_request_UserService_CreateUser_0_def request_UserService_CreateUser_0_def
      local_request_UserService_UpdateUser_0_def request_UserService_UpdateUser_0_def
      local_request_UserService_DeleteUser_0_def request_UserService_DeleteUser_0_def
      local_request_UserService_ListUsers_0_def request_UserService_ListUsers_0_def assms split: sum.splits)

lemma routes_agree:
  assumes "incoming ctx req m = map_sum (\<lambda>e. e) deliver (outgoing ctx req m)"
    and "\<And>c. agree (answer_of (local_request (deliver c) req ps n)) (answer_of (request c req ps n))"
  shows "agree (unary_route incoming m local_request ctx req ps n) (unary_route outgoing m request ctx req ps n)"
  using assms by (simp add: unary_route_def split: sum.splits)


text \<open>A runtime that decodes one body and takes every POST to the route that creates users.\<close>

definition demo_gateway :: "unit gateway_lib" where
  "demo_gateway =
     \<lparr>mux_route = \<lambda>routes req. if hr_Method req = ''POST'' then Inr (1, []) else Inl (StatusErr NotFound ''Not Found''),
      Decode_CreateUserRequest = \<lambda>body. (None, create1),
      Decode_UpdateUserRequest = \<lambda>body. (Some io_EOF, \<lparr>ur_Id = [], ur_Name = [], ur_Email = [], ur_Age = 0\<rparr>),
      runtime_String = Inr, ParseForm = \<lambda>req. Inr (),
      Populate_ListUsersRequest = \<lambda>fs form m. Inr m, Populate_StreamUserEventsRequest = \<lambda>fs form m. Inr m,
      AnnotateIncomingContext = \<lambda>ctx req m. Inr ctx, AnnotateContext = \<lambda>ctx req m. Inr ctx\<rparr>"

definition anonymous_post :: http_request where
  "anonymous_post = \<lparr>hr_Method = ''POST'', hr_Path = ''/v1/users'', hr_Query = [], hr_Header = [], hr_Body = ''{}''\<rparr>"

definition empty_world :: "(unit, MemoryRepository) world" where
  "empty_world =
     \<lparr>w_clk = \<lambda>n. 5, w_rnd = \<lambda>_. None, w_tick = 0, w_log = [], w_met = no_metrics, w_limiter = (),
      w_clients = NewPerClient full_buckets 50 100, w_sem = 0, w_app = NewMemoryRepository\<rparr>"

abbreviation memory_service :: "MemoryRepository UserService" where
  "memory_service \<equiv> NewUserServiceWithRepository (Some memory_ops) limits1"

abbreviation anonymous_create :: "answer \<times> (unit, MemoryRepository) world" where
  "anonymous_create \<equiv> gateway_serve demo_gateway
     (RegisterUserServiceHandlerServer demo_gateway (in_process ParseAddress1 memory_service env1)) Background anonymous_post empty_world"

lemma anonymous_create_answer:
  "case fst anonymous_create of ForwardResponseMessage (UserReply u) \<Rightarrow> map fst (users (w_app (snd anonymous_create))) = [u_Id u] | _ \<Rightarrow> False"
  by code_simp


end
