(* ===== verification/Client_Interceptors.thy ===== *)
theory Client_Interceptors
  imports Interceptors
begin

text \<open>
  The client side of \<open>pkg/interceptors\<close>: retries with backoff (\<open>client_retry.go\<close>) and the logging,
  metrics and credential interceptors (\<open>client.go\<close>).

  A call maps a context and the world of the client to a result and the changed world. For a
  unary call the result is the reply, which Go writes to an argument; for a stream it is the stream,
  \<open>None\<close> being a nil stream. The world holds the clock, the log, the client metrics, the waits between attempts and the state \<open>'n\<close>
  of the network with the server. When the context ends while the retry loop looks at it or waits
  is given by a \<open>client_env\<close>, as is the random draw of each backoff.
\<close>

section \<open>Retry decisions\<close>

definition defaultRetryableCodes :: "code list" where
  "defaultRetryableCodes = [Unavailable, DeadlineExceeded, ResourceExhausted, Aborted, Internal]"

definition safeRetryableCodes :: "code list" where
  "safeRetryableCodes = [Unavailable, ResourceExhausted]"

record RetryConfig =
  MaxAttempts :: int
  BaseBackoff :: int
  MaxBackoff :: int
  RetryableCodes :: "code list"

definition DefaultRetryConfig :: RetryConfig where
  "DefaultRetryConfig =
     \<lparr>MaxAttempts = 3, BaseBackoff = 50 * millisecond, MaxBackoff = 2 * second, RetryableCodes = defaultRetryableCodes\<rparr>"

definition WithRetryable :: "Context \<Rightarrow> Context" where
  "WithRetryable ctx = ctx\<lparr>v_retryable := True\<rparr>"

definition isRetryableOptIn :: "Context \<Rightarrow> bool" where
  "isRetryableOptIn ctx = v_retryable ctx"

definition isRetryableCode :: "RetryConfig \<Rightarrow> code \<Rightarrow> bool" where
  "isRetryableCode cfg c \<longleftrightarrow> c \<in> set (RetryableCodes cfg)"

definition shouldRetry :: "RetryConfig \<Rightarrow> Context \<Rightarrow> code \<Rightarrow> bool" where
  "shouldRetry cfg ctx c =
     (if isRetryableOptIn ctx then isRetryableCode cfg c else c \<in> set safeRetryableCodes)"

text \<open>\<open>draw n\<close> is the result of \<open>rand.Int63n(n)\<close>, between 0 and \<open>n - 1\<close>.\<close>

definition backoff :: "(int \<Rightarrow> int) \<Rightarrow> RetryConfig \<Rightarrow> nat \<Rightarrow> int" where
  "backoff draw cfg attempt =
     (let d = (if attempt > 0
               then (if attempt \<ge> 62 then MaxBackoff cfg else wrap64 (BaseBackoff cfg * shl1 attempt))
               else BaseBackoff cfg);
          d = (if d \<le> 0 \<or> d > MaxBackoff cfg then MaxBackoff cfg else d)
      in if d \<le> 1 then d else wrap64 (draw d + 1))"

section \<open>The world of a client\<close>

record 'n cworld =
  cw_clk :: "nat \<Rightarrow> int"
  cw_tick :: nat
  cw_log :: "log_line list"
  ClientTotalRequests :: "string \<Rightarrow> nat"
  ClientTotalErrors :: "string \<Rightarrow> string \<Rightarrow> nat"
  ClientRequestDuration :: "(string \<times> int) list"
  cw_waits :: "int list"
  cw_net :: 'n

type_synonym ('n, 'a) call = "Context \<Rightarrow> 'n cworld \<Rightarrow> 'a result \<times> 'n cworld"

record client_env =
  ce_done :: "nat \<Rightarrow> done_cause option"
  ce_wait :: "nat \<Rightarrow> int \<Rightarrow> done_cause option"
  ce_draw :: "nat \<Rightarrow> int \<Rightarrow> int"

definition done_err :: "done_cause \<Rightarrow> go_error" where
  "done_err c = (case c of Cancelled \<Rightarrow> ctxCanceled | Expired \<Rightarrow> ctxDeadlineExceeded)"

text \<open>The check and the wait before attempt \<open>attempt > 0\<close>: the error that ends the call, or the wait.\<close>

definition client_pause :: "client_env \<Rightarrow> RetryConfig \<Rightarrow> nat \<Rightarrow> go_error + int" where
  "client_pause V cfg attempt =
     (case ce_done V attempt of
        Some c \<Rightarrow> Inl (done_err c)
      | None \<Rightarrow>
          (let wait = backoff (ce_draw V attempt) cfg (attempt - 1)
           in case ce_wait V attempt wait of Some c \<Rightarrow> Inl (done_err c) | None \<Rightarrow> Inr wait))"

text \<open>\<open>n\<close> attempts are left; \<open>prev\<close> is what is returned when there is none.\<close>

fun client_retry_loop ::
  "client_env \<Rightarrow> RetryConfig \<Rightarrow> ('n, 'a) call \<Rightarrow> Context \<Rightarrow> nat \<Rightarrow> nat \<Rightarrow> 'a result \<Rightarrow> 'n cworld \<Rightarrow> 'a result \<times> 'n cworld" where
  "client_retry_loop V cfg invoker ctx attempt 0 prev w = (prev, w)"
| "client_retry_loop V cfg invoker ctx attempt (Suc n) prev w =
     (case (if attempt > 0 then client_pause V cfg attempt else Inr 0) of
        Inl err \<Rightarrow> (Inl err, w)
      | Inr wait \<Rightarrow>
          (let w1 = (if attempt > 0 then w\<lparr>cw_waits := cw_waits w @ [wait]\<rparr> else w)
           in case invoker ctx w1 of
             (Inr v, w2) \<Rightarrow> (Inr v, w2)
           | (Inl err, w2) \<Rightarrow>
               (let (st, ok) = status_FromError (\<lambda>_. True) err
                in if \<not> ok \<or> \<not> shouldRetry cfg ctx (st_code st) then (Inl err, w2)
                   else client_retry_loop V cfg invoker ctx (Suc attempt) n (Inl err) w2)))"

definition UnaryClientRetryInterceptor :: "client_env \<Rightarrow> RetryConfig \<Rightarrow> ('n, unit) call \<Rightarrow> ('n, unit) call" where
  "UnaryClientRetryInterceptor V cfg invoker ctx w =
     client_retry_loop V cfg invoker ctx 0 (nat (MaxAttempts cfg)) (Inr ()) w"

definition StreamClientRetryInterceptor :: "client_env \<Rightarrow> RetryConfig \<Rightarrow> ('n, 'st option) call \<Rightarrow> ('n, 'st option) call" where
  "StreamClientRetryInterceptor V cfg streamer ctx w =
     client_retry_loop V cfg streamer ctx 0 (nat (MaxAttempts cfg)) (Inr None) w"

section \<open>Logging, metrics and credentials\<close>

definition client_Now :: "'n cworld \<Rightarrow> int \<times> 'n cworld" where
  "client_Now w = (cw_clk w (cw_tick w), w\<lparr>cw_tick := Suc (cw_tick w)\<rparr>)"

definition client_log :: "(string \<times> field) list \<Rightarrow> string \<Rightarrow> 'n cworld \<Rightarrow> 'n cworld" where
  "client_log fs msg w =
     w\<lparr>cw_log := cw_log w @ [\<lparr>ll_level = InfoLevel, ll_fields = fs, ll_msg = msg\<rparr>]\<rparr>"

definition IncClientTotalRequests :: "string \<Rightarrow> 'n cworld \<Rightarrow> 'n cworld" where
  "IncClientTotalRequests m w =
     w\<lparr>ClientTotalRequests := (ClientTotalRequests w)(m := Suc (ClientTotalRequests w m))\<rparr>"

definition IncClientTotalErrors :: "string \<Rightarrow> string \<Rightarrow> 'n cworld \<Rightarrow> 'n cworld" where
  "IncClientTotalErrors m c w =
     w\<lparr>ClientTotalErrors := (ClientTotalErrors w)(m := (ClientTotalErrors w m)(c := Suc (ClientTotalErrors w m c)))\<rparr>"

definition ObserveClientRequestDuration :: "string \<Rightarrow> int \<Rightarrow> 'n cworld \<Rightarrow> 'n cworld" where
  "ObserveClientRequestDuration m dur w = w\<lparr>ClientRequestDuration := ClientRequestDuration w @ [(m, dur)]\<rparr>"

definition clientErrToString :: "'a result \<Rightarrow> string" where
  "clientErrToString r = (case r of Inl err \<Rightarrow> Error err | Inr _ \<Rightarrow> [])"

definition clientGetErrorCode :: "go_error \<Rightarrow> string" where
  "clientGetErrorCode err =
     (case status_FromError (\<lambda>_. True) err of (s, ok) \<Rightarrow> if ok then code_String (st_code s) else ''unknown'')"

definition UnaryClientLoggingInterceptor :: "string \<Rightarrow> ('n, 'a) call \<Rightarrow> ('n, 'a) call" where
  "UnaryClientLoggingInterceptor m invoker ctx w =
     (let (start, w1) = client_Now w;
          w2 = client_log [(''method'', FStr m)] ''gRPC client request started'' w1;
          (r, w3) = invoker ctx w2;
          (t, w4) = client_Now w3
      in (r, client_log [(''method'', FStr m), (''duration'', FDur (sat64 (t - start))), (''error'', FStr (clientErrToString r))]
               ''gRPC client request completed'' w4))"

definition StreamClientLoggingInterceptor :: "string \<Rightarrow> ('n, 'st) call \<Rightarrow> ('n, 'st) call" where
  "StreamClientLoggingInterceptor m streamer ctx w =
     (let w1 = client_log [(''method'', FStr m)] ''gRPC client stream started'' w;
          (r, w2) = streamer ctx w1
      in (r, client_log [(''method'', FStr m), (''error'', FStr (clientErrToString r))] ''gRPC client stream created'' w2))"

definition client_metrics :: "string \<Rightarrow> int \<Rightarrow> 'a result \<times> 'n cworld \<Rightarrow> 'a result \<times> 'n cworld" where
  "client_metrics m start rw =
     (let (r, w1) = rw; (t, w2) = client_Now w1;
          w3 = ObserveClientRequestDuration m (sat64 (t - start)) w2
      in (r, case r of Inl err \<Rightarrow> IncClientTotalErrors m (clientGetErrorCode err) w3 | Inr _ \<Rightarrow> w3))"

definition UnaryClientMetricsInterceptor :: "string \<Rightarrow> ('n, 'a) call \<Rightarrow> ('n, 'a) call" where
  "UnaryClientMetricsInterceptor m invoker ctx w =
     (let (start, w1) = client_Now w in client_metrics m start (invoker ctx (IncClientTotalRequests m w1)))"

definition StreamClientMetricsInterceptor :: "string \<Rightarrow> ('n, 'st) call \<Rightarrow> ('n, 'st) call" where
  "StreamClientMetricsInterceptor m streamer ctx w =
     (let (start, w1) = client_Now (IncClientTotalRequests m w) in client_metrics m start (streamer ctx w1))"

definition with_token :: "string \<Rightarrow> Context \<Rightarrow> Context" where
  "with_token token ctx =
     (if token \<noteq> [] then ctx\<lparr>md_out := md_out ctx @ [(''authorization'', ''Bearer '' @ token)]\<rparr> else ctx)"

definition UnaryClientAuthInterceptorWithToken :: "string \<Rightarrow> ('n, 'a) call \<Rightarrow> ('n, 'a) call" where
  "UnaryClientAuthInterceptorWithToken token invoker ctx w = invoker (with_token token ctx) w"

definition StreamClientAuthInterceptorWithToken :: "string \<Rightarrow> ('n, 'st) call \<Rightarrow> ('n, 'st) call" where
  "StreamClientAuthInterceptorWithToken token streamer ctx w = streamer (with_token token ctx) w"

definition UnaryClientAuthInterceptor :: "('n, 'a) call \<Rightarrow> ('n, 'a) call" where
  "UnaryClientAuthInterceptor = UnaryClientAuthInterceptorWithToken []"

section \<open>Backoff and retries\<close>

definition draws_in_range :: "(int \<Rightarrow> int) \<Rightarrow> bool" where
  "draws_in_range draw \<longleftrightarrow> (\<forall>n. 0 < n \<longrightarrow> 0 \<le> draw n \<and> draw n < n)"

text \<open>Every wait is positive and within the maximum, whatever the attempt, the base and overflow.\<close>

lemma backoff_range:
  assumes "draws_in_range draw" and "0 < MaxBackoff cfg" and "MaxBackoff cfg < 2 ^ 63"
  shows "0 < backoff draw cfg attempt \<and> backoff draw cfg attempt \<le> MaxBackoff cfg"
proof -
  define d where "d = (let d = (if attempt > 0
               then (if attempt \<ge> 62 then MaxBackoff cfg else wrap64 (BaseBackoff cfg * shl1 attempt))
               else BaseBackoff cfg) in if d \<le> 0 \<or> d > MaxBackoff cfg then MaxBackoff cfg else d)"
  have d: "0 < d" "d \<le> MaxBackoff cfg" using assms(2) by (auto simp: d_def Let_def)
  have b: "backoff draw cfg attempt = (if d \<le> 1 then d else wrap64 (draw d + 1))"
    by (simp add: backoff_def d_def Let_def)
  have "0 \<le> draw d" "draw d < d" using assms(1) d(1) by (auto simp: draws_in_range_def)
  moreover from this d assms(3) have "wrap64 (draw d + 1) = draw d + 1"
    by (intro wrap64_id) (simp add: in_int64_def)
  ultimately show ?thesis using b d by auto
qed

text \<open>The errors after which another attempt may follow.\<close>

definition retried :: "RetryConfig \<Rightarrow> Context \<Rightarrow> 'a result \<Rightarrow> bool" where
  "retried cfg ctx r \<longleftrightarrow>
     (case r of
        Inr _ \<Rightarrow> False
      | Inl err \<Rightarrow> snd (status_FromError (\<lambda>_. True) err) \<and> shouldRetry cfg ctx (status_Code (Some err)))"

text \<open>
  A run of attempts: every result but the last is one that may be retried, and the world between
  two attempts changes by the recorded wait only.
\<close>

inductive attempts :: "(int \<Rightarrow> bool) \<Rightarrow> RetryConfig \<Rightarrow> Context \<Rightarrow> ('n, 'a) call \<Rightarrow> 'n cworld \<Rightarrow> 'a result list \<Rightarrow> 'n cworld \<Rightarrow> bool"
  for W cfg ctx invoker where
  one: "invoker ctx w = (r, w') \<Longrightarrow> attempts W cfg ctx invoker w [r] w'"
| again: "invoker ctx w = (r, w1) \<Longrightarrow> retried cfg ctx r \<Longrightarrow> W wait \<Longrightarrow> w2 = w1\<lparr>cw_waits := cw_waits w1 @ [wait]\<rparr> \<Longrightarrow>
    attempts W cfg ctx invoker w2 rs w' \<Longrightarrow> attempts W cfg ctx invoker w (r # rs) w'"

lemma attempts_nonempty: "attempts W cfg ctx invoker w rs w' \<Longrightarrow> rs \<noteq> []"
  by (induction rule: attempts.induct) auto

lemma attempts_retried:
  "attempts W cfg ctx invoker w rs w' \<Longrightarrow> list_all (retried cfg ctx) (butlast rs)"
  by (induction rule: attempts.induct) (auto dest: attempts_nonempty)

text \<open>What the loop returns: the last result, or the context's error when it ended in between.\<close>

definition loop_result :: "RetryConfig \<Rightarrow> Context \<Rightarrow> nat \<Rightarrow> 'a result list \<Rightarrow> 'a result \<Rightarrow> bool" where
  "loop_result cfg ctx n rs r \<longleftrightarrow>
     length rs \<le> n \<and>
     (r = last rs \<and> (retried cfg ctx r \<longrightarrow> length rs = n) \<or>
      retried cfg ctx (last rs) \<and> length rs < n \<and> (r = Inl ctxCanceled \<or> r = Inl ctxDeadlineExceeded))"

lemma loop_step:
  "client_retry_loop V cfg invoker ctx attempt (Suc n) prev w =
     (case (if attempt > 0 then client_pause V cfg attempt else Inr 0) of
        Inl err \<Rightarrow> (Inl err, w)
      | Inr wait \<Rightarrow>
          (let w1 = (if attempt > 0 then w\<lparr>cw_waits := cw_waits w @ [wait]\<rparr> else w);
               (r, w2) = invoker ctx w1
           in if retried cfg ctx r then client_retry_loop V cfg invoker ctx (Suc attempt) n r w2 else (r, w2)))"
  by (auto simp: retried_def status_Code_def Let_def split: sum.splits prod.splits)

lemma client_pause_err: "client_pause V cfg attempt = Inl err \<Longrightarrow> err = ctxCanceled \<or> err = ctxDeadlineExceeded"
  by (auto simp: client_pause_def done_err_def Let_def split: option.splits done_cause.splits)

lemma loop_attempts:
  assumes "invoker ctx w = (r0, w1)" and "client_retry_loop V cfg invoker ctx (Suc attempt) n r0 w1 = (r, w')" and "retried cfg ctx r0"
    and "\<And>a wait. client_pause V cfg a = Inr wait \<Longrightarrow> W wait"
  shows "\<exists>rs. attempts W cfg ctx invoker w rs w' \<and> loop_result cfg ctx (Suc n) rs r"
  using assms(1-3)
proof (induction n arbitrary: attempt w r0 w1)
  case 0
  then have "attempts W cfg ctx invoker w [r0] w' \<and> loop_result cfg ctx 1 [r0] r"
    by (auto intro: attempts.one simp: loop_result_def)
  then show ?case by auto
next
  case (Suc n)
  show ?case
  proof (cases "client_pause V cfg (Suc attempt)")
    case (Inl err)
    with Suc.prems client_pause_err [OF Inl] have "attempts W cfg ctx invoker w [r0] w' \<and> loop_result cfg ctx (Suc (Suc n)) [r0] r"
      by (auto intro: attempts.one simp: loop_result_def)
    then show ?thesis by blast
  next
    case (Inr wait)
    let ?w2 = "w1\<lparr>cw_waits := cw_waits w1 @ [wait]\<rparr>"
    obtain r1 w3 where i: "invoker ctx ?w2 = (r1, w3)" by fastforce
    show ?thesis
    proof (cases "retried cfg ctx r1")
      case True
      with Suc.prems(2) Inr i have "client_retry_loop V cfg invoker ctx (Suc (Suc attempt)) n r1 w3 = (r, w')"
        unfolding loop_step by simp
      from Suc.IH [OF i this True] obtain rs where rs: "attempts W cfg ctx invoker ?w2 rs w'" "loop_result cfg ctx (Suc n) rs r" by blast
      have "attempts W cfg ctx invoker w (r0 # rs) w'" by (rule attempts.again [where W = W and invoker = invoker and wait = wait and ctx = ctx, OF Suc.prems(1,3) assms(4) [OF Inr] refl rs(1)])
      moreover have "loop_result cfg ctx (Suc (Suc n)) (r0 # rs) r"
        using rs(2) attempts_nonempty [OF rs(1)] by (auto simp: loop_result_def)
      ultimately show ?thesis by blast
    next
      case False
      with Suc.prems(2) Inr i have "r = r1" "w' = w3" unfolding loop_step by simp_all
      with i have "attempts W cfg ctx invoker ?w2 [r] w'" by (auto intro: attempts.one)
      then have "attempts W cfg ctx invoker w [r0, r] w'" by (rule attempts.again [where W = W and invoker = invoker and wait = wait and ctx = ctx, OF Suc.prems(1,3) assms(4) [OF Inr] refl])
      moreover have "loop_result cfg ctx (Suc (Suc n)) [r0, r] r"
        using False \<open>r = r1\<close> by (simp add: loop_result_def)
      ultimately show ?thesis by blast
    qed
  qed
qed

lemma retry_loop_attempts:
  assumes "client_retry_loop V cfg invoker ctx 0 (Suc n) prev w = (r, w')"
    and "\<And>a wait. client_pause V cfg a = Inr wait \<Longrightarrow> W wait"
  shows "\<exists>rs. attempts W cfg ctx invoker w rs w' \<and> loop_result cfg ctx (Suc n) rs r"
proof -
  obtain r0 w1 where i: "invoker ctx w = (r0, w1)" by fastforce
  show ?thesis
  proof (cases "retried cfg ctx r0")
    case True
    with assms(1) i have "client_retry_loop V cfg invoker ctx (Suc 0) n r0 w1 = (r, w')" unfolding loop_step by simp
    from loop_attempts [OF i this True assms(2)] show ?thesis .
  next
    case False
    with assms(1) i have "r = r0" "w' = w1" unfolding loop_step by simp_all
    with i False have "attempts W cfg ctx invoker w [r] w' \<and> loop_result cfg ctx (Suc n) [r] r"
      by (auto intro: attempts.one simp: loop_result_def)
    then show ?thesis by blast
  qed
qed

lemma client_pause_wait:
  assumes "client_pause V cfg attempt = Inr wait" and "draws_in_range (ce_draw V attempt)"
    and "0 < MaxBackoff cfg" and "MaxBackoff cfg < 2 ^ 63"
  shows "0 < wait \<and> wait \<le> MaxBackoff cfg"
  using assms(1) backoff_range [OF assms(2-4), of "attempt - 1"]
  by (auto simp: client_pause_def Let_def split: option.splits)

lemma retried_codes:
  "retried cfg ctx r \<Longrightarrow> \<not> isRetryableOptIn ctx \<Longrightarrow>
     \<exists>err. r = Inl err \<and> (status_Code (Some err) = Unavailable \<or> status_Code (Some err) = ResourceExhausted)"
  by (auto simp: retried_def shouldRetry_def safeRetryableCodes_def split: sum.splits)

text \<open>
  C39: what a retried call does. With a positive attempt limit the call is made at least once and at
  most that often; the client gets the last result, which may be a retryable error only when
  the limit is reached, or the context's error when the context ended between attempts. Every
  wait lies between one nanosecond and the maximum, also where the exponential backoff overflows.
  Without the opt-in of the caller only \<open>Unavailable\<close> and \<open>ResourceExhausted\<close> lead to another attempt.
\<close>

theorem client_retry_outcome:
  assumes "0 < MaxAttempts cfg" and "0 < MaxBackoff cfg" and "MaxBackoff cfg < 2 ^ 63"
    and "\<And>a. draws_in_range (ce_draw V a)"
    and "UnaryClientRetryInterceptor V cfg invoker ctx w = (r, w')"
  shows "\<exists>rs. attempts (\<lambda>wait. 0 < wait \<and> wait \<le> MaxBackoff cfg) cfg ctx invoker w rs w' \<and>
     0 < length rs \<and> int (length rs) \<le> MaxAttempts cfg \<and> loop_result cfg ctx (nat (MaxAttempts cfg)) rs r \<and>
     (\<not> isRetryableOptIn ctx \<longrightarrow>
        list_all (\<lambda>r. \<exists>err. r = Inl err \<and> (status_Code (Some err) = Unavailable \<or> status_Code (Some err) = ResourceExhausted))
          (butlast rs))"
proof -
  from assms(1) obtain n where n: "nat (MaxAttempts cfg) = Suc n" by (metis gr0_conv_Suc zero_less_nat_eq)
  have waits: "0 < wait \<and> wait \<le> MaxBackoff cfg" if "client_pause V cfg a = Inr wait" for a wait
    by (rule client_pause_wait [OF that assms(4,2,3)])
  from assms(5) n have run: "client_retry_loop V cfg invoker ctx 0 (Suc n) (Inr ()) w = (r, w')"
    by (simp add: UnaryClientRetryInterceptor_def)
  have "\<exists>rs. attempts (\<lambda>wait. 0 < wait \<and> wait \<le> MaxBackoff cfg) cfg ctx invoker w rs w' \<and> loop_result cfg ctx (Suc n) rs r"
    by (rule retry_loop_attempts [OF run]) (rule waits)
  then obtain rs where rs: "attempts (\<lambda>wait. 0 < wait \<and> wait \<le> MaxBackoff cfg) cfg ctx invoker w rs w'" "loop_result cfg ctx (Suc n) rs r"
    by blast
  have "length rs \<le> Suc n" using rs(2) by (simp add: loop_result_def)
  then have "int (length rs) \<le> MaxAttempts cfg" using n by linarith
  moreover have "0 < length rs" using attempts_nonempty [OF rs(1)] by simp
  moreover have "list_all (retried cfg ctx) (butlast rs)" by (rule attempts_retried [OF rs(1)])
  ultimately show ?thesis
    using rs n retried_codes [of cfg ctx] by (auto simp: list_all_iff)
qed

text \<open>A server that is unavailable for one call and then answers.\<close>

definition flaky :: "(nat, unit) call" where
  "flaky ctx w =
     (if cw_net w = 0 then (Inl (StatusErr Unavailable ''down''), w\<lparr>cw_net := 1\<rparr>) else (Inr (), w))"

definition client_world :: "nat cworld" where
  "client_world =
     \<lparr>cw_clk = (\<lambda>_. 0), cw_tick = 0, cw_log = [], ClientTotalRequests = (\<lambda>_. 0), ClientTotalErrors = (\<lambda>_ _. 0),
      ClientRequestDuration = [], cw_waits = [], cw_net = 0\<rparr>"

definition patient :: client_env where
  "patient = \<lparr>ce_done = (\<lambda>_. None), ce_wait = (\<lambda>_ _. None), ce_draw = (\<lambda>_ n. n - 1)\<rparr>"

lemma flaky_retried:
  "UnaryClientRetryInterceptor patient DefaultRetryConfig flaky Background client_world =
     (Inr (), client_world\<lparr>cw_net := 1, cw_waits := [50 * millisecond]\<rparr>)"
  by (simp add: UnaryClientRetryInterceptor_def DefaultRetryConfig_def flaky_def client_world_def patient_def
      eval_nat_numeral client_pause_def backoff_def status_FromError_def status_New_def shouldRetry_def isRetryableOptIn_def
      Background_def safeRetryableCodes_def wrap64_def Let_def)

theorem client_retry_outcome_witness:
  "UnaryClientRetryInterceptor patient DefaultRetryConfig flaky Background client_world =
     (Inr (), client_world\<lparr>cw_net := 1, cw_waits := [50 * millisecond]\<rparr>) \<and>
   (\<exists>rs. 0 < length rs \<and> length rs \<le> 3 \<and> loop_result DefaultRetryConfig Background 3 rs (Inr ()))"
proof -
  have draws: "draws_in_range (ce_draw patient a)" for a by (simp add: draws_in_range_def patient_def)
  show ?thesis
    using client_retry_outcome [OF _ _ _ draws flaky_retried] flaky_retried
    by (auto simp: DefaultRetryConfig_def)
qed

end
