(* ===== verification/Stream_Rpc.thy ===== *)
theory Stream_Rpc
  imports Service_Rpc
begin

text \<open>
  The stream methods of the service as gRPC methods, \<open>pkg/pb/service_grpc.pb.go\<close>: the registered
  stream handlers, the service descriptor and the server that implements nothing, and a stream
  request through the stream interceptors of the server.

  A stream is given by what its calls return: the request of an event stream or the error of
  \<open>RecvMsg\<close>, the messages of a client stream in their order and the error that ends it (\<open>io.EOF\<close>
  when the client has closed its side), and the outcome of each \<open>Send\<close>. What a handler puts on the
  wire is the list of messages it has sent; it stands in the place of the response of a unary call.
\<close>

section \<open>Stream handlers\<close>

datatype 'f sent = SentEvent UserEvent | SentSummary "'f CollectMetricsResponse" | SentChat ChatMessage

datatype 'f stream_call =
    CallStreamUserEvents env "StreamUserEventsRequest result" "nat \<Rightarrow> select_outcome"
  | CallCollectUserMetrics "'f UserMetric list" go_error "go_error option"
  | CallChatStream "(ChatMessage \<times> env \<times> go_error option) list" env go_error

primrec stream_method :: "'f stream_call \<Rightarrow> string" where
  "stream_method (CallStreamUserEvents E q sel) = UserService_StreamUserEvents_FullMethodName"
| "stream_method (CallCollectUserMetrics ms fin closeErr) = UserService_CollectUserMetrics_FullMethodName"
| "stream_method (CallChatStream steps E fin) = UserService_ChatStream_FullMethodName"

definition UserService_StreamUserEvents_Handler ::
  "'s UserService \<Rightarrow> env \<Rightarrow> StreamUserEventsRequest result \<Rightarrow> (nat \<Rightarrow> select_outcome) \<Rightarrow> Context \<Rightarrow> 's \<Rightarrow>
     (go_error option \<times> 'f sent list) \<times> 's" where
  "UserService_StreamUserEvents_Handler svc E recvMsg sel ctx s =
     (case recvMsg of
        Inl err \<Rightarrow> ((Some err, []), s)
      | Inr m \<Rightarrow> (case StreamUserEvents svc E (Some ctx) sel (Some m) s of ((r, evs), s') \<Rightarrow> ((r, map SentEvent evs), s')))"

text \<open>\<open>Recv\<close> never returns a nil message without an error, and the last result ends the loop.\<close>

definition metric_recvs :: "'f UserMetric list \<Rightarrow> go_error \<Rightarrow> ('f UserMetric option) result list" where
  "metric_recvs ms fin = map (\<lambda>m. Inr (Some m)) ms @ [Inl fin]"

definition UserService_CollectUserMetrics_Handler ::
  "'s UserService \<Rightarrow> 'f float64 \<Rightarrow> 'f UserMetric list \<Rightarrow> go_error \<Rightarrow> go_error option \<Rightarrow> go_error option \<times> 'f sent list" where
  "UserService_CollectUserMetrics_Handler svc F ms fin closeErr =
     (case CollectUserMetrics svc F (metric_recvs ms fin) closeErr of
        Some (None, Some resp) \<Rightarrow> (None, [SentSummary resp])
      | Some (r, _) \<Rightarrow> (r, [])
      | None \<Rightarrow> (Some fin, []))"

definition chat_steps ::
  "(ChatMessage \<times> env \<times> go_error option) list \<Rightarrow> env \<Rightarrow> go_error \<Rightarrow> ((ChatMessage option) result \<times> env \<times> go_error option) list" where
  "chat_steps steps E fin = map (\<lambda>(m, E, sent). (Inr (Some m), E, sent)) steps @ [(Inl fin, E, None)]"

definition UserService_ChatStream_Handler ::
  "'s UserService \<Rightarrow> (ChatMessage \<times> env \<times> go_error option) list \<Rightarrow> env \<Rightarrow> go_error \<Rightarrow> go_error option \<times> 'f sent list" where
  "UserService_ChatStream_Handler svc steps E fin =
     (case ChatStream svc (chat_steps steps E fin) of
        (Some r, replies) \<Rightarrow> (r, map SentChat replies)
      | (None, replies) \<Rightarrow> (Some fin, map SentChat replies))"

text \<open>A handler waits for nothing once the stream has ended, so the last cases above do not occur.\<close>

lemma metrics_loop_ends: "metrics_loop svc F (metric_recvs ms fin) count acc \<noteq> None"
proof (induction ms arbitrary: count acc)
  case Nil
  then show ?case by (simp add: metric_recvs_def)
next
  case (Cons m ms)
  then show ?case by (simp add: metric_recvs_def Let_def split: option.split)
qed

lemma CollectUserMetrics_ends: "CollectUserMetrics svc F (metric_recvs ms fin) closeErr \<noteq> None"
  using metrics_loop_ends [of svc F ms fin 0 "f_zero F"]
  by (auto simp: CollectUserMetrics_def Let_def split: option.split sum.split)

lemma ChatStream_ends: "fst (ChatStream svc (chat_steps steps E fin)) \<noteq> None"
proof (induction steps)
  case Nil
  then show ?case by (simp add: chat_steps_def)
next
  case (Cons x steps)
  then show ?case by (cases x) (auto simp: chat_steps_def split: option.splits prod.splits)
qed

text \<open>The registered handler of a call, and the same as the innermost handler of a chain.\<close>

primrec run_stream :: "'f float64 \<Rightarrow> 's UserService \<Rightarrow> 'f stream_call \<Rightarrow> Context \<Rightarrow> 's \<Rightarrow> (go_error option \<times> 'f sent list) \<times> 's" where
  "run_stream F svc (CallStreamUserEvents E q sel) ctx s = UserService_StreamUserEvents_Handler svc E q sel ctx s"
| "run_stream F svc (CallCollectUserMetrics ms fin closeErr) ctx s = (UserService_CollectUserMetrics_Handler svc F ms fin closeErr, s)"
| "run_stream F svc (CallChatStream steps E fin) ctx s = (UserService_ChatStream_Handler svc steps E fin, s)"

definition stream_handler :: "'f float64 \<Rightarrow> 's UserService \<Rightarrow> 'f stream_call \<Rightarrow> ('l, 's, 'f sent list) handler" where
  "stream_handler F svc call ctx w =
     (case run_stream F svc call ctx (w_app w) of ((r, sent), s) \<Rightarrow> (Returned (Some sent) r, w\<lparr>w_app := s\<rparr>))"

definition stream_rpc where
  "stream_rpc F svc C q = (case q of (ctx, call) \<Rightarrow> stream_chain C (stream_method call) (stream_handler F svc call) ctx)"

section \<open>The service descriptor\<close>

record StreamDesc =
  StreamName :: string
  ServerStreams :: bool
  ClientStreams :: bool

record ServiceDesc =
  ServiceName :: string
  Methods :: "string list"
  Streams :: "StreamDesc list"
  Metadata :: string

definition UserService_ServiceDesc :: ServiceDesc where
  "UserService_ServiceDesc =
     \<lparr>ServiceName = ''example.v1.UserService'',
      Methods = [''GetUser'', ''CreateUser'', ''UpdateUser'', ''DeleteUser'', ''ListUsers''],
      Streams =
        [\<lparr>StreamName = ''StreamUserEvents'', ServerStreams = True, ClientStreams = False\<rparr>,
         \<lparr>StreamName = ''CollectUserMetrics'', ServerStreams = False, ClientStreams = True\<rparr>,
         \<lparr>StreamName = ''ChatStream'', ServerStreams = True, ClientStreams = True\<rparr>],
      Metadata = ''service.proto''\<rparr>"

text \<open>The method a server of the descriptor calls for a path \<open>/service/method\<close>.\<close>

definition registered :: "ServiceDesc \<Rightarrow> string \<Rightarrow> bool" where
  "registered d m \<longleftrightarrow> (\<exists>n \<in> set (Methods d) \<union> StreamName ` set (Streams d). m = ''/'' @ ServiceName d @ ''/'' @ n)"

lemma methods_registered: "registered UserService_ServiceDesc (full_method call)"
  by (cases call) (simp_all add: registered_def UserService_ServiceDesc_def method_names)

lemma streams_registered: "registered UserService_ServiceDesc (stream_method call)"
  by (cases call) (simp_all add: registered_def UserService_ServiceDesc_def UserService_StreamUserEvents_FullMethodName_def
      UserService_CollectUserMetrics_FullMethodName_def UserService_ChatStream_FullMethodName_def)

definition UnimplementedUserServiceServer :: "string \<Rightarrow> go_error" where
  "UnimplementedUserServiceServer method = StatusErr Unimplemented (''method '' @ method @ '' not implemented'')"

section \<open>One stream request\<close>

lemma streams_require_auth [simp]: "requiresAuth (stream_method call)"
  by (cases call) (simp_all add: requiresAuth_def UserService_StreamUserEvents_FullMethodName_def
      UserService_CollectUserMetrics_FullMethodName_def UserService_ChatStream_FullMethodName_def)

text \<open>A stream request is refused and sends nothing, or its handler runs once behind the checks.\<close>

lemma stream_rpc_cases:
  fixes call :: "'f stream_call"
  assumes "stream_rpc F svc C (ctx, call) w = (out, w')"
  obtains (refused) err where "out = Returned None (Some err)" and "w_app w' = w_app w" and "status_Code (Some err) \<in> refusal_codes"
  | (called) c c' r sent where "guarded_ctx C (stream_method call) (w_clk w) ctx c" and "inner_ctx C c c'"
    and "run_stream F svc call c' (w_app w) = ((r, sent), w_app w')" and "out = Returned (Some sent) r"
proof -
  let ?m = "stream_method call"
  let ?h = "stream_handler F svc call"
  have run: "stream_chain C ?m ?h ctx w = (out, w')" using assms by (simp add: stream_rpc_def)
  have "server_chain C ?m (stream_chain C ?m)" by (simp add: server_chain_def)
  then show thesis
  proof (cases rule: chain_call [where ctx = ctx and w = w and I = "stream_chain C ?m :: (_, _, 'f sent list) interceptor"])
    case (refused err w1)
    with run have "out = Returned None (Some err)" "w_app w' = w_app w" "status_Code (Some err) \<in> refusal_codes"
      by (auto simp: refuses_def)
    then show thesis by (rule that(1))
  next
    case (called c c' w1 msg)
    obtain r sent s where body: "run_stream F svc call c' (w_app w1) = ((r, sent), s)" by (metis surj_pair)
    then have "?h c' w1 = (Returned (Some sent) r, w1\<lparr>w_app := s\<rparr>)" by (simp add: stream_handler_def)
    from called(5) [of ?h, OF this] obtain w3 where "stream_chain C ?m ?h ctx w = recovered msg ?m (Returned (Some sent) r, w3)"
      "w_app w3 = s" by auto
    then have "out = Returned (Some sent) r" "w_app w' = s" using run by (auto simp: recovered_def)
    with that(2) [OF called(1,2)] body called(3) show thesis by simp
  qed
qed

section \<open>What a stream sends\<close>

text \<open>Every chat message that was answered got its echo, in order, and a clean end answers all of them.\<close>

lemma chat_steps_Cons: "chat_steps ((m, Em, sent) # steps) E fin = (Inr (Some m), Em, sent) # chat_steps steps E fin"
  by (simp add: chat_steps_def)

definition chat_reply :: "ChatMessage \<times> env \<times> go_error option \<Rightarrow> ChatMessage \<Rightarrow> bool" where
  "chat_reply step reply \<longleftrightarrow>
     (\<exists>m E i. step = (m, E, None) \<and> newID E ''msg'' = Some i \<and> ch_UserId m \<noteq> [] \<and> ch_Message m \<noteq> [] \<and>
        reply = m\<lparr>ch_Id := i, ch_Timestamp := Some (timestamp_of (clk E HandlerNow))\<rparr>)"

lemma chat_replies:
  assumes "ChatStream svc (chat_steps steps E fin) = (res, replies)"
  shows "length replies \<le> length steps \<and> (res = Some None \<longrightarrow> errors_Is fin io_EOF \<and> length replies = length steps) \<and>
    (\<forall>i < length replies. chat_reply (steps ! i) (replies ! i))"
  using assms
proof (induction steps arbitrary: replies)
  case Nil
  then show ?case by (auto simp: chat_steps_def split: if_splits)
next
  case (Cons x steps)
  obtain m Em sent where x: "x = (m, Em, sent)" by (cases x)
  show ?case
  proof (cases replies)
    case Nil
    with Cons.prems show ?thesis by (auto simp: x chat_steps_Cons split: option.splits prod.splits)
  next
    case (Cons reply rest)
    with Cons.prems have rec: "ChatStream svc (chat_steps steps E fin) = (res, rest)" and "chat_reply x reply"
      by (auto simp: x chat_steps_Cons chat_reply_def validateText_def split: option.splits prod.splits if_splits)
    with Cons.IH [OF rec] show ?thesis by (auto simp: Cons nth_Cons split: nat.splits)
  qed
qed

text \<open>
  There is no cap on a chat: however many valid messages arrive, whatever \<open>MaxStreamMessages\<close> is, all
  of them are answered.
\<close>

definition chat_valid :: "'s UserService \<Rightarrow> ChatMessage \<times> env \<times> go_error option \<Rightarrow> bool" where
  "chat_valid svc step \<longleftrightarrow>
     (case step of (m, E, sent) \<Rightarrow>
        validateText svc (ch_UserId m) ''user_id'' = None \<and> validateText svc (ch_Message m) ''message'' = None \<and>
        newID E ''msg'' \<noteq> None \<and> sent = None)"

lemma chat_uncapped:
  assumes "list_all (chat_valid svc) steps" and "errors_Is fin io_EOF"
  shows "\<exists>replies. ChatStream svc (chat_steps steps E fin) = (Some None, replies) \<and> length replies = length steps"
  using assms(1)
proof (induction steps)
  case Nil
  then show ?case by (simp add: chat_steps_def assms(2))
next
  case (Cons x steps)
  obtain m Em sent where x: "x = (m, Em, sent)" by (cases x)
  from Cons obtain replies where "ChatStream svc (chat_steps steps E fin) = (Some None, replies)" "length replies = length steps" by auto
  with Cons.prems show ?case by (auto simp: x chat_steps_Cons chat_valid_def)
qed

text \<open>The messages before the error that ends a metrics stream are determined by its results.\<close>

lemma metric_recvs_split:
  "metric_recvs ms fin = map (\<lambda>m. Inr (Some m)) ns @ Inl eof # rest \<Longrightarrow> ns = ms \<and> eof = fin"
proof (induction ms arbitrary: ns)
  case Nil
  then show ?case by (cases ns) (simp_all add: metric_recvs_def)
next
  case (Cons m ms)
  then show ?case by (cases ns) (auto simp: metric_recvs_def)
qed

text \<open>
  The messages of a stream, with the error \<open>r\<close> of its handler: events in the order of the ticks and
  only for a user that exists; one exact summary after the end of a metrics stream; an echo of every
  chat message under a new identifier, in order.
\<close>

primrec stream_sends ::
  "'f float64 \<Rightarrow> 's UserService \<Rightarrow> 'f stream_call \<Rightarrow> Context \<Rightarrow> 's \<Rightarrow> go_error option \<Rightarrow> 'f sent list \<Rightarrow> bool" where
  "stream_sends F svc (CallStreamUserEvents E q sel) ctx s r sent \<longleftrightarrow>
     int (length sent) \<le> maxStreamMessages svc \<and> (r = None \<longrightarrow> int (length sent) = maxStreamMessages svc) \<and>
     (sent \<noteq> [] \<longrightarrow> (\<exists>m u. q = Inr m \<and> fst (GetUser svc E (Some ctx) (Some \<lparr>gr_Id = sr_UserId m\<rparr>) s) = Inr u \<and>
        (\<forall>i < length sent. \<exists>now. sel i = Tick now None \<and> sent ! i = SentEvent (user_event m i now))))"
| "stream_sends F svc (CallCollectUserMetrics ms fin closeErr) ctx s r sent \<longleftrightarrow>
     (sent = [] \<and> r \<noteq> None \<or>
      r = None \<and> errors_Is fin io_EOF \<and> int (length ms) \<le> maxStreamMessages svc \<and>
      (\<forall>m \<in> set ms. \<not> IsNaN F (um_Value m) \<and> \<not> IsInf F (um_Value m)) \<and>
      (let total = foldl (f_add F) (f_zero F) (map um_Value ms)
       in sent = [SentSummary \<lparr>cm_Count = int (length ms), cm_Sum = total,
             cm_Avg = if ms = [] then f_zero F else f_div F total (f_of_int F (int (length ms)))\<rparr>]))"
| "stream_sends F svc (CallChatStream steps E fin) ctx s r sent \<longleftrightarrow>
     length sent \<le> length steps \<and> (r = None \<longrightarrow> errors_Is fin io_EOF \<and> length sent = length steps) \<and>
     (\<forall>i < length sent. \<exists>reply. sent ! i = SentChat reply \<and> chat_reply (steps ! i) reply)"

text \<open>The effect of a stream on the repository is at most one lookup.\<close>

definition looked_up :: "'s UserService \<Rightarrow> Context \<Rightarrow> 's \<Rightarrow> 's \<Rightarrow> bool" where
  "looked_up svc ctx s s' \<longleftrightarrow> s' = s \<or> (\<exists>E i. s' = snd (GetUser svc E (Some ctx) (Some \<lparr>gr_Id = i\<rparr>) s))"

lemma StreamUserEvents_lookup:
  assumes "StreamUserEvents svc E (Some ctx) sel (Some m) s = ((r, evs), s')"
  shows "looked_up svc ctx s s' \<and> (evs \<noteq> [] \<longrightarrow> (\<exists>u. fst (GetUser svc E (Some ctx) (Some \<lparr>gr_Id = sr_UserId m\<rparr>) s) = Inr u))"
  using assms unfolding StreamUserEvents_def looked_up_def
  by (auto split: option.splits if_splits sum.splits prod.splits) (metis snd_conv)+

lemma run_stream_lookup:
  assumes "run_stream F svc call ctx s = ((r, sent), s')"
  shows "looked_up svc ctx s s'"
proof (cases call)
  case (CallStreamUserEvents E q sel)
  show ?thesis
  proof (cases q)
    case (Inl err)
    with assms CallStreamUserEvents show ?thesis by (simp add: UserService_StreamUserEvents_Handler_def looked_up_def)
  next
    case (Inr m)
    with assms CallStreamUserEvents obtain evs where "StreamUserEvents svc E (Some ctx) sel (Some m) s = ((r, evs), s')"
      by (auto simp: UserService_StreamUserEvents_Handler_def split: prod.splits)
    from StreamUserEvents_lookup [OF this] show ?thesis by simp
  qed
qed (use assms in \<open>auto simp: looked_up_def\<close>)

lemma events_sends:
  assumes "0 \<le> maxStreamMessages svc" and "UserService_StreamUserEvents_Handler svc E q sel ctx s = ((r, sent), s')"
  shows "stream_sends F svc (CallStreamUserEvents E q sel) ctx s r sent"
proof (cases q)
  case (Inl err)
  with assms show ?thesis by (auto simp: UserService_StreamUserEvents_Handler_def)
next
  case (Inr m)
  with assms(2) obtain evs where ev: "StreamUserEvents svc E (Some ctx) sel (Some m) s = ((r, evs), s')" "sent = map SentEvent evs"
    by (auto simp: UserService_StreamUserEvents_Handler_def split: prod.splits)
  from event_stream_bounded [OF assms(1) ev(1)] StreamUserEvents_lookup [OF ev(1)] show ?thesis
    by (auto simp: ev(2) Inr)
qed

lemma metrics_sends:
  assumes "0 \<le> maxStreamMessages svc" and "maxStreamMessages svc < 2 ^ 31"
    and "UserService_CollectUserMetrics_Handler svc F ms fin closeErr = (r, sent)"
  shows "stream_sends F svc (CallCollectUserMetrics ms fin closeErr) ctx s r sent"
proof -
  obtain e resp where c: "CollectUserMetrics svc F (metric_recvs ms fin) closeErr = Some (e, resp)"
    using CollectUserMetrics_ends [of svc F ms fin closeErr] by auto
  show ?thesis
  proof (cases "e = None \<and> resp \<noteq> None")
    case False
    moreover have "resp = None \<Longrightarrow> e \<noteq> None"
      using c by (auto simp: CollectUserMetrics_def Let_def split: option.splits sum.splits prod.splits)
    ultimately show ?thesis using assms(3) c
      by (auto simp: UserService_CollectUserMetrics_Handler_def split: option.splits)
  next
    case True
    then obtain R where R: "e = None" "resp = Some R" by blast
    from metrics_summary_exact [OF assms(1,2) c [unfolded R]] obtain ns eof rest where
      "metric_recvs ms fin = map (\<lambda>m. Inr (Some m)) ns @ Inl eof # rest" and sum: "errors_Is eof io_EOF"
      "cm_Count R = int (length ns)" "cm_Count R \<le> maxStreamMessages svc" "cm_Sum R = foldl (f_add F) (f_zero F) (map um_Value ns)"
      "cm_Avg R = (if ns = [] then f_zero F else f_div F (cm_Sum R) (f_of_int F (cm_Count R)))"
      "\<forall>m \<in> set ns. \<not> IsNaN F (um_Value m) \<and> \<not> IsInf F (um_Value m)" by blast
    then have "ns = ms" "eof = fin" using metric_recvs_split by blast+
    with sum R c assms(3) show ?thesis
      by (auto simp: UserService_CollectUserMetrics_Handler_def Let_def CollectMetricsResponse.equality)
  qed
qed

lemma chat_sends:
  assumes "UserService_ChatStream_Handler svc steps E fin = (r, sent)"
  shows "stream_sends F svc (CallChatStream steps E fin) ctx s r sent"
proof -
  obtain r0 replies where c: "ChatStream svc (chat_steps steps E fin) = (Some r0, replies)"
    using ChatStream_ends [of svc steps E fin] by (cases "ChatStream svc (chat_steps steps E fin)") auto
  with assms have "r = r0" "sent = map SentChat replies" by (simp_all add: UserService_ChatStream_Handler_def)
  with chat_replies [OF c] show ?thesis by auto
qed

lemma run_stream_sends:
  assumes "0 \<le> maxStreamMessages svc" and "maxStreamMessages svc < 2 ^ 31" and "run_stream F svc call ctx s = ((r, sent), s')"
  shows "stream_sends F svc call ctx s r sent"
proof (cases call)
  case (CallStreamUserEvents E q sel)
  with assms(3) have "UserService_StreamUserEvents_Handler svc E q sel ctx s = ((r, sent), s')" by simp
  from events_sends [OF assms(1) this] CallStreamUserEvents show ?thesis by blast
next
  case (CallCollectUserMetrics ms fin closeErr)
  with assms(3) have "UserService_CollectUserMetrics_Handler svc F ms fin closeErr = (r, sent)" by simp
  from metrics_sends [OF assms(1,2) this] CallCollectUserMetrics show ?thesis by blast
next
  case (CallChatStream steps E fin)
  with assms(3) have "UserService_ChatStream_Handler svc steps E fin = (r, sent)" by simp
  from chat_sends [OF this] CallChatStream show ?thesis by blast
qed

text \<open>
  C6: a stream request is checked before it runs and stays within its bounds. It is refused, with
  nothing sent and nothing changed, or a credential of it was accepted and the policy allows the
  method. Then its effect on the repository is at most one lookup. An event stream sends at most
  \<open>MaxStreamMessages\<close> events, in the order of its ticks and for an existing user only; a metrics stream
  sends one summary, exact for the metrics received, after the client has closed it, or nothing; a
  chat answers its messages in order, each under a new identifier. A stream that ends without an
  error has sent everything.
\<close>

theorem stream_request_safe:
  assumes "stream_rpc F svc C (ctx, call) w = (out, w')" and "0 \<le> maxStreamMessages svc" and "maxStreamMessages svc < 2 ^ 31"
  shows "(\<exists>err. out = Returned None (Some err) \<and> w_app w' = w_app w \<and>
            status_Code (Some err) \<in> {Unauthenticated, PermissionDenied, ResourceExhausted}) \<or>
     (\<exists>a claims t1 t2 t3 c r sent.
        ch_auth C = Some a \<and>
        authenticate (ch_lib C) \<lparr>now_exp = w_clk w t1, now_nbf = w_clk w t2, now_iat = w_clk w t3\<rparr> a ctx = Some claims \<and>
        allowed (ch_policy C) (ch_defaultDeny C) (Some claims) (stream_method call) \<and>
        out = Returned (Some sent) r \<and> stream_sends F svc call c (w_app w) r sent \<and> looked_up svc c (w_app w) (w_app w'))"
  using assms(1)
proof (cases rule: stream_rpc_cases)
  case (refused err)
  then show ?thesis by (auto simp: refusal_codes_def)
next
  case (called c c' r sent)
  from called(1) obtain a claims t1 t2 t3 where "ch_auth C = Some a"
      "authenticate (ch_lib C) \<lparr>now_exp = w_clk w t1, now_nbf = w_clk w t2, now_iat = w_clk w t3\<rparr> a ctx = Some claims"
      "allowed (ch_policy C) (ch_defaultDeny C) (Some claims) (stream_method call)"
    unfolding guarded_ctx_def using streams_require_auth by blast
  with run_stream_sends [OF assms(2,3) called(3)] run_stream_lookup [OF called(3)] called(4) show ?thesis by blast
qed

text \<open>Two metrics of an authenticated client.\<close>

lemma metrics_accepted:
  "case fst (stream_rpc ints (NewUserServiceWithRepository None limits1 :: nat UserService) demo_chain
     (demo_ctx, CallCollectUserMetrics [metric1, metric1] io_EOF None) demo_world) of Returned (Some sent) None \<Rightarrow> True | _ \<Rightarrow> False"
  by code_simp

theorem stream_request_safe_witness:
  "fst (stream_rpc ints (NewUserServiceWithRepository None limits1 :: nat UserService) demo_chain
     (demo_ctx, CallCollectUserMetrics [metric1, metric1] io_EOF None) demo_world) =
   Returned (Some [SentSummary \<lparr>cm_Count = 2, cm_Sum = 8, cm_Avg = 4\<rparr>]) None"
proof -
  let ?svc = "NewUserServiceWithRepository None limits1 :: nat UserService"
  obtain out w' where run: "stream_rpc ints ?svc demo_chain (demo_ctx, CallCollectUserMetrics [metric1, metric1] io_EOF None) demo_world = (out, w')"
    by fastforce
  from metrics_accepted obtain sent where "out = Returned (Some sent) None"
    by (auto simp: run split: outcome.splits option.splits)
  moreover have "0 \<le> maxStreamMessages ?svc" "maxStreamMessages ?svc < 2 ^ 31" by simp_all
  ultimately have "out = Returned (Some [SentSummary \<lparr>cm_Count = 2, cm_Sum = 8, cm_Avg = 4\<rparr>]) None"
    using stream_request_safe [OF run] by (auto simp: ints_def metric1_def Let_def)
  then show ?thesis by (simp add: run)
qed

section \<open>Well-typed messages\<close>

text \<open>
  What every message on a stream carries: identifiers, valid times, and a count that fits an \<open>int32\<close>
  and is not negative, whatever the limit.
\<close>

primrec typed_sent :: "'f sent \<Rightarrow> bool" where
  "typed_sent (SentEvent e) \<longleftrightarrow> ue_UserId e \<noteq> [] \<and> valid_timestamp (ue_Timestamp e)"
| "typed_sent (SentSummary resp) \<longleftrightarrow> 0 \<le> cm_Count resp \<and> int32 (cm_Count resp) = cm_Count resp"
| "typed_sent (SentChat m) \<longleftrightarrow> ch_Id m \<noteq> [] \<and> ch_UserId m \<noteq> [] \<and> ch_Message m \<noteq> [] \<and>
     (\<exists>t. ch_Timestamp m = Some t \<and> valid_timestamp t)"

lemma int32_range: "int32 x < 2 ^ 31"
  by (simp add: int32_def)

text \<open>The counter is checked against the truncated limit before it is incremented, so it never wraps.\<close>

lemma metrics_count_int32:
  assumes "metrics_loop svc F recvs c acc = Some (Inr (count, total'))" and "0 \<le> c" and "c < 2 ^ 31"
  shows "0 \<le> count \<and> count < 2 ^ 31"
  using assms
proof (induction recvs arbitrary: c acc)
  case (Cons r recvs)
  show ?case
  proof (cases "r = Inr None \<or> isl r")
    case True
    with Cons.prems show ?thesis by (auto split: if_splits sum.splits)
  next
    case False
    then obtain m where r: "r = Inr (Some m)" by (cases r) auto
    with Cons.prems(1) have "c < int32 (maxStreamMessages svc)"
      and rec: "metrics_loop svc F recvs (int32 (c + 1)) (f_add F acc (um_Value m)) = Some (Inr (count, total'))"
      by (auto simp: Let_def split: if_splits option.splits)
    then have "c + 1 < 2 ^ 31" using int32_range [of "maxStreamMessages svc"] by linarith
    with Cons.IH [OF rec] Cons.prems(2) show ?thesis by simp
  qed
qed simp

lemma event_loop_typed: "sr_UserId q \<noteq> [] \<Longrightarrow> event_loop sel q i n = (r, evs) \<Longrightarrow> list_all typed_sent (map SentEvent evs)"
  by (induction n arbitrary: i r evs) (auto simp: user_event_def split: select_outcome.splits option.splits prod.splits)

lemma StreamUserEvents_typed:
  assumes "StreamUserEvents svc E ctx sel (Some q) s = ((r, evs), s')"
  shows "list_all typed_sent (map SentEvent evs)"
proof (cases "evs = []")
  case False
  with assms have "sr_UserId q \<noteq> []" "event_loop sel q 0 (nat (maxStreamMessages svc)) = (r, evs)"
    by (auto simp: StreamUserEvents_def validateText_def split: option.splits if_splits sum.splits prod.splits)
  then show ?thesis by (rule event_loop_typed)
qed simp

lemma run_stream_typed:
  assumes "run_stream F svc call ctx s = ((r, sent), s')"
  shows "list_all typed_sent sent"
proof (cases call)
  case (CallStreamUserEvents E q sel)
  with assms StreamUserEvents_typed show ?thesis
    by (fastforce simp: UserService_StreamUserEvents_Handler_def split: sum.splits prod.splits)
next
  case (CallCollectUserMetrics ms fin closeErr)
  have "typed_sent (SentSummary resp)" if "CollectUserMetrics svc F (metric_recvs ms fin) closeErr = Some (e, Some resp)" for e resp
    using that metrics_count_int32 [of svc F "metric_recvs ms fin" 0 "f_zero F"]
    by (auto simp: CollectUserMetrics_def Let_def split: option.splits sum.splits prod.splits)
  with assms CallCollectUserMetrics show ?thesis
    by (auto simp: UserService_CollectUserMetrics_Handler_def split: option.splits)
next
  case (CallChatStream steps E fin)
  then have c: "UserService_ChatStream_Handler svc steps E fin = (r, sent)" using assms by simp
  then obtain res replies where rep: "ChatStream svc (chat_steps steps E fin) = (res, replies)" "sent = map SentChat replies"
    by (auto simp: UserService_ChatStream_Handler_def split: prod.splits option.splits)
  have "typed_sent (SentChat reply)" if "chat_reply step reply" for step and reply
    using that by (auto simp: chat_reply_def newID_def split: option.splits)
  then show ?thesis using chat_replies [OF rep(1)] unfolding rep(2) list_all_length length_map by (metis nth_map)
qed

section \<open>Requests of both kinds\<close>

datatype 'f request = Unary rpc | Streaming "Context \<times> 'f stream_call"

definition serve_request where
  "serve_request P F svc C q w =
     (case q of Unary rpc \<Rightarrow> snd (unary_rpc P svc C rpc w) | Streaming call \<Rightarrow> snd (stream_rpc F svc C call w))"

definition serve_requests where
  "serve_requests P F svc C qs w = fold (serve_request P F svc C) qs w"

primrec request_ctx :: "'f request \<Rightarrow> Context" where
  "request_ctx (Unary rpc) = fst (snd rpc)"
| "request_ctx (Streaming call) = fst call"

text \<open>The client gets an error and no message.\<close>

definition request_refused where
  "request_refused P F svc C q w \<longleftrightarrow>
     (case q of
        Unary rpc \<Rightarrow> \<exists>err. fst (unary_rpc P svc C rpc w) = Returned None (Some err)
      | Streaming call \<Rightarrow> \<exists>err. fst (stream_rpc F svc C call w) = Returned None (Some err))"

lemma anonymous_request:
  assumes "ch_auth C = Some a" and anon: "\<And>K. authenticate (ch_lib C) K a (request_ctx q) = None"
  shows "w_app (serve_request P F svc C q w) = w_app w \<and> request_refused P F svc C q w"
proof (cases q)
  case (Unary rpc)
  obtain E ctx dec where rpc: "rpc = (E, ctx, dec)" by (cases rpc)
  obtain out w' where run: "unary_rpc P svc C (E, ctx, dec) w = (out, w')" by fastforce
  then have "w_app w' = w_app w \<and> (\<exists>err. out = Returned None (Some err))"
  proof (cases rule: unary_rpc_cases)
    case (called c1 c2 call r)
    with assms Unary rpc have False unfolding guarded_ctx_def by (auto simp: methods_require_auth)
    then show ?thesis ..
  qed simp_all
  then show ?thesis by (simp add: Unary rpc run serve_request_def request_refused_def)
next
  case (Streaming x)
  obtain ctx call where x: "x = (ctx, call)" by fastforce
  obtain out w' where run: "stream_rpc F svc C (ctx, call) w = (out, w')" by fastforce
  then have "w_app w' = w_app w \<and> (\<exists>err. out = Returned None (Some err))"
  proof (cases rule: stream_rpc_cases)
    case (called c c' r sent)
    with assms Streaming x have False unfolding guarded_ctx_def by auto
    then show ?thesis ..
  qed simp
  then show ?thesis by (simp add: Streaming x run serve_request_def request_refused_def)
qed

text \<open>What every unary method keeps of the application's state, every sequence of requests keeps.\<close>

lemma serve_request_keeps:
  assumes keeps: "\<And>E ctx call s r s'. I s \<Longrightarrow> serve P svc (E, ctx, call) s = (r, s') \<Longrightarrow> I s'" and "I (w_app w)"
  shows "I (w_app (serve_request P F svc C q w))"
proof (cases q)
  case (Unary rpc)
  obtain E ctx dec where rpc: "rpc = (E, ctx, dec)" by (cases rpc)
  obtain out w' where run: "unary_rpc P svc C (E, ctx, dec) w = (out, w')" by fastforce
  then have "I (w_app w')"
  proof (cases rule: unary_rpc_cases)
    case (called c1 c2 call r)
    have "serve P svc (E, Some c2, call) (w_app w) = (err_of r, w_app w')" by (simp add: serve_is_call called(4) drop_value_def)
    from keeps [OF assms(2) this] show ?thesis .
  qed (use assms(2) in simp_all)
  then show ?thesis by (simp add: serve_request_def Unary rpc run)
next
  case (Streaming x)
  obtain ctx call where x: "x = (ctx, call)" by fastforce
  obtain out w' where run: "stream_rpc F svc C (ctx, call) w = (out, w')" by fastforce
  then have "I (w_app w')"
  proof (cases rule: stream_rpc_cases)
    case (called c c' r sent)
    from run_stream_lookup [OF called(3)] show ?thesis unfolding looked_up_def
    proof (elim disjE exE)
      fix E i
      assume "w_app w' = snd (GetUser svc E (Some c') (Some \<lparr>gr_Id = i\<rparr>) (w_app w))"
      with keeps [OF assms(2), of E "Some c'" "CallGet (Some \<lparr>gr_Id = i\<rparr>)"] show ?thesis by (simp add: drop_value_def)
    qed (use assms(2) in simp)
  qed (use assms(2) in simp)
  then show ?thesis by (simp add: serve_request_def Streaming x run)
qed

lemma serve_requests_keep:
  assumes "\<And>E ctx call s r s'. I s \<Longrightarrow> serve P svc (E, ctx, call) s = (r, s') \<Longrightarrow> I s'"
  shows "I (w_app w) \<Longrightarrow> I (w_app (serve_requests P F svc C qs w))"
proof (induction qs arbitrary: w)
  case (Cons q qs)
  have "I (w_app (serve_request P F svc C q w))" by (rule serve_request_keeps [where I = I]) (use assms Cons.prems in auto)
  with Cons.IH show ?case by (simp add: serve_requests_def)
qed (simp add: serve_requests_def)

end
