(* ===== verification/Client_Main.thy ===== *)
theory Client_Main
  imports Client_Interceptors Transport_Security Stream_Rpc
begin

text \<open>
  The example client, \<open>cmd/client/main.go\<close>: the connection with its interceptors and transport
  security, the client stubs of \<open>pkg/pb/service_grpc.pb.go\<close>, the four operations it runs one after
  the other, and the clean-up of the connection.

  The server as the client reaches it is a \<open>network\<close>: \<open>grpc.NewClient\<close>, the calls on the wire (what
  \<open>Invoke\<close> and \<open>NewStream\<close> do below the interceptors) and the closing of a connection. An open stream
  is given by what its calls return: each \<open>Send\<close> of a message, the results of \<open>Recv\<close> in order, and the
  call that closes it.
\<close>

section \<open>The connection\<close>

record ('k, 'p) conn =
  co_Address :: string
  co_Token :: string
  co_TLS :: "('k, 'p) tls_Config option"

record event_stream =
  es_SendMsg :: "StreamUserEventsRequest \<Rightarrow> go_error option"
  es_CloseSend :: "go_error option"
  es_Recv :: "UserEvent result list"

record 'f metrics_stream =
  ms_Send :: "nat \<Rightarrow> 'f UserMetric \<Rightarrow> go_error option"
  ms_CloseAndRecv :: "'f UserMetric list \<Rightarrow> ('f CollectMetricsResponse) result"

record chat_stream =
  ct_Send :: "nat \<Rightarrow> ChatMessage \<Rightarrow> go_error option"
  ct_CloseSend :: "go_error option"
  ct_Recv :: "ChatMessage result list"

record ('n, 'f, 'k, 'p) network =
  net_NewClient :: "('k, 'p) conn \<Rightarrow> go_error option"
  net_Close :: "'n \<Rightarrow> go_error option \<times> 'n"
  net_CreateUser :: "('k, 'p) conn \<Rightarrow> CreateUserRequest \<Rightarrow> ('n, User) call"
  net_GetUser :: "('k, 'p) conn \<Rightarrow> GetUserRequest \<Rightarrow> ('n, User) call"
  net_UpdateUser :: "('k, 'p) conn \<Rightarrow> UpdateUserRequest \<Rightarrow> ('n, User) call"
  net_DeleteUser :: "('k, 'p) conn \<Rightarrow> DeleteUserRequest \<Rightarrow> ('n, unit) call"
  net_ListUsers :: "('k, 'p) conn \<Rightarrow> ListUsersRequest \<Rightarrow> ('n, ListUsersResponse) call"
  net_StreamUserEvents :: "('k, 'p) conn \<Rightarrow> ('n, event_stream) call"
  net_CollectUserMetrics :: "('k, 'p) conn \<Rightarrow> ('n, 'f metrics_stream) call"
  net_ChatStream :: "('k, 'p) conn \<Rightarrow> ('n, chat_stream) call"

definition dialClient :: "('k, 'p) tls_lib \<Rightarrow> ('n, 'f, 'k, 'p) network \<Rightarrow> 'g Config \<Rightarrow> ('k, 'p) conn result" where
  "dialClient X N cfg =
     (case (if tls_Enabled (cfg_TLS cfg)
            then (case loadClientTLSCredentials X cfg of Inl err \<Rightarrow> Inl err | Inr creds \<Rightarrow> Inr (Some creds))
            else Inr None) of
        Inl err \<Rightarrow> Inl err
      | Inr creds \<Rightarrow>
          let c = \<lparr>co_Address = cl_Address (cfg_Client cfg), co_Token = cl_AuthToken (cfg_Client cfg), co_TLS = creds\<rparr>
          in case net_NewClient N c of
               Some err \<Rightarrow> Inl (Wrapf ''create client connection: '' err)
             | None \<Rightarrow> Inr c)"

text \<open>The interceptors of the connection, the outermost first.\<close>

definition conn_unary :: "('k, 'p) conn \<Rightarrow> string \<Rightarrow> ('n, 'a) call \<Rightarrow> ('n, 'a) call" where
  "conn_unary c m invoker =
     UnaryClientLoggingInterceptor m (UnaryClientMetricsInterceptor m (UnaryClientAuthInterceptorWithToken (co_Token c) invoker))"

definition conn_stream :: "('k, 'p) conn \<Rightarrow> string \<Rightarrow> ('n, 'st) call \<Rightarrow> ('n, 'st) call" where
  "conn_stream c m streamer =
     StreamClientLoggingInterceptor m (StreamClientMetricsInterceptor m (StreamClientAuthInterceptorWithToken (co_Token c) streamer))"

section \<open>The client stubs\<close>

text \<open>
  A unary stub invokes its method on the connection; an error comes without a message. The stub of
  the event stream also sends the request and closes its side.
\<close>

definition userServiceClient_GetUser :: "('n, 'f, 'k, 'p) network \<Rightarrow> ('k, 'p) conn \<Rightarrow> GetUserRequest \<Rightarrow> ('n, User) call" where
  "userServiceClient_GetUser N c q = conn_unary c UserService_GetUser_FullMethodName (net_GetUser N c q)"
definition userServiceClient_CreateUser :: "('n, 'f, 'k, 'p) network \<Rightarrow> ('k, 'p) conn \<Rightarrow> CreateUserRequest \<Rightarrow> ('n, User) call" where
  "userServiceClient_CreateUser N c q = conn_unary c UserService_CreateUser_FullMethodName (net_CreateUser N c q)"
definition userServiceClient_UpdateUser :: "('n, 'f, 'k, 'p) network \<Rightarrow> ('k, 'p) conn \<Rightarrow> UpdateUserRequest \<Rightarrow> ('n, User) call" where
  "userServiceClient_UpdateUser N c q = conn_unary c UserService_UpdateUser_FullMethodName (net_UpdateUser N c q)"
definition userServiceClient_DeleteUser :: "('n, 'f, 'k, 'p) network \<Rightarrow> ('k, 'p) conn \<Rightarrow> DeleteUserRequest \<Rightarrow> ('n, unit) call" where
  "userServiceClient_DeleteUser N c q = conn_unary c UserService_DeleteUser_FullMethodName (net_DeleteUser N c q)"
definition userServiceClient_ListUsers :: "('n, 'f, 'k, 'p) network \<Rightarrow> ('k, 'p) conn \<Rightarrow> ListUsersRequest \<Rightarrow> ('n, ListUsersResponse) call" where
  "userServiceClient_ListUsers N c q = conn_unary c UserService_ListUsers_FullMethodName (net_ListUsers N c q)"

definition userServiceClient_StreamUserEvents ::
  "('n, 'f, 'k, 'p) network \<Rightarrow> ('k, 'p) conn \<Rightarrow> StreamUserEventsRequest \<Rightarrow> ('n, event_stream) call" where
  "userServiceClient_StreamUserEvents N c q ctx w =
     (case conn_stream c UserService_StreamUserEvents_FullMethodName (net_StreamUserEvents N c) ctx w of
        (Inl err, w') \<Rightarrow> (Inl err, w')
      | (Inr stream, w') \<Rightarrow>
          (case es_SendMsg stream q of
             Some err \<Rightarrow> (Inl err, w')
           | None \<Rightarrow> (case es_CloseSend stream of Some err \<Rightarrow> (Inl err, w') | None \<Rightarrow> (Inr stream, w'))))"

definition userServiceClient_CollectUserMetrics :: "('n, 'f, 'k, 'p) network \<Rightarrow> ('k, 'p) conn \<Rightarrow> ('n, 'f metrics_stream) call" where
  "userServiceClient_CollectUserMetrics N c = conn_stream c UserService_CollectUserMetrics_FullMethodName (net_CollectUserMetrics N c)"
definition userServiceClient_ChatStream :: "('n, 'f, 'k, 'p) network \<Rightarrow> ('k, 'p) conn \<Rightarrow> ('n, chat_stream) call" where
  "userServiceClient_ChatStream N c = conn_stream c UserService_ChatStream_FullMethodName (net_ChatStream N c)"

section \<open>Clean-up\<close>

definition log_error :: "string \<Rightarrow> go_error \<Rightarrow> 'n cworld \<Rightarrow> 'n cworld" where
  "log_error msg err w =
     w\<lparr>cw_log := cw_log w @ [\<lparr>ll_level = ErrorLevel, ll_fields = [(''error'', FStr (Error err))], ll_msg = msg\<rparr>]\<rparr>"

definition closeConnection :: "('n, 'f, 'k, 'p) network \<Rightarrow> ('k, 'p) conn option \<Rightarrow> 'n cworld \<Rightarrow> 'n cworld" where
  "closeConnection N c w =
     (case c of
        None \<Rightarrow> w
      | Some _ \<Rightarrow>
          (case net_Close N (cw_net w) of
             (None, n) \<Rightarrow> w\<lparr>cw_net := n\<rparr>
           | (Some err, n) \<Rightarrow> log_error ''client connection close failed'' err (w\<lparr>cw_net := n\<rparr>)))"

text \<open>An operation dials, runs and closes the connection again, also when it fails.\<close>

definition with_conn ::
  "('k, 'p) tls_lib \<Rightarrow> ('n, 'f, 'k, 'p) network \<Rightarrow> 'g Config \<Rightarrow> (('k, 'p) conn \<Rightarrow> 'n cworld \<Rightarrow> go_error option \<times> 'n cworld) \<Rightarrow>
     'n cworld \<Rightarrow> go_error option \<times> 'n cworld" where
  "with_conn X N cfg body w =
     (case dialClient X N cfg of
        Inl err \<Rightarrow> (Some err, w)
      | Inr c \<Rightarrow> (case body c w of (e, w') \<Rightarrow> (e, closeConnection N (Some c) w')))"

definition client_ctx :: "'g Config \<Rightarrow> Context" where
  "client_ctx cfg = Background\<lparr>ctx_Timeout := Some (sv_Timeout (cfg_Server cfg))\<rparr>"

section \<open>The operations\<close>

definition createExampleUser ::
  "('n, 'f, 'k, 'p) network \<Rightarrow> ('k, 'p) conn \<Rightarrow> Context \<Rightarrow> 'n cworld \<Rightarrow> User result \<times> 'n cworld" where
  "createExampleUser N c ctx w =
     (let (now, w) = client_Now w;
          q = \<lparr>cr_Name = ''Client Demo'', cr_Email = ''client-'' @ show_int now @ ''@example.com'', cr_Age = 30, cr_IdempotencyKey = []\<rparr>
      in case userServiceClient_CreateUser N c q ctx w of
           (Inl err, w') \<Rightarrow> (Inl (Wrapf ''CreateUser failed: '' err), w')
         | (Inr user, w') \<Rightarrow> (Inr user, w'))"

definition log_info :: "(string \<times> field) list \<Rightarrow> string \<Rightarrow> 'n cworld \<Rightarrow> 'n cworld" where
  "log_info fs msg w = w\<lparr>cw_log := cw_log w @ [\<lparr>ll_level = InfoLevel, ll_fields = fs, ll_msg = msg\<rparr>]\<rparr>"

definition runUnaryClient where
  "runUnaryClient X N cfg = with_conn X N cfg (\<lambda>c w.
     case createExampleUser N c (client_ctx cfg) w of
       (Inl err, w1) \<Rightarrow> (Some (Wrapf ''CreateUser failed: '' err), w1)
     | (Inr user, w1) \<Rightarrow>
         (case userServiceClient_GetUser N c \<lparr>gr_Id = u_Id user\<rparr> (client_ctx cfg)
                 (log_info [(''user_id'', FStr (u_Id user))] ''user created'' w1) of
            (Inl err, w2) \<Rightarrow> (Some (Wrapf ''GetUser failed: '' err), w2)
          | (Inr getUser, w2) \<Rightarrow> (None, log_info [(''user_id'', FStr (u_Id getUser))] ''user retrieved'' w2)))"

text \<open>
  The receive loop: a stream that has not ended when its results run out is ended by the deadline of
  the context.
\<close>

definition recv_failed :: "go_error \<Rightarrow> go_error" where
  "recv_failed err = Wrapf ''stream recv error: '' err"

fun recv_loop :: "('m \<Rightarrow> 'w \<Rightarrow> 'w) \<Rightarrow> ('m result) list \<Rightarrow> 'w \<Rightarrow> go_error option \<times> 'w" where
  "recv_loop got [] w = (Some (recv_failed (StatusErr DeadlineExceeded ''context deadline exceeded'')), w)"
| "recv_loop got (Inl err # rs) w = (if err = io_EOF then (None, w) else (Some (recv_failed err), w))"
| "recv_loop got (Inr m # rs) w = recv_loop got rs (got m w)"

definition runServerStreamingClient where
  "runServerStreamingClient X N cfg = with_conn X N cfg (\<lambda>c w.
     case createExampleUser N c (client_ctx cfg) w of
       (Inl err, w1) \<Rightarrow> (Some err, w1)
     | (Inr user, w1) \<Rightarrow>
         (case userServiceClient_StreamUserEvents N c \<lparr>sr_UserId = u_Id user, sr_EventTypes = [''login'', ''logout'', ''purchase'']\<rparr>
                 (client_ctx cfg) w1 of
            (Inr stream, w2) \<Rightarrow>
              recv_loop (\<lambda>ev. log_info [(''event_type'', FStr (ue_EventType ev))] ''received event'') (es_Recv stream) w2
          | (Inl err, w2) \<Rightarrow> (Some (Wrapf ''StreamUserEvents failed: '' err), w2)))"

text \<open>The messages of the streaming operations: those sent and the error that stopped them.\<close>

fun send_messages :: "(nat \<Rightarrow> 'm \<Rightarrow> go_error option) \<Rightarrow> (nat \<Rightarrow> 'm) \<Rightarrow> nat \<Rightarrow> nat \<Rightarrow> 'm list \<times> go_error option" where
  "send_messages send msg i 0 = ([], None)"
| "send_messages send msg i (Suc n) =
     (case send i (msg i) of
        Some err \<Rightarrow> ([], Some (Wrapf ''stream send error: '' err))
      | None \<Rightarrow> (case send_messages send msg (Suc i) n of (ms, e) \<Rightarrow> (msg i # ms, e)))"

definition demo_metric :: "'f float64 \<Rightarrow> nat \<Rightarrow> 'f UserMetric" where
  "demo_metric F i = \<lparr>um_UserId = ''client-demo'', um_MetricName = ''request_duration'', um_Value = f_of_int F (int i * 100)\<rparr>"

definition demo_message :: "nat \<Rightarrow> ChatMessage" where
  "demo_message i = \<lparr>ch_Id = [], ch_UserId = ''client-demo'', ch_Message = ''Hello '' @ show_nat i, ch_Timestamp = None\<rparr>"

definition runClientStreamingClient where
  "runClientStreamingClient X N F cfg = with_conn X N cfg (\<lambda>c w.
     case userServiceClient_CollectUserMetrics N c (client_ctx cfg) w of
       (Inl err, w1) \<Rightarrow> (Some (Wrapf ''CollectUserMetrics failed: '' err), w1)
     | (Inr stream, w1) \<Rightarrow>
         (case send_messages (ms_Send stream) (demo_metric F) 0 5 of
            (_, Some err) \<Rightarrow> (Some err, w1)
          | (ms, None) \<Rightarrow>
              (case ms_CloseAndRecv stream ms of
                 Inl err \<Rightarrow> (Some (Wrapf ''stream close and recv error: '' err), w1)
               | Inr resp \<Rightarrow>
                   (None, log_info [(''count'', FInt (cm_Count resp)), (''average'', FFloat (f_print F (cm_Avg resp)))]
                      ''metrics collected'' w1))))"

text \<open>What the sending goroutine puts into its channel: the first send error, or that of \<open>CloseSend\<close>.\<close>

definition chat_sent :: "chat_stream \<Rightarrow> go_error option" where
  "chat_sent stream =
     (case send_messages (ct_Send stream) demo_message 0 5 of (_, Some err) \<Rightarrow> Some err | (_, None) \<Rightarrow> ct_CloseSend stream)"

definition runBidiStreamingClient where
  "runBidiStreamingClient X N cfg = with_conn X N cfg (\<lambda>c w.
     case userServiceClient_ChatStream N c (client_ctx cfg) w of
       (Inl err, w1) \<Rightarrow> (Some (Wrapf ''ChatStream failed: '' err), w1)
     | (Inr stream, w1) \<Rightarrow>
         (case recv_loop (\<lambda>msg. log_info [(''message_id'', FStr (ch_Id msg))] ''received message'') (ct_Recv stream) w1 of
            (Some err, w2) \<Rightarrow> (Some err, w2)
          | (None, w2) \<Rightarrow> (chat_sent stream, w2)))"

text \<open>The operations run in their order; a failure is logged and does not stop the next one.\<close>

definition client_main ::
  "(('n cworld \<Rightarrow> go_error option \<times> 'n cworld) list) \<Rightarrow> 'n cworld \<Rightarrow> 'n cworld" where
  "client_main operations w =
     fold (\<lambda>operation w. case operation w of (Some err, w') \<Rightarrow> log_error ''client operation failed'' err w' | (None, w') \<Rightarrow> w')
       operations w"

definition client_operations where
  "client_operations X N F cfg =
     [runUnaryClient X N cfg, runServerStreamingClient X N cfg, runClientStreamingClient X N F cfg, runBidiStreamingClient X N cfg]"

text \<open>
  The five metrics of the client pass the checks of the server, which answers with their exact
  summary when its limits admit them and no sum overflows.
\<close>

lemma send_messages_all: "(\<And>j. send j (msg j) = None) \<Longrightarrow> send_messages send msg i n = (map msg [i..<i + n], None)"
  by (induction n arbitrary: i) (simp_all add: upt_conv_Cons del: upt_Suc)

lemma demo_metrics_accepted:
  assumes "5 \<le> maxStreamMessages svc" and "maxStreamMessages svc < 2 ^ 31" and "16 \<le> maxStringBytes svc"
    and "\<And>x. \<not> IsNaN F x \<and> \<not> IsInf F x"
  shows "\<exists>resp. UserService_CollectUserMetrics_Handler svc F (map (demo_metric F) [0..<5]) io_EOF None = (None, [SentSummary resp]) \<and>
     cm_Count resp = 5"
proof -
  have words: "\<not> blank ''client-demo''" "\<not> blank ''request_duration''" by code_simp+
  have "validateText svc ''client-demo'' f = None" "validateText svc ''request_duration'' f = None" for f
    using assms(3) words by (simp_all add: validateText_def)
  with assms show ?thesis
    by (simp add: UserService_CollectUserMetrics_Handler_def CollectUserMetrics_def metric_recvs_def demo_metric_def upt_rec [of _ 5]
        recv_done_def Let_def err_simps)
qed

section \<open>From the configured token to the authenticated client\<close>

text \<open>A credential that fits a header value: printable ASCII without blanks, as tokens and API keys are.\<close>

definition graphic :: "char \<Rightarrow> bool" where
  "graphic c \<longleftrightarrow> 33 \<le> (of_char c :: nat) \<and> (of_char c :: nat) \<le> 126"

definition header_token :: "string \<Rightarrow> bool" where
  "header_token t \<longleftrightarrow> t \<noteq> [] \<and> list_all graphic t"

lemma graphic_no_space: "graphic a \<Longrightarrow> \<not> is_space1 a \<and> \<not> is_space2 a b \<and> \<not> is_space3 a b c"
  by (auto simp: graphic_def is_space1_def is_space2_def is_space3_def)

lemma fields_step: "graphic a \<Longrightarrow> fields_aux cur (a # s) = fields_aux (a # cur) s"
  by (subst fields_aux.simps(2)) (simp add: graphic_no_space Let_def split: list.split del: fields_aux.simps)

lemma fields_word: "list_all graphic p \<Longrightarrow> fields_aux cur (p @ s) = fields_aux (rev p @ cur) s"
  by (induction p arbitrary: cur) (simp_all add: fields_step del: fields_aux.simps)

lemma bearer_header:
  assumes "header_token t"
  shows "bearer_token (''Bearer '' @ t) = Some t"
proof -
  have word: "list_all graphic ''Bearer''" by (simp add: graphic_def)
  have "Fields (''Bearer '' @ t) = fields_aux (rev ''Bearer'') ('' '' @ t)"
    using fields_word [OF word, of "[]" "'' '' @ t"] by (simp add: Fields_def del: fields_aux.simps)
  also have "\<dots> = ''Bearer'' # fields_aux [] t" by (simp add: is_space1_def)
  also have "\<dots> = [''Bearer'', t]"
    using assms fields_word [of t "[]" "[]"] by (simp add: header_token_def)
  finally have "Fields (''Bearer '' @ t) = [''Bearer'', t]" .
  moreover have "EqualFold_ascii ''Bearer'' ''bearer''" by code_simp
  ultimately show ?thesis using assms by (simp add: bearer_token_def header_token_def)
qed

text \<open>
  What a transport does with outgoing metadata: the server finds, under each key, the values that
  were added for it, in their order.
\<close>

definition delivers_metadata :: "(Context \<Rightarrow> Context) \<Rightarrow> bool" where
  "delivers_metadata deliver \<longleftrightarrow>
     (\<forall>ctx. \<exists>md. md_in (deliver ctx) = Some md \<and> (\<forall>k. md_Get md k = map snd (filter (\<lambda>(k', v). k' = k) (md_out ctx))))"

lemma delivered_credential:
  assumes "delivers_metadata deliver" and "header_token t" and "md_out ctx = []"
  shows "fst (credentialFromContext (deliver (with_token t ctx))) = Some t"
proof -
  have "md_out (with_token t ctx) = [(''authorization'', ''Bearer '' @ t)]"
    using assms(2,3) by (simp add: with_token_def header_token_def)
  with assms(1) obtain md where md: "md_in (deliver (with_token t ctx)) = Some md"
    and get: "\<And>k. md_Get md k = map snd (filter (\<lambda>(k', v). k' = k) [(''authorization'', ''Bearer '' @ t)])"
    unfolding delivers_metadata_def by metis
  show ?thesis using bearer_header [OF assms(2)] by (simp add: credentialFromContext_def md get)
qed

lemma conn_unary_call: "\<exists>w1. fst (conn_unary c m invoker ctx w) = fst (invoker (with_token (co_Token c) ctx) w1)"
  by (auto simp: conn_unary_def UnaryClientLoggingInterceptor_def UnaryClientMetricsInterceptor_def client_metrics_def
      UnaryClientAuthInterceptorWithToken_def Let_def split: prod.splits) (metis fst_conv)+

text \<open>
  C40: the client's credential makes the round trip. A call of the example client reaches the wire
  once, with a context from which the server extracts exactly the configured token; the server then
  authenticates it as an API key or as a JWT, as if it had been given the token itself.
\<close>

theorem client_token_roundtrip:
  assumes "delivers_metadata deliver" and "dialClient X N cfg = Inr c" and "header_token (cl_AuthToken (cfg_Client cfg))"
  shows "\<exists>ctx' w1. fst (conn_unary c m invoker (client_ctx cfg) w) = fst (invoker ctx' w1) \<and>
     fst (credentialFromContext (deliver ctx')) = Some (cl_AuthToken (cfg_Client cfg)) \<and>
     authenticate B K a (deliver ctx') =
       (if cl_AuthToken (cfg_Client cfg) \<in> set (apiKeys a)
        then Some \<lparr>Subject = ''apikey:'' @ hex_encode (Sum256 B (cl_AuthToken (cfg_Client cfg))), Scopes = apiKeyScopes a\<rparr>
        else parseClaims B K a (cl_AuthToken (cfg_Client cfg)))"
proof -
  have token: "co_Token c = cl_AuthToken (cfg_Client cfg)"
    using assms(2) by (auto simp: dialClient_def Let_def split: sum.splits option.splits if_splits)
  have "md_out (client_ctx cfg) = []" by (simp add: client_ctx_def Background_def)
  note cred = delivered_credential [OF assms(1,3) this]
  from conn_unary_call [of c m invoker "client_ctx cfg" w] obtain w1
    where "fst (conn_unary c m invoker (client_ctx cfg) w) = fst (invoker (with_token (co_Token c) (client_ctx cfg)) w1)" by blast
  with cred show ?thesis
    by (intro exI [of _ "with_token (co_Token c) (client_ctx cfg)"] exI [of _ w1]) (simp add: token authenticate_def)
qed

text \<open>A transport that groups the metadata by key, and a server that knows the client's key.\<close>

definition grouped :: "(string \<times> string) list \<Rightarrow> (string, string list) gomap" where
  "grouped kvs = map (\<lambda>k. (k, map snd (filter (\<lambda>(k', v). k' = k) kvs))) (remdups (map fst kvs))"

definition plain_transport :: "Context \<Rightarrow> Context" where
  "plain_transport ctx = Background\<lparr>md_in := Some (grouped (md_out ctx))\<rparr>"

lemma plain_transport_delivers: "delivers_metadata plain_transport"
proof -
  have "md_Get (grouped kvs) k = map snd (filter (\<lambda>(k', v). k' = k) kvs)" for kvs k
  proof (cases "k \<in> fst ` set kvs")
    case True
    then have "mget (grouped kvs) k = Some (map snd (filter (\<lambda>(k', v). k' = k) kvs))"
      by (simp add: grouped_def map_of_map_restrict restrict_map_def)
    then show ?thesis by (simp add: md_Get_def mget_or_def)
  next
    case False
    then have "mget (grouped kvs) k = None" by (simp add: grouped_def image_image)
    moreover have "(k, v) \<notin> set kvs" for v using False by (metis fst_conv imageI)
    then have "filter (\<lambda>(k', v). k' = k) kvs = []" by (auto simp: filter_empty_conv)
    ultimately show ?thesis by (simp only: md_Get_def mget_or_def option.simps list.simps)
  qed
  then show ?thesis by (auto simp: delivers_metadata_def plain_transport_def)
qed

definition demo_key :: string where
  "demo_key = ''client-demo-key-0001''"

definition demo_client :: "unit Config" where
  "demo_client = running_config\<lparr>cfg_TLS := (cfg_TLS running_config)\<lparr>tls_Enabled := False\<rparr>,
     cfg_Client := (cfg_Client running_config)\<lparr>cl_AuthToken := demo_key\<rparr>\<rparr>"

definition demo_conn :: "(unit, unit) conn" where
  "demo_conn = \<lparr>co_Address = ''localhost:50051'', co_Token = demo_key, co_TLS = None\<rparr>"

definition demo_net :: "(unit, unit, unit, unit) network" where
  "demo_net =
     \<lparr>net_NewClient = \<lambda>_. None, net_Close = \<lambda>n. (None, n),
      net_CreateUser = \<lambda>_ _ ctx w. (Inl (StatusErr Unavailable []), w), net_GetUser = \<lambda>_ _ ctx w. (Inl (StatusErr Unavailable []), w),
      net_UpdateUser = \<lambda>_ _ ctx w. (Inl (StatusErr Unavailable []), w), net_DeleteUser = \<lambda>_ _ ctx w. (Inl (StatusErr Unavailable []), w),
      net_ListUsers = \<lambda>_ _ ctx w. (Inl (StatusErr Unavailable []), w), net_StreamUserEvents = \<lambda>_ ctx w. (Inl (StatusErr Unavailable []), w),
      net_CollectUserMetrics = \<lambda>_ ctx w. (Inl (StatusErr Unavailable []), w),
      net_ChatStream = \<lambda>_ ctx w. (Inl (StatusErr Unavailable []), w)\<rparr>"

definition demo_cworld :: "unit cworld" where
  "demo_cworld =
     \<lparr>cw_clk = \<lambda>_. 0, cw_tick = 0, cw_log = [], ClientTotalRequests = \<lambda>_. 0, ClientTotalErrors = \<lambda>_ _. 0,
      ClientRequestDuration = [], cw_waits = [], cw_net = ()\<rparr>"

lemma demo_dial: "dialClient plain_tls demo_net demo_client = Inr demo_conn"
  by (simp add: dialClient_def demo_client_def demo_conn_def demo_net_def running_config_def baseline_def Let_def)

definition keyed_authenticator :: Authenticator where
  "keyed_authenticator = demo_authenticator\<lparr>apiKeys := [demo_key]\<rparr>"

text \<open>The invoker is a server that reports whether it authenticates what is delivered.\<close>

definition probe :: "(unit, bool) call" where
  "probe ctx w = (Inr (authenticate demo_lib demo_clock keyed_authenticator (plain_transport ctx) \<noteq> None), w)"

theorem client_token_roundtrip_witness:
  "fst (conn_unary demo_conn UserService_GetUser_FullMethodName probe (client_ctx demo_client) demo_cworld) = Inr True"
proof -
  have tok: "cl_AuthToken (cfg_Client demo_client) = demo_key" by (simp add: demo_client_def)
  have hdr: "header_token (cl_AuthToken (cfg_Client demo_client))"
    unfolding tok by (simp add: demo_key_def header_token_def graphic_def)
  have known: "demo_key \<in> set (apiKeys keyed_authenticator)" by (simp add: keyed_authenticator_def)
  from client_token_roundtrip [OF plain_transport_delivers demo_dial hdr, where invoker = probe and w = demo_cworld
      and a = keyed_authenticator and B = demo_lib and K = demo_clock and m = UserService_GetUser_FullMethodName]
  show ?thesis using known unfolding tok by (auto simp: probe_def)
qed

end
