(* ===== verification/Repository_Effects.thy ===== *)
theory Repository_Effects
  imports User_Service
begin

text \<open>
  What a repository may do to its store, whatever it answers. The contract of \<open>Storage\<close> ties the
  result of an operation to its effect; a database behind a network cannot keep it: a commit whose
  acknowledgement is lost has happened although it is reported as an error, and a retry may then
  apply an update twice. The contract here speaks of the effect alone, and every layer of the
  program keeps it. The service makes at most one call for a request, and only with arguments it
  has validated, so the invariant of the stored users follows for every repository.
\<close>

section \<open>Calls and their effect\<close>

datatype repo_op =
    CallsCreate "User option" int
  | CallsCreateWithIdempotency "User option" int string
  | CallsGet string
  | CallsUpdate "User option"
  | CallsReadModifyUpdate string "ReadModifyUpdateFn option"
  | CallsDelete string
  | CallsList int string
  | CallsPing
  | CallsClose

fun perform :: "'s Repository \<Rightarrow> env \<Rightarrow> Context option \<Rightarrow> repo_op \<Rightarrow> 's \<Rightarrow> 's" where
  "perform R E ctx (CallsCreate u n) s = snd (Create R E ctx u n s)"
| "perform R E ctx (CallsCreateWithIdempotency u n key) s = snd (CreateWithIdempotency R E ctx u n key s)"
| "perform R E ctx (CallsGet i) s = snd (Get R E ctx i s)"
| "perform R E ctx (CallsUpdate u) s = snd (Update R E ctx u s)"
| "perform R E ctx (CallsReadModifyUpdate i f) s = snd (ReadModifyUpdate R E ctx i f s)"
| "perform R E ctx (CallsDelete i) s = snd (Delete R E ctx i s)"
| "perform R E ctx (CallsList n a) s = snd (List R E ctx n a s)"
| "perform R E ctx CallsPing s = snd (Ping R E ctx s)"
| "perform R E ctx CallsClose s = snd (Close R s)"

text \<open>
  \<open>kept u v\<close>: a repository that is given \<open>u\<close> stores \<open>v\<close>. \<open>updates\<close> applies a function to a stored
  user any number of times.
\<close>

inductive updates :: "(User \<Rightarrow> User \<Rightarrow> bool) \<Rightarrow> ReadModifyUpdateFn \<Rightarrow> User \<Rightarrow> User \<Rightarrow> bool" for kept f where
  none: "updates kept f u u"
| once_more: "updates kept f u v \<Longrightarrow> f v = Inr w \<Longrightarrow> kept w w' \<Longrightarrow> updates kept f u w'"

lemma updates_preserve:
  assumes "updates kept f u v" and "P u" and "\<And>v w w'. P v \<Longrightarrow> f v = Inr w \<Longrightarrow> kept w w' \<Longrightarrow> P w'"
  shows "P v"
  using assms(1,2) by induction (blast intro: assms(3))+

definition inserts :: "(User \<Rightarrow> User \<Rightarrow> bool) \<Rightarrow> User option \<Rightarrow> int \<Rightarrow> store \<Rightarrow> store \<Rightarrow> bool" where
  "inserts kept user n m m' \<longleftrightarrow>
     (\<exists>u v. user = Some u \<and> kept u v \<and> u_Id u \<notin> dom m \<and> int (card (dom m)) < n \<and> m' = m(u_Id u \<mapsto> v))"

definition effect :: "(User \<Rightarrow> User \<Rightarrow> bool) \<Rightarrow> repo_op \<Rightarrow> store \<Rightarrow> store \<Rightarrow> bool" where
  "effect kept op m m' \<longleftrightarrow> m' = m \<or>
     (case op of
        CallsCreate user n \<Rightarrow> inserts kept user n m m'
      | CallsCreateWithIdempotency user n key \<Rightarrow> inserts kept user n m m'
      | CallsUpdate user \<Rightarrow> \<exists>u v. user = Some u \<and> kept u v \<and> u_Id u \<in> dom m \<and> m' = m(u_Id u \<mapsto> v)
      | CallsReadModifyUpdate i f \<Rightarrow>
          \<exists>g old new. f = Some g \<and> m i = Some old \<and> updates kept g old new \<and> m' = m(i \<mapsto> new)
      | CallsDelete i \<Rightarrow> m' = m(i := None)
      | _ \<Rightarrow> False)"

lemma effect_refl [simp]: "effect kept op m m"
  by (simp add: effect_def)

text \<open>A function that is applied to a stored user must not change its identifier.\<close>

definition op_ok :: "repo_op \<Rightarrow> bool" where
  "op_ok op \<longleftrightarrow> (\<forall>i f u w. op = CallsReadModifyUpdate i (Some f) \<longrightarrow> f u = Inr w \<longrightarrow> u_Id w = u_Id u)"

definition same_fields :: "User \<Rightarrow> User \<Rightarrow> bool" where
  "same_fields u v \<longleftrightarrow> u_Id v = u_Id u \<and> u_Name v = u_Name u \<and> u_Email v = u_Email u \<and> u_Age v = u_Age u \<and>
     (has_times u \<longrightarrow> has_times v)"

lemma same_fields_refl [simp]: "same_fields u u"
  by (simp add: same_fields_def)

locale steady_repository =
  fixes R :: "'s Repository" and abs :: "'s \<Rightarrow> store" and inv :: "'s \<Rightarrow> bool" and kept :: "User \<Rightarrow> User \<Rightarrow> bool"
  assumes finite_store: "inv s \<Longrightarrow> finite (dom (abs s))"
    and kept_same: "kept u v \<Longrightarrow> same_fields u v"
    and step: "inv s \<Longrightarrow> op_ok op \<Longrightarrow> effect kept op (abs s) (abs (perform R E ctx op s)) \<and> inv (perform R E ctx op s)"

text \<open>The exact contract is an instance: users are stored as given, and an update is applied once.\<close>

lemma updates_once: "f u = Inr w \<Longrightarrow> updates (=) f u w"
  by (blast intro: updates.intros)

context weak_repository
begin

lemma exact_step:
  assumes "inv s"
  shows "effect (=) op (abs s) (abs (perform R E ctx op s)) \<and> inv (perform R E ctx op s)"
proof (cases op)
  case (CallsCreate u n)
  with Create_ok [OF assms prod.collapse [symmetric], where E = E and ctx = ctx and user = u and n = n] show ?thesis
    by (auto simp: effect_def inserts_def spec_Create_def split: option.splits)
next
  case (CallsCreateWithIdempotency u n key)
  with CreateWithIdempotency_ok [OF assms prod.collapse [symmetric], where E = E and ctx = ctx and user = u and n = n and key = key] show ?thesis
    by (auto simp: effect_def inserts_def spec_CreateWithIdempotency_def split: sum.splits prod.splits bool.splits)
next
  case (CallsGet i)
  with Get_ok [OF assms prod.collapse [symmetric], where E = E and ctx = ctx and i = i] show ?thesis by (simp add: effect_def spec_Get_def)
next
  case (CallsUpdate u)
  with Update_ok [OF assms prod.collapse [symmetric], where E = E and ctx = ctx and user = u] show ?thesis
    by (auto simp: effect_def spec_Update_def split: option.splits)
next
  case (CallsReadModifyUpdate i f)
  with ReadModifyUpdate_weak [OF assms prod.collapse [symmetric], where E = E and ctx = ctx and i = i and mutate = f] show ?thesis
    by (auto simp: effect_def spec_ReadModifyUpdate_def split: sum.splits intro: updates_once)
next
  case (CallsDelete i)
  with Delete_ok [OF assms prod.collapse [symmetric], where E = E and ctx = ctx and i = i] show ?thesis
    by (auto simp: effect_def spec_Delete_def split: option.splits)
next
  case (CallsList n a)
  with List_ok [OF assms prod.collapse [symmetric], where E = E and ctx = ctx and limit = n and after = a] show ?thesis by (simp add: effect_def spec_List_def)
next
  case CallsPing
  with Ping_ok [OF assms prod.collapse [symmetric], where E = E and ctx = ctx] show ?thesis by (simp add: effect_def)
next
  case CallsClose
  with Close_ok [OF assms prod.collapse [symmetric]] show ?thesis by (simp add: effect_def)
qed

sublocale steady: steady_repository R abs inv "(=)"
  by unfold_locales (simp_all add: fin exact_step)

end

section \<open>Layers\<close>

text \<open>A layer leaves the inner repository alone or hands it the call it was given.\<close>

locale layer = steady_repository +
  fixes L :: "'l Repository" and inner :: "'l \<Rightarrow> 'a"
  assumes hands_down: "inner (perform L E ctx op l) = inner l \<or> inner (perform L E ctx op l) = perform R E ctx op (inner l)"
begin

sublocale layered: steady_repository L "\<lambda>l. abs (inner l)" "\<lambda>l. inv (inner l)" kept
proof (unfold_locales, goal_cases)
  case (3 l op E ctx)
  from hands_down [of E ctx op l] show ?case
    by (elim disjE) (use 3 step in \<open>simp_all add: effect_refl\<close>)
qed (simp_all add: finite_store kept_same)

end

lemma guarded_inner:
  "cb_inner (snd (guarded E cfg fail errOf op cb)) = cb_inner cb \<or>
   cb_inner (snd (guarded E cfg fail errOf op cb)) = snd (op (cb_inner cb))"
proof -
  obtain r cb' where run: "guarded E cfg fail errOf op cb = (r, cb')" by fastforce
  then show ?thesis by (cases rule: guarded_cases) (simp_all add: run)
qed

lemma breaker_hands_down:
  "cb_inner (perform (circuit_breaker_ops cfg R) E ctx op cb) = cb_inner cb \<or>
   cb_inner (perform (circuit_breaker_ops cfg R) E ctx op cb) = perform R E ctx op (cb_inner cb)"
  by (cases op) (simp_all add: circuit_breaker_ops_def cb_op_defs guarded_inner split: prod.splits)

lemma on_inner_inner [simp]: "ca_inner (snd (on_inner op c)) = snd (op (ca_inner c))"
  by (simp add: on_inner_def split: prod.split)

lemma cache_Get_inner:
  "ca_inner (snd (cache_Get R E ctx i c)) = ca_inner c \<or> ca_inner (snd (cache_Get R E ctx i c)) = snd (Get R E ctx i (ca_inner c))"
  unfolding cache_Get_def on_inner_inner [symmetric]
  by (cases "on_inner (Get R E ctx i) c") (auto split: option.split sum.split)

lemma cache_writes_inner:
  "ca_inner (snd (cache_Update R E ctx u c)) = snd (Update R E ctx u (ca_inner c))"
  "ca_inner (snd (cache_ReadModifyUpdate R E ctx i f c)) = snd (ReadModifyUpdate R E ctx i f (ca_inner c))"
  "ca_inner (snd (cache_Delete R E ctx i c)) = snd (Delete R E ctx i (ca_inner c))"
  unfolding cache_Update_def cache_ReadModifyUpdate_def cache_Delete_def on_inner_inner [symmetric]
  by (cases "on_inner (Update R E ctx u) c", simp split: option.split)
    (cases "on_inner (ReadModifyUpdate R E ctx i f) c", simp split: option.split sum.split,
     cases "on_inner (Delete R E ctx i) c", simp split: option.split)

lemma cache_hands_down:
  "ca_inner (perform (cache_ops R) E ctx op c) = ca_inner c \<or>
   ca_inner (perform (cache_ops R) E ctx op c) = perform R E ctx op (ca_inner c)"
  by (cases op) (simp_all add: cache_ops_def cache_Create_def cache_Get_inner cache_writes_inner)

section \<open>The calls of the service\<close>

text \<open>The calls a handler makes: lookups, deletions, and writes of validated users.\<close>

definition admissible :: "'s UserService \<Rightarrow> repo_op \<Rightarrow> bool" where
  "admissible svc op \<longleftrightarrow>
     (case op of
        CallsGet i \<Rightarrow> True
      | CallsList n a \<Rightarrow> True
      | CallsDelete i \<Rightarrow> True
      | CallsCreateWithIdempotency user n key \<Rightarrow> n = maxUsers svc \<and> (\<exists>u. user = Some u \<and> user_ok svc (u_Id u) u)
      | CallsReadModifyUpdate i f \<Rightarrow>
          (\<exists>g. f = Some g \<and> (\<forall>u w. g u = Inr w \<longrightarrow> u_Id w = u_Id u \<and> (\<forall>j. user_ok svc j u \<longrightarrow> user_ok svc j w)))
      | _ \<Rightarrow> False)"

lemma admissible_op_ok: "admissible svc op \<Longrightarrow> op_ok op"
  by (cases op) (auto simp: admissible_def op_ok_def)

lemma admissible_reads: "admissible svc (CallsGet i)" "admissible svc (CallsList n a)" "admissible svc (CallsDelete i)"
  by (simp_all add: admissible_def)

lemma mapped_state: "snd (mapped p) = snd p"
  by (simp add: mapped_def split: prod.split sum.split)

text \<open>A request reaches the repository at most once.\<close>

lemma serve_call:
  assumes "us_repository svc = Some R" and "0 \<le> maxStringBytes svc" and "serve P svc (E, ctx, call) s = (r, s')"
  shows "s' = s \<or> (\<exists>op. admissible svc op \<and> s' = perform R E ctx op s)"
proof (cases call)
  case (CallGet x)
  with assms have "s' = s \<or> (\<exists>i. s' = perform R E ctx (CallsGet i) s)"
    by (auto simp: drop_value_def GetUser_def mapped_state split: option.splits if_splits)
  then show ?thesis using admissible_reads by metis
next
  case (CallList x)
  with assms have "s' = s \<or> (\<exists>n a. s' = perform R E ctx (CallsList n a) s)"
    by (auto simp: drop_value_def ListUsers_def split: option.splits prod.splits sum.splits) (metis snd_conv)+
  then show ?thesis using admissible_reads by metis
next
  case (CallCreate x)
  obtain r0 s0 where "CreateUser P svc E ctx x s = (r0, s0)" by fastforce
  moreover from this have "s' = s0" using assms(3) CallCreate by (simp add: drop_value_def)
  ultimately have "CreateUser P svc E ctx x s = (r0, s')" by simp
  from this assms(1) show ?thesis
  proof (cases rule: CreateUser_cases)
    case (called q u r1)
    have "u_Id u \<noteq> []" using called(2) by (auto simp: created_user_def newID_def split: option.splits)
    from created_user_ok [OF called(2) this assms(2) called(3)]
    have "admissible svc (CallsCreateWithIdempotency (Some u) (maxUsers svc) (cr_IdempotencyKey q))" by (simp add: admissible_def)
    with called(4) show ?thesis by (metis perform.simps(2) snd_conv)
  qed simp
next
  case (CallUpdate x)
  obtain r0 s0 where "UpdateUser P svc E ctx x s = (r0, s0)" by fastforce
  moreover from this have "s' = s0" using assms(3) CallUpdate by (simp add: drop_value_def)
  ultimately have "UpdateUser P svc E ctx x s = (r0, s')" by simp
  from this assms(1) show ?thesis
  proof (cases rule: UpdateUser_cases)
    case (called q r1)
    have "admissible svc (CallsReadModifyUpdate (ur_Id q) (Some (\<lambda>u. Inr (apply_update E q u))))"
      using apply_update_ok [OF _ called(2-5)] by (simp add: admissible_def)
    with called(6) show ?thesis by (metis perform.simps(5) snd_conv)
  qed simp
next
  case (CallDelete x)
  with assms have "s' = s \<or> (\<exists>i. s' = perform R E ctx (CallsDelete i) s)"
    by (auto simp: DeleteUser_def split: option.splits if_splits prod.splits) (metis snd_conv)+
  then show ?thesis using admissible_reads by metis
qed

lemma user_ok_same: "same_fields u v \<Longrightarrow> user_ok svc i u \<Longrightarrow> user_ok svc i v"
  by (auto simp: same_fields_def user_ok_def)

text \<open>No such call breaks the invariant of the store.\<close>

lemma effect_store_ok:
  assumes "effect kept op m m'" and "admissible svc op" and "store_ok svc m" and "finite (dom m)"
    and same: "\<And>u v. kept u v \<Longrightarrow> same_fields u v"
  shows "store_ok svc m'"
proof (cases "m' = m")
  case False
  with assms(1,2) consider
      (insert) u v where "user_ok svc (u_Id u) u" "kept u v" "u_Id u \<notin> dom m" "int (card (dom m)) < maxUsers svc" "m' = m(u_Id u \<mapsto> v)"
    | (update) i g old new where "\<forall>u w. g u = Inr w \<longrightarrow> (\<forall>j. user_ok svc j u \<longrightarrow> user_ok svc j w)"
        "m i = Some old" "updates kept g old new" "m' = m(i \<mapsto> new)"
    | (delete) i where "m' = m(i := None)"
    by (cases op) (simp_all add: effect_def admissible_def inserts_def, blast+)
  then show ?thesis
  proof cases
    case insert
    from store_ok_insert [OF assms(3) user_ok_same [OF same [OF insert(2)] insert(1)] assms(4) insert(3,4)] insert(5)
    show ?thesis by simp
  next
    case update
    have "user_ok svc i new"
    proof (rule updates_preserve [OF update(3)])
      show "user_ok svc i old" using assms(3) update(2) by (simp add: store_ok_def)
      show "user_ok svc i w'" if "user_ok svc i v" "g v = Inr w" "kept w w'" for v w w'
        using that update(1) user_ok_same [OF same] by blast
    qed
    from store_ok_replace [OF assms(3) this] update(2,4) show ?thesis by auto
  next
    case delete
    with store_ok_remove [OF assms(3,4)] show ?thesis by simp
  qed
qed (use assms(3) in simp)

locale steady_service = steady_repository +
  fixes svc :: "'a UserService"
  assumes svc_repo: "us_repository svc = Some R" and svc_bytes: "0 \<le> maxStringBytes svc"
begin

lemma serve_steady:
  assumes "inv s" and "store_ok svc (abs s)" and "serve P svc (E, ctx, call) s = (r, s')"
  shows "inv s' \<and> store_ok svc (abs s')"
  using serve_call [OF svc_repo svc_bytes assms(3)]
proof (elim disjE exE conjE)
  fix op
  assume op: "admissible svc op" "s' = perform R E ctx op s"
  from step [OF assms(1) admissible_op_ok [OF op(1)], of E ctx] effect_store_ok [OF _ op(1) assms(2) finite_store [OF assms(1)] kept_same]
  show ?thesis unfolding op(2) by blast
qed (use assms(1,2) in simp)

end

end
