(* ===== verification/Postgres_Faults.thy ===== *)
theory Postgres_Faults
  imports Postgres_Repository Repository_Effects
begin

text \<open>
  PostgreSQL behind a connection that can be lost at any moment. When the connection breaks during
  \<open>Commit\<close>, the program sees an error although the server may have committed, and the same holds for
  a statement that runs on the pool. \<open>fault_laws\<close> weakens the laws of \<open>Postgres_Repository\<close> to this:
  an error of \<open>Commit\<close> leaves the committed tables as they were or as the transaction wanted them.

  The operations are proved with triples: \<open>triple P m Q F\<close> says that from a state with \<open>P\<close> the step
  \<open>m\<close> ends in \<open>Q\<close> with a value or in \<open>F\<close> with an error. One rule per construct carries them through
  transactions and through the retry loop.
\<close>

section \<open>Triples\<close>

definition triple :: "('d \<Rightarrow> bool) \<Rightarrow> ('d \<Rightarrow> 'a result \<times> 'd) \<Rightarrow> ('a \<Rightarrow> 'd \<Rightarrow> bool) \<Rightarrow> ('d \<Rightarrow> bool) \<Rightarrow> bool" where
  "triple P m Q F \<longleftrightarrow> (\<forall>d r d'. P d \<longrightarrow> m d = (r, d') \<longrightarrow> (case r of Inl err \<Rightarrow> F d' | Inr v \<Rightarrow> Q v d'))"

lemma tripleI:
  assumes "\<And>d err d'. P d \<Longrightarrow> m d = (Inl err, d') \<Longrightarrow> F d'" and "\<And>d v d'. P d \<Longrightarrow> m d = (Inr v, d') \<Longrightarrow> Q v d'"
  shows "triple P m Q F"
  using assms by (auto simp: triple_def split: sum.splits)

lemma tripleD:
  assumes "triple P m Q F" and "P d" and "m d = (r, d')"
  shows "r = Inr v \<Longrightarrow> Q v d'" and "r = Inl err \<Longrightarrow> F d'"
  using assms by (auto simp: triple_def)

lemma triple_conseq:
  assumes "triple P' m Q' F'" and "\<And>d. P d \<Longrightarrow> P' d" and "\<And>v d. Q' v d \<Longrightarrow> Q v d" and "\<And>d. F' d \<Longrightarrow> F d"
  shows "triple P m Q F"
  using assms(1) by (intro tripleI) (auto dest: tripleD intro: assms(2-4))

lemma triple_sbind:
  assumes "triple P m Q F" and "\<And>v. triple (Q v) (f v) Q' F"
  shows "triple P (sbind m f) Q' F"
  by (intro tripleI) (auto elim!: sbindE dest: tripleD [OF assms(1)] tripleD [OF assms(2)])

lemma triple_ret: "(\<And>d. P d \<Longrightarrow> Q v d) \<Longrightarrow> triple P (ret v) Q F"
  by (intro tripleI) simp_all

lemma triple_fail: "(\<And>d. P d \<Longrightarrow> F d) \<Longrightarrow> triple P (fail err) Q F"
  by (intro tripleI) simp_all

lemma triple_check:
  assumes "\<And>d d'. P d \<Longrightarrow> m d = (None, d') \<Longrightarrow> Q () d'" and "\<And>d err d'. P d \<Longrightarrow> m d = (Some err, d') \<Longrightarrow> F d'"
  shows "triple P (check w m) Q F"
  by (intro tripleI) (auto elim!: checkE dest: assms)

lemma triple_query:
  assumes "\<And>d v d'. P d \<Longrightarrow> m d = (Inr v, d') \<Longrightarrow> Q v d'" and "\<And>d err d'. P d \<Longrightarrow> m d = (Inl err, d') \<Longrightarrow> F d'"
  shows "triple P (query w m) Q F"
  by (intro tripleI) (auto elim!: queryE dest: assms)

text \<open>A retried operation keeps what each of its failing attempts keeps.\<close>

lemma triple_retry_loop:
  assumes "triple I op Q I" and "I d" and "retry_loop V cfg op attempt n prev d = (r, d')" and "0 < n \<or> isl prev"
  shows "case r of Inl err \<Rightarrow> I d' | Inr v \<Rightarrow> Q v d'"
  using assms(2-)
proof (induction n arbitrary: attempt prev d)
  case (Suc n)
  obtain r0 d0 where op: "op d = (r0, d0)" by fastforce
  note kept_by = tripleD [OF assms(1) Suc.prems(1) op]
  show ?case
  proof (cases "if attempt > 0 then retry_pause V cfg attempt else None")
    case (Some err)
    with Suc.prems show ?thesis by (auto split: if_splits)
  next
    case None
    with Suc.prems(2) op kept_by Suc.IH [of d0 "Suc attempt" "r0"] show ?thesis
      by (auto simp: isl_def split: sum.splits if_splits)
  qed
qed (auto split: sum.splits)

lemma triple_retry:
  assumes "triple I op Q I" and "0 < maxAttempts cfg"
  shows "triple I (retryOperation V cfg zero op) Q I"
  unfolding triple_def retryOperation_def using triple_retry_loop [OF assms(1)] assms(2) by auto

section \<open>The database\<close>

definition without :: "string \<Rightarrow> tables \<Rightarrow> tables" where
  "without i T = T\<lparr>t_users := (t_users T)(i := None), t_keys := (\<lambda>k. if t_keys T k = Some i then None else t_keys T k)\<rparr>"

definition fault_laws :: "('d, 'z) UserDB_scheme \<Rightarrow> ('d \<Rightarrow> tables) \<Rightarrow> ('d \<Rightarrow> tables) \<Rightarrow> bool" where
  "fault_laws D com wrk \<longleftrightarrow>
     (\<forall>d r d'. db_Begin D d = (r, d') \<longrightarrow> com d' = com d \<and> (r = None \<longrightarrow> wrk d' = com d)) \<and>
     (\<forall>d r d'. db_Lock D d = (r, d') \<longrightarrow> com d' = com d \<and> (r = None \<longrightarrow> wrk d' = wrk d)) \<and>
     (\<forall>d r d'. db_Commit D d = (r, d') \<longrightarrow> com d' = wrk d \<or> r \<noteq> None \<and> com d' = com d) \<and>
     (\<forall>d. com (db_Rollback D d) = com d) \<and>
     law_Count D com wrk \<and> law_InsertUser D com wrk \<and> law_SelectUser (q_SelectUser D) com wrk \<and>
     law_SelectUser (q_SelectUserForUpdate D) com wrk \<and> law_Exists D com wrk \<and> law_UpdateUser D com wrk \<and>
     law_SelectKey D com wrk \<and> law_InsertKey D com wrk \<and> law_pool_Select D com \<and> law_pool_List D com \<and>
     (\<forall>i d r d'. x_DeleteUser D i d = (r, d') \<longrightarrow> com d' = without i (com d) \<or> isl r \<and> com d' = com d) \<and>
     (\<forall>d r d'. x_Ping D d = (r, d') \<longrightarrow> com d' = com d) \<and> (\<forall>d r d'. x_Close D d = (r, d') \<longrightarrow> com d' = com d)"

text \<open>A database that never loses an acknowledgement is a special case.\<close>

lemma user_laws_fault:
  assumes "user_laws D com wrk" and "\<And>d. com (snd (x_Ping D d)) = com d" and "\<And>d. com (snd (x_Close D d)) = com d"
  shows "fault_laws D com wrk"
proof -
  note tx = tx_lawsD [OF user_lawsD(1) [OF assms(1)]]
  have "com d' = wrk d \<or> r \<noteq> None \<and> com d' = com d" if "db_Commit D d = (r, d')" for d r d'
    using tx(3) [OF that] by (cases r) simp_all
  moreover have "com d' = without i (com d) \<or> isl r \<and> com d' = com d" if "x_DeleteUser D i d = (r, d')" for i d r d'
    using assms(1) that by (cases r) (auto simp: user_laws_def law_pool_Delete_def without_def)
  moreover have "com d' = com d" if "x_Ping D d = (r, d')" for d r d' using assms(2) [of d] that by simp
  moreover have "com d' = com d" if "x_Close D d = (r, d')" for d r d' using assms(3) [of d] that by simp
  ultimately show ?thesis
    using assms(1) tx(1,2,4) unfolding fault_laws_def by (intro conjI allI impI) (simp_all add: user_laws_def)
qed

lemma fault_lawsD:
  assumes "fault_laws D com wrk"
  shows "law_Count D com wrk" "law_InsertUser D com wrk" "law_SelectUser (q_SelectUser D) com wrk"
    "law_SelectUser (q_SelectUserForUpdate D) com wrk" "law_Exists D com wrk" "law_UpdateUser D com wrk"
    "law_SelectKey D com wrk" "law_InsertKey D com wrk" "law_pool_Select D com" "law_pool_List D com"
  using assms unfolding fault_laws_def by simp_all

lemma fault_pool:
  assumes "fault_laws D com wrk"
  shows "x_DeleteUser D i d = (r, d') \<Longrightarrow> com d' = com d \<or> com d' = without i (com d)"
    and "x_Ping D d = (e, d') \<Longrightarrow> com d' = com d" and "x_Close D d = (e, d') \<Longrightarrow> com d' = com d"
  using assms unfolding fault_laws_def by blast+

text \<open>The committed tables and those the open transaction sees.\<close>

definition sees :: "('d \<Rightarrow> tables) \<Rightarrow> ('d \<Rightarrow> tables) \<Rightarrow> tables \<Rightarrow> tables \<Rightarrow> 'd \<Rightarrow> bool" where
  "sees com wrk T W d \<longleftrightarrow> com d = T \<and> wrk d = W"

definition add_user :: "user_row \<Rightarrow> tables \<Rightarrow> tables" where
  "add_user row T = T\<lparr>t_users := (t_users T)(r_id row \<mapsto> micros row)\<rparr>"

lemma add_user_simps [simp]: "t_users (add_user row T) = (t_users T)(r_id row \<mapsto> micros row)" "t_keys (add_user row T) = t_keys T"
  "add_user row (add_user row T) = add_user row T"
  by (simp_all add: add_user_def)

text \<open>A fact about the value of a step is a fact when the next one starts.\<close>

lemma triple_if: "(p \<Longrightarrow> triple P m Q F) \<Longrightarrow> triple (\<lambda>d. p \<and> P d) m Q F"
  unfolding triple_def by blast

lemma faulty_tx:
  assumes L: "fault_laws D com wrk"
  shows lock_step: "(\<And>d. com d = T \<Longrightarrow> F d) \<Longrightarrow> triple (sees com wrk T W) (check w (db_Lock D)) (\<lambda>_. sees com wrk T W) F"
    and commit_step: "(\<And>d. com d = T \<or> com d = W \<Longrightarrow> F d) \<Longrightarrow> triple (sees com wrk T W) (check w (db_Commit D)) (\<lambda>_ d. com d = W) F"
    and tx_step: "triple (sees com wrk T T) body (\<lambda>v d. Q v (com d)) (\<lambda>d. G (com d)) \<Longrightarrow> G T \<Longrightarrow>
      triple (\<lambda>d. com d = T) (in_tx D w body) (\<lambda>v d. Q v (com d)) (\<lambda>d. G (com d))"
proof -
  show "(\<And>d. com d = T \<Longrightarrow> F d) \<Longrightarrow> triple (sees com wrk T W) (check w (db_Lock D)) (\<lambda>_. sees com wrk T W) F"
    using L by (intro triple_check) (auto simp: fault_laws_def sees_def)
  show "(\<And>d. com d = T \<or> com d = W \<Longrightarrow> F d) \<Longrightarrow> triple (sees com wrk T W) (check w (db_Commit D)) (\<lambda>_ d. com d = W) F"
    using L by (intro triple_check) (auto simp: fault_laws_def sees_def, (metis option.distinct(1))+)
  assume body: "triple (sees com wrk T T) body (\<lambda>v d. Q v (com d)) (\<lambda>d. G (com d))" and "G T"
  show "triple (\<lambda>d. com d = T) (in_tx D w body) (\<lambda>v d. Q v (com d)) (\<lambda>d. G (com d))"
    unfolding triple_def
  proof (intro allI impI)
    fix d r d'
    assume T: "com d = T" and "in_tx D w body d = (r, d')"
    from this(2) show "case r of Inl err \<Rightarrow> G (com d') | Inr v \<Rightarrow> Q v (com d')"
    proof (cases rule: in_txE)
      case (no_tx err)
      with L T \<open>G T\<close> show ?thesis by (auto simp: fault_laws_def)
    next
      case (body d1 d2)
      with L T have "sees com wrk T T d1" "com d' = com d2" by (auto simp: fault_laws_def sees_def)
      with tripleD [OF \<open>triple (sees com wrk T T) _ _ _\<close> _ body(2)] show ?thesis by (auto split: sum.splits)
    qed
  qed
qed

lemma faulty_statements:
  assumes L: "fault_laws D com wrk" and F: "\<And>d. com d = T \<Longrightarrow> F d"
  shows capacity_step: "triple (sees com wrk T W) (check_capacity D n) (\<lambda>_ d. int (card (dom (t_users W))) < n \<and> sees com wrk T W d) F"
    and insert_step: "triple (sees com wrk T W) (insert_user D row) (\<lambda>_ d. r_id row \<notin> dom (t_users W) \<and> sees com wrk T (add_user row W) d) F"
    and select_step: "triple (sees com wrk T W) (query w (q_SelectUser D i)) (\<lambda>row d. t_users W i = Some row \<and> sees com wrk T W d) F"
    and for_update_step: "triple (sees com wrk T W) (query w (q_SelectUserForUpdate D i)) (\<lambda>row d. t_users W i = Some row \<and> sees com wrk T W d) F"
    and exists_step: "triple (sees com wrk T W) (query w (q_ExistsForUpdate D i)) (\<lambda>b d. b = (i \<in> dom (t_users W)) \<and> sees com wrk T W d) F"
    and update_step: "triple (sees com wrk T W) (query w (q_UpdateUser D row))
      (\<lambda>k d. k = Inr (if r_id row \<in> dom (t_users W) then 1 else 0) \<and>
         sees com wrk T (if r_id row \<in> dom (t_users W) then add_user row W else W) d) F"
    and key_step: "triple (sees com wrk T W) (select_key D key) (\<lambda>k d. t_keys W key = k \<and> sees com wrk T W d) F"
    and insert_key_step: "triple (sees com wrk T W) (check w (q_InsertKey D key i)) (\<lambda>_. sees com wrk T (W\<lparr>t_keys := (t_keys W)(key \<mapsto> i)\<rparr>)) F"
proof -
  show "triple (sees com wrk T W) (check_capacity D n) (\<lambda>_ d. int (card (dom (t_users W))) < n \<and> sees com wrk T W d) F"
    using fault_lawsD(1) [OF L] F unfolding check_capacity_def law_Count_def
    by (intro tripleI) (auto elim!: sbindE queryE simp: sees_def split: if_splits)
  show "triple (sees com wrk T W) (insert_user D row) (\<lambda>_ d. r_id row \<notin> dom (t_users W) \<and> sees com wrk T (add_user row W) d) F"
    using fault_lawsD(2) [OF L] F unfolding insert_user_def law_InsertUser_def
    by (intro triple_check) (auto simp: sees_def add_user_def, metis domI)
  show "triple (sees com wrk T W) (query w (q_SelectUser D i)) (\<lambda>row d. t_users W i = Some row \<and> sees com wrk T W d) F"
    "triple (sees com wrk T W) (query w (q_SelectUserForUpdate D i)) (\<lambda>row d. t_users W i = Some row \<and> sees com wrk T W d) F"
    using fault_lawsD(3,4) [OF L] F unfolding law_SelectUser_def by (auto intro!: triple_query simp: sees_def)
  show "triple (sees com wrk T W) (query w (q_ExistsForUpdate D i)) (\<lambda>b d. b = (i \<in> dom (t_users W)) \<and> sees com wrk T W d) F"
    using fault_lawsD(5) [OF L] F unfolding law_Exists_def sees_def by (intro triple_query) metis+
  show "triple (sees com wrk T W) (query w (q_UpdateUser D row))
      (\<lambda>k d. k = Inr (if r_id row \<in> dom (t_users W) then 1 else 0) \<and>
         sees com wrk T (if r_id row \<in> dom (t_users W) then add_user row W else W) d) F"
    using fault_lawsD(6) [OF L] F unfolding law_UpdateUser_def add_user_def sees_def by (intro triple_query) metis+
  show "triple (sees com wrk T W) (select_key D key) (\<lambda>k d. t_keys W key = k \<and> sees com wrk T W d) F"
    using fault_lawsD(7) [OF L] F unfolding law_SelectKey_def
    by (intro tripleI) (auto simp: select_key_def sees_def split: prod.splits sum.splits if_splits)
  show "triple (sees com wrk T W) (check w (q_InsertKey D key i)) (\<lambda>_. sees com wrk T (W\<lparr>t_keys := (t_keys W)(key \<mapsto> i)\<rparr>)) F"
    using fault_lawsD(8) [OF L] F unfolding law_InsertKey_def by (intro triple_check) (auto simp: sees_def)
qed

section \<open>One attempt\<close>

text \<open>
  What an attempt may have committed, whether it reports success or an error: nothing, or all of
  what it is for.
\<close>

lemma row_of_id [simp]: "r_id (row_of u ts) = u_Id u" "r_id (micros r) = r_id r"
  by (simp_all add: row_of_def micros_def)

lemma create_attempt_fault:
  assumes L: "fault_laws D com wrk"
  shows "triple (\<lambda>d. com d = T) (create_attempt D u ts n) (\<lambda>_ d. room_for T u n \<and> com d = add_user (row_of u ts) T)
    (\<lambda>d. com d = T \<or> room_for T u n \<and> com d = add_user (row_of u ts) T)"
  unfolding create_attempt_def
proof (rule tx_step [OF L, where Q = "\<lambda>_ X. room_for T u n \<and> X = add_user (row_of u ts) T"
      and G = "\<lambda>X. X = T \<or> room_for T u n \<and> X = add_user (row_of u ts) T"])
  let ?F = "\<lambda>d. com d = T \<or> room_for T u n \<and> com d = add_user (row_of u ts) T"
  show "triple (sees com wrk T T) (sbind (check (Wrapf ''lock user capacity: '') (db_Lock D)) (\<lambda>_.
        sbind (check_capacity D n) (\<lambda>_. sbind (insert_user D (row_of u ts)) (\<lambda>_. check (Wrapf ''commit create: '') (db_Commit D)))))
      (\<lambda>_ d. room_for T u n \<and> com d = add_user (row_of u ts) T) ?F"
    by (rule triple_sbind [OF lock_step [OF L]], simp, rule triple_sbind [OF capacity_step [OF L]], simp, rule triple_if,
        rule triple_sbind [OF insert_step [OF L]], simp, rule triple_if, rule triple_conseq [OF commit_step [OF L, where F = ?F]])
      (auto simp: room_for_def)
qed simp

definition add_keyed :: "string \<Rightarrow> user_row \<Rightarrow> tables \<Rightarrow> tables" where
  "add_keyed key row T = (add_user row T)\<lparr>t_keys := (t_keys T)(key \<mapsto> r_id row)\<rparr>"

lemma add_keyed_simps [simp]: "t_users (add_keyed key row T) = (t_users T)(r_id row \<mapsto> micros row)"
  "t_keys (add_keyed key row T) = (t_keys T)(key \<mapsto> r_id row)"
  by (simp_all add: add_keyed_def)

definition recorded_user :: "tables \<Rightarrow> string \<Rightarrow> User option \<Rightarrow> bool" where
  "recorded_user T key v \<longleftrightarrow> (\<exists>i row. t_keys T key = Some i \<and> t_users T i = Some row \<and> v = Some (user_of_row row))"

definition fresh_key :: "tables \<Rightarrow> string \<Rightarrow> User \<Rightarrow> int \<Rightarrow> bool" where
  "fresh_key T key u n \<longleftrightarrow> t_keys T key = None \<and> room_for T u n"

lemma scan_step:
  assumes L: "fault_laws D com wrk" and F: "\<And>d. com d = T \<Longrightarrow> F d"
  shows "triple (sees com wrk T W) (scanUserTx D i) (\<lambda>v d. (\<exists>row. t_users W i = Some row \<and> v = user_of_row row) \<and> sees com wrk T W d) F"
  unfolding scanUserTx_def
  by (rule triple_sbind [OF select_step [OF L F]], assumption, rule triple_if, rule triple_ret) auto

text \<open>The commit as the last step of a transaction, with what it then returns.\<close>

lemma commit_return:
  assumes L: "fault_laws D com wrk" and "\<And>d. com d = T \<or> com d = W \<Longrightarrow> F d" and "\<And>d. com d = W \<Longrightarrow> Q v d"
  shows "triple (sees com wrk T W) (sbind (check w (db_Commit D)) (\<lambda>_. ret v)) Q F"
  by (rule triple_sbind [OF commit_step [OF L]], rule assms(2), assumption, rule triple_ret, rule assms(3))

lemma idem_attempt_fault:
  assumes L: "fault_laws D com wrk"
  shows "triple (\<lambda>d. com d = T) (idem_attempt D u ts n key)
    (\<lambda>(v, b) d. if b then com d = T \<and> recorded_user T key v
       else fresh_key T key u n \<and> com d = add_keyed key (row_of u ts) T \<and> v = Some u)
    (\<lambda>d. com d = T \<or> fresh_key T key u n \<and> com d = add_keyed key (row_of u ts) T)"
proof -
  let ?row = "row_of u ts" and ?W = "add_keyed key (row_of u ts) T"
  let ?Q = "\<lambda>(v, b) X. if b then X = T \<and> recorded_user T key v else fresh_key T key u n \<and> X = ?W \<and> v = Some u"
  let ?F = "\<lambda>d. com d = T \<or> fresh_key T key u n \<and> com d = ?W"
  have W: "(add_user ?row T)\<lparr>t_keys := (t_keys (add_user ?row T))(key \<mapsto> u_Id u)\<rparr> = ?W" by (simp add: add_keyed_def)
  have replay: "triple (sees com wrk T T) (sbind (scanUserTx D i) (\<lambda>v.
      sbind (check (\<lambda>err. err) (db_Commit D)) (\<lambda>_. ret (Some v, True)))) (\<lambda>v d. ?Q v (com d)) ?F" if "t_keys T key = Some i" for i
    by (rule triple_sbind [OF scan_step [OF L]], simp, rule triple_if, rule commit_return [OF L])
      (use that in \<open>auto simp: recorded_user_def\<close>)
  have create: "triple (sees com wrk T T) (sbind (check_capacity D n) (\<lambda>_. sbind (insert_user D ?row) (\<lambda>_.
      sbind (check (Wrapf ''insert idempotency key: '') (q_InsertKey D key (u_Id u))) (\<lambda>_.
      sbind (check (Wrapf ''commit idempotent create: '') (db_Commit D)) (\<lambda>_. ret (Some u, False))))))
      (\<lambda>v d. ?Q v (com d)) ?F" if "t_keys T key = None"
    by (rule triple_sbind [OF capacity_step [OF L]], simp, rule triple_if, rule triple_sbind [OF insert_step [OF L]], simp,
        rule triple_if, rule triple_sbind [OF insert_key_step [OF L]], simp, unfold W, rule commit_return [OF L])
      (use that in \<open>auto simp: fresh_key_def room_for_def\<close>)
  have "triple (\<lambda>d. com d = T) (idem_attempt D u ts n key) (\<lambda>v d. ?Q v (com d)) ?F"
    unfolding idem_attempt_def
  proof (rule tx_step [OF L, where Q = ?Q and G = "\<lambda>X. X = T \<or> fresh_key T key u n \<and> X = ?W"],
      rule triple_sbind [OF lock_step [OF L]], goal_cases)
    case (2 x)
    show ?case
      by (rule triple_sbind [OF key_step [OF L]], simp, rule triple_if, split option.split, intro conjI allI impI)
        (rule create replay, simp)+
  qed simp_all
  then show ?thesis by (rule triple_conseq) auto
qed

definition modified :: "string \<Rightarrow> ReadModifyUpdateFn \<Rightarrow> tables \<Rightarrow> tables \<Rightarrow> bool" where
  "modified i f T X \<longleftrightarrow> (\<exists>row u ts. t_users T i = Some row \<and> f (user_of_row row) = Inr u \<and> userTimes u = Inr ts \<and>
     X = (if u_Id u \<in> dom (t_users T) then add_user (row_of u ts) T else T))"

lemma rmu_attempt_fault:
  assumes L: "fault_laws D com wrk"
  shows "triple (\<lambda>d. com d = T) (rmu_attempt D i f) (\<lambda>_ d. modified i f T (com d)) (\<lambda>d. com d = T \<or> modified i f T (com d))"
  unfolding rmu_attempt_def
proof (rule tx_step [OF L, where Q = "\<lambda>_. modified i f T" and G = "\<lambda>X. X = T \<or> modified i f T X"],
    rule triple_sbind [OF for_update_step [OF L]], simp, rule triple_if, goal_cases)
  case (1 row)
  let ?F = "\<lambda>d. com d = T \<or> modified i f T (com d)"
  have "triple (sees com wrk T T) (sbind (query (Wrapf ''update user in read-modify-update: '') (q_UpdateUser D (row_of u ts))) (\<lambda>_.
      sbind (check (Wrapf ''commit read-modify-update: '') (db_Commit D)) (\<lambda>_. ret (Some u)))) (\<lambda>_ d. modified i f T (com d)) ?F"
    if "f (user_of_row row) = Inr u" "userTimes u = Inr ts" for u ts
  proof -
    have "modified i f T (if r_id (row_of u ts) \<in> dom (t_users T) then add_user (row_of u ts) T else T)"
      using that 1 unfolding modified_def row_of_id by blast
    then show ?thesis
      by (intro triple_sbind [OF update_step [OF L]] triple_if commit_return [OF L]) metis+
  qed
  then show ?case by (auto split: sum.split intro!: triple_fail simp: sees_def [abs_def])
qed simp

definition overwritten :: "User \<Rightarrow> int \<times> int \<Rightarrow> tables \<Rightarrow> tables \<Rightarrow> bool" where
  "overwritten u ts T X \<longleftrightarrow> u_Id u \<in> dom (t_users T) \<and> X = add_user (row_of u ts) T"

definition update_attempt where
  "update_attempt D u ts =
     in_tx D (Wrapf ''begin update: '')
       (sbind (query (Wrapf ''lock user for update: '') (q_ExistsForUpdate D (u_Id u))) (\<lambda>exists.
          if \<not> exists then fail ErrNotFound
          else
            sbind (affected ''update user: '' ''inspect update: '' (q_UpdateUser D (row_of u ts))) (\<lambda>rows.
              if rows = 0 then fail ErrNotFound else check (\<lambda>err. err) (db_Commit D))))"

lemma update_attempt_fault:
  assumes L: "fault_laws D com wrk"
  shows "triple (\<lambda>d. com d = T) (update_attempt D u ts) (\<lambda>_ d. overwritten u ts T (com d)) (\<lambda>d. com d = T \<or> overwritten u ts T (com d))"
  unfolding update_attempt_def
proof (rule tx_step [OF L, where Q = "\<lambda>_. overwritten u ts T" and G = "\<lambda>X. X = T \<or> overwritten u ts T X"],
    rule triple_sbind [OF exists_step [OF L]], simp, rule triple_if, goal_cases)
  case (1 b)
  let ?F = "\<lambda>d. com d = T \<or> overwritten u ts T (com d)"
  have "triple (sees com wrk T T) (sbind (affected ''update user: '' ''inspect update: '' (q_UpdateUser D (row_of u ts))) (\<lambda>rows.
      if rows = 0 then fail ErrNotFound else check (\<lambda>err. err) (db_Commit D))) (\<lambda>_ d. overwritten u ts T (com d)) ?F"
    if dom: "u_Id u \<in> dom (t_users T)"
  proof (rule triple_sbind)
    show "triple (sees com wrk T T) (affected ''update user: '' ''inspect update: '' (q_UpdateUser D (row_of u ts)))
        (\<lambda>rows d. rows = 1 \<and> sees com wrk T (add_user (row_of u ts) T) d) ?F"
      unfolding affected_def
      by (rule triple_sbind [OF update_step [OF L]], simp, rule triple_if) (use dom in \<open>auto intro!: triple_ret\<close>)
    show "triple (\<lambda>d. rows = 1 \<and> sees com wrk T (add_user (row_of u ts) T) d)
        (if rows = 0 then fail ErrNotFound else check (\<lambda>err. err) (db_Commit D)) (\<lambda>_ d. overwritten u ts T (com d)) ?F" for rows :: int
      by (rule triple_if, simp, rule triple_conseq [OF commit_step [OF L, where F = ?F]]) (use dom in \<open>auto simp: overwritten_def\<close>)
  qed
  with 1 show ?case by (auto intro!: triple_fail simp: sees_def [abs_def])
qed simp

definition delete_attempt where
  "delete_attempt D i =
     sbind (affected ''delete user: '' ''inspect delete: '' (x_DeleteUser D i)) (\<lambda>rows.
       if rows = 0 then fail ErrNotFound else ret ())"

lemma delete_attempt_fault:
  assumes L: "fault_laws D com wrk"
  shows "triple (\<lambda>d. com d = T) (delete_attempt D i) (\<lambda>_ d. com d = T \<or> com d = without i T) (\<lambda>d. com d = T \<or> com d = without i T)"
proof -
  have "com d' = com d \<or> com d' = without i (com d)" if "delete_attempt D i d = (r, d')" for d r d'
  proof -
    from that have "\<exists>r0. x_DeleteUser D i d = (r0, d')"
      unfolding delete_attempt_def affected_def by (auto elim!: sbindE queryE split: sum.splits if_splits)
    then show ?thesis using fault_pool(1) [OF L] by blast
  qed
  then show ?thesis by (intro tripleI) auto
qed

section \<open>The operations on the store\<close>

text \<open>What every attempt keeps of the committed tables, the operation keeps, however often it is retried.\<close>

lemma retry_loop_keeps:
  assumes "\<And>T. J T \<Longrightarrow> triple (\<lambda>d. com d = T) op (\<lambda>_ d. J (com d)) (\<lambda>d. J (com d))"
  shows "J (com d) \<Longrightarrow> J (com (snd (retry_loop V cfg op attempt n prev d)))"
proof (induction n arbitrary: attempt prev d)
  case (Suc n)
  obtain r0 d0 where op: "op d = (r0, d0)" by fastforce
  from tripleD [OF assms [OF Suc.prems] refl op] have "J (com d0)" by (cases r0) auto
  with Suc op show ?case by (simp split: option.split sum.split)
qed simp

lemma retry_keeps:
  assumes "\<And>T. J T \<Longrightarrow> triple (\<lambda>d. com d = T) op (\<lambda>_ d. J (com d)) (\<lambda>d. J (com d))" and "J (com d)"
  shows "J (com (snd (retryOperation V cfg zero op d)))"
  unfolding retryOperation_def by (rule retry_loop_keeps [OF assms])

definition pg_kept :: "User \<Rightarrow> User \<Rightarrow> bool" where
  "pg_kept u v \<longleftrightarrow> (\<exists>ts. userTimes u = Inr ts \<and> v = user_of_row (micros (row_of u ts)))"

lemma pg_kept_same: "pg_kept u v \<Longrightarrow> same_fields u v"
  by (auto simp: pg_kept_def same_fields_def user_of_row_def micros_def row_of_def)

lemma store_add: "store_of (add_user row T) = (store_of T)(r_id row \<mapsto> user_of_row (micros row))"
  "store_of (add_keyed key row T) = (store_of T)(r_id row \<mapsto> user_of_row (micros row))"
  "store_of (without i T) = (store_of T)(i := None)"
  by (auto simp: store_of_def without_def)

lemma keyed_add: "keyed T \<Longrightarrow> keyed (add_user row T)" "keyed T \<Longrightarrow> keyed (add_keyed key row T)" "keyed T \<Longrightarrow> keyed (without i T)"
  by (auto simp: keyed_def without_def)

text \<open>What has been created is not created again.\<close>

lemma no_room_twice [simp]: "\<not> room_for (add_user (row_of u ts) T) u n" "\<not> fresh_key (add_keyed key row T) key v n"
  by (simp_all add: room_for_def fresh_key_def)

lemma early_failure: "com (snd (retryOperation V cfg zero (fail err) d)) = com d"
  by (rule retry_keeps [where J = "\<lambda>X. X = com d"]) (auto intro: triple_fail)

lemma valid_operations:
  assumes "user = Some u" and "userTimes u = Inr ts" and "\<not> incomplete user"
  shows "pg_Create V cfg D user n = retryOperation V cfg () (create_attempt D u ts n)"
    and "key \<noteq> [] \<Longrightarrow> pg_CreateWithIdempotency V cfg D user n key = retryOperation V cfg (None, False) (idem_attempt D u ts n key)"
    and "pg_Update V cfg D user = retryOperation V cfg () (update_attempt D u ts)"
  using assms
  by (simp_all add: pg_Create_def create_attempt_def pg_CreateWithIdempotency_def idem_attempt_def pg_Update_def update_attempt_def)

lemma pg_Create_fault:
  assumes "fault_laws D com wrk"
  shows "(\<exists>u ts. user = Some u \<and> userTimes u = Inr ts \<and> room_for (com d) u n \<and>
      com (snd (pg_Create V cfg D user n d)) = add_user (row_of u ts) (com d)) \<or> com (snd (pg_Create V cfg D user n d)) = com d"
proof (cases "incomplete user \<or> (\<exists>err. userTimes (the user) = Inl err)")
  case True
  then show ?thesis by (cases user) (auto simp: pg_Create_def incomplete_def early_failure fail_def)
next
  case False
  then obtain u ts where u: "user = Some u" "userTimes u = Inr ts" "\<not> incomplete user"
    by (cases user; cases "userTimes (the user)") (auto simp: incomplete_def)
  let ?T = "com d" and ?J = "\<lambda>X. X = com d \<or> room_for (com d) u n \<and> X = add_user (row_of u ts) (com d)"
  have "?J (com (snd (retryOperation V cfg () (create_attempt D u ts n) d)))"
  proof (rule retry_keeps [where J = ?J])
    fix T
    assume "?J T"
    then show "triple (\<lambda>d. com d = T) (create_attempt D u ts n) (\<lambda>_ d. ?J (com d)) (\<lambda>d. ?J (com d))"
      by (intro triple_conseq [OF create_attempt_fault [OF assms, where T = T]]) (auto simp: no_room_twice)
  qed simp
  with u show ?thesis unfolding valid_operations(1) [OF u] by blast
qed

lemma pg_CreateWithIdempotency_fault:
  assumes "fault_laws D com wrk"
  shows "(\<exists>u ts. user = Some u \<and> userTimes u = Inr ts \<and> room_for (com d) u n \<and>
      (com (snd (pg_CreateWithIdempotency V cfg D user n key d)) = add_user (row_of u ts) (com d) \<or>
       com (snd (pg_CreateWithIdempotency V cfg D user n key d)) = add_keyed key (row_of u ts) (com d))) \<or>
    com (snd (pg_CreateWithIdempotency V cfg D user n key d)) = com d"
proof -
  consider (plain) "key = []" | (early) "key \<noteq> []" "incomplete user \<or> (\<exists>err. userTimes (the user) = Inl err)"
    | (keyed) u ts where "key \<noteq> []" "user = Some u" "userTimes u = Inr ts" "\<not> incomplete user"
    by (cases user; cases "userTimes (the user)") (auto simp: incomplete_def)
  then show ?thesis
  proof cases
    case plain
    have "snd (pg_CreateWithIdempotency V cfg D user n key d) = snd (pg_Create V cfg D user n d)"
      by (simp add: pg_CreateWithIdempotency_def plain sbind_def ret_def split: prod.split sum.split)
    with pg_Create_fault [OF assms, of user d n V cfg] show ?thesis by metis
  next
    case early
    then show ?thesis by (cases user) (auto simp: pg_CreateWithIdempotency_def incomplete_def early_failure fail_def)
  next
    case keyed
    let ?J = "\<lambda>X. X = com d \<or> fresh_key (com d) key u n \<and> X = add_keyed key (row_of u ts) (com d)"
    have "?J (com (snd (retryOperation V cfg (None, False) (idem_attempt D u ts n key) d)))"
    proof (rule retry_keeps [where J = ?J])
      fix T
      assume "?J T"
      then show "triple (\<lambda>d. com d = T) (idem_attempt D u ts n key) (\<lambda>_ d. ?J (com d)) (\<lambda>d. ?J (com d))"
        by (intro triple_conseq [OF idem_attempt_fault [OF assms, where T = T]]) (auto split: if_splits)
    qed simp
    with keyed show ?thesis unfolding valid_operations(2) [OF keyed(2-4,1)] fresh_key_def by blast
  qed
qed

lemma pg_Update_fault:
  assumes "fault_laws D com wrk"
  shows "(\<exists>u ts. user = Some u \<and> userTimes u = Inr ts \<and> overwritten u ts (com d) (com (snd (pg_Update V cfg D user d)))) \<or>
    com (snd (pg_Update V cfg D user d)) = com d"
proof (cases "incomplete user \<or> (\<exists>err. userTimes (the user) = Inl err)")
  case True
  then show ?thesis by (cases user) (auto simp: pg_Update_def incomplete_def early_failure fail_def)
next
  case False
  then obtain u ts where u: "user = Some u" "userTimes u = Inr ts" "\<not> incomplete user"
    by (cases user; cases "userTimes (the user)") (auto simp: incomplete_def)
  let ?J = "\<lambda>X. X = com d \<or> overwritten u ts (com d) X"
  have "?J (com (snd (retryOperation V cfg () (update_attempt D u ts) d)))"
  proof (rule retry_keeps [where J = ?J])
    fix T
    assume "?J T"
    then show "triple (\<lambda>d. com d = T) (update_attempt D u ts) (\<lambda>_ d. ?J (com d)) (\<lambda>d. ?J (com d))"
      by (intro triple_conseq [OF update_attempt_fault [OF assms, where T = T]]) (auto simp: overwritten_def)
  qed simp
  with u show ?thesis unfolding valid_operations(3) [OF u] by blast
qed

lemma pg_Delete_fault:
  assumes "fault_laws D com wrk"
  shows "com (snd (pg_Delete V cfg D i d)) = com d \<or> com (snd (pg_Delete V cfg D i d)) = without i (com d)"
  unfolding pg_Delete_def delete_attempt_def [symmetric]
proof (rule retry_keeps [where J = "\<lambda>X. X = com d \<or> X = without i (com d)"])
  fix T
  assume "T = com d \<or> T = without i (com d)"
  moreover have "without i (without i (com d)) = without i (com d)" by (simp add: without_def fun_eq_iff)
  ultimately show "triple (\<lambda>d. com d = T) (delete_attempt D i) (\<lambda>_ da. com da = com d \<or> com da = without i (com d))
      (\<lambda>da. com da = com d \<or> com da = without i (com d))"
    by (intro triple_conseq [OF delete_attempt_fault [OF assms, where T = T]]) auto
qed simp

text \<open>A read-modify-write may have been applied more than once.\<close>

definition rewritten :: "string \<Rightarrow> ReadModifyUpdateFn \<Rightarrow> tables \<Rightarrow> tables \<Rightarrow> bool" where
  "rewritten i f T X \<longleftrightarrow> (\<exists>old new. t_users T i = Some old \<and> r_id new = i \<and> updates pg_kept f (user_of_row old) (user_of_row new) \<and>
     X = T\<lparr>t_users := (t_users T)(i \<mapsto> new)\<rparr>)"

lemma user_of_row_id [simp]: "u_Id (user_of_row r) = r_id r"
  by (simp add: user_of_row_def)

lemma modified_rewritten:
  assumes "keyed T" and "\<And>u w. f u = Inr w \<Longrightarrow> u_Id w = u_Id u" and "X = T \<or> rewritten i f T X" and "modified i f X Y"
  shows "rewritten i f T Y"
proof -
  from assms(4) obtain row u ts where row: "t_users X i = Some row" and u: "f (user_of_row row) = Inr u" "userTimes u = Inr ts"
    and Y: "Y = (if u_Id u \<in> dom (t_users X) then add_user (row_of u ts) X else X)" unfolding modified_def by blast
  have "\<exists>old. t_users T i = Some old \<and> r_id row = i \<and> updates pg_kept f (user_of_row old) (user_of_row row) \<and>
      (\<forall>r. X\<lparr>t_users := (t_users X)(i \<mapsto> r)\<rparr> = T\<lparr>t_users := (t_users T)(i \<mapsto> r)\<rparr>)"
    using assms(3)
  proof
    assume "X = T"
    moreover from this assms(1) row have "r_id row = i" unfolding keyed_def by blast
    ultimately show ?thesis using row updates.none by blast
  next
    assume "rewritten i f T X"
    then obtain old new where n: "t_users T i = Some old" "r_id new = i" "updates pg_kept f (user_of_row old) (user_of_row new)"
      "X = T\<lparr>t_users := (t_users T)(i \<mapsto> new)\<rparr>" unfolding rewritten_def by blast
    with row have "row = new" by simp
    with n show ?thesis by simp
  qed
  then obtain old where old: "t_users T i = Some old" "r_id row = i" "updates pg_kept f (user_of_row old) (user_of_row row)"
    and upd: "\<And>r. X\<lparr>t_users := (t_users X)(i \<mapsto> r)\<rparr> = T\<lparr>t_users := (t_users T)(i \<mapsto> r)\<rparr>" by blast
  have i: "u_Id u = i" using assms(2) [OF u(1)] old(2) by simp
  have "pg_kept u (user_of_row (micros (row_of u ts)))" using u(2) by (auto simp: pg_kept_def)
  from updates.once_more [OF old(3) u(1) this] have step: "updates pg_kept f (user_of_row old) (user_of_row (micros (row_of u ts)))" .
  have "Y = T\<lparr>t_users := (t_users T)(i \<mapsto> micros (row_of u ts))\<rparr>"
    using Y i row upd [of "micros (row_of u ts)"] by (simp add: add_user_def domI)
  with step old(1) i show ?thesis unfolding rewritten_def by (metis row_of_id)
qed

lemma pg_ReadModifyUpdate_fault:
  assumes "fault_laws D com wrk" and "keyed (com d)" and "\<forall>g u w. f = Some g \<longrightarrow> g u = Inr w \<longrightarrow> u_Id w = u_Id u"
  shows "(\<exists>g. f = Some g \<and> rewritten i g (com d) (com (snd (pg_ReadModifyUpdate V cfg D i f d)))) \<or>
    com (snd (pg_ReadModifyUpdate V cfg D i f d)) = com d"
proof (cases "blank i \<or> f = None")
  case True
  then show ?thesis by (auto simp: pg_ReadModifyUpdate_def fail_def)
next
  case False
  then obtain g where g: "f = Some g" by blast
  let ?J = "\<lambda>X. X = com d \<or> rewritten i g (com d) X"
  have "?J (com (snd (retryOperation V cfg None (rmu_attempt D i g) d)))"
  proof (rule retry_keeps [where J = ?J])
    fix T
    assume "?J T"
    with modified_rewritten [OF assms(2), of g T i] assms(3) g
    show "triple (\<lambda>d. com d = T) (rmu_attempt D i g) (\<lambda>_ d. ?J (com d)) (\<lambda>d. ?J (com d))"
      by (intro triple_conseq [OF rmu_attempt_fault [OF assms(1), where T = T]]) auto
  qed simp
  moreover have "pg_ReadModifyUpdate V cfg D i f d = retryOperation V cfg None (rmu_attempt D i g) d"
    using False g by (simp add: pg_ReadModifyUpdate_def rmu_attempt_def)
  ultimately show ?thesis using g by auto
qed

lemma pg_reads_fault:
  assumes "fault_laws D com wrk"
  shows "com (snd (pg_Get V cfg D i d)) = com d" and "com (snd (pg_List V cfg D n a d)) = com d"
proof -
  note sel = fault_lawsD(9) [OF assms, unfolded law_pool_Select_def] and lst = fault_lawsD(10) [OF assms, unfolded law_pool_List_def]
  show "com (snd (pg_Get V cfg D i d)) = com d"
    unfolding pg_Get_def
    by (rule retry_keeps [where J = "\<lambda>X. X = com d"], rule tripleI) (use sel in \<open>auto elim!: sbindE queryE\<close>)
  have "com (snd (retryOperation V cfg ([], []) (list_attempt D n a) d)) = com d"
    unfolding list_attempt_def
    by (rule retry_keeps [where J = "\<lambda>X. X = com d"], rule tripleI)
      (use lst in \<open>auto simp: Let_def elim!: sbindE queryE split: sum.splits option.splits if_splits\<close>)
  then show "com (snd (pg_List V cfg D n a d)) = com d" by (simp add: pg_List_def list_attempt_def fail_def)
qed

section \<open>Creating once\<close>

text \<open>The user a key stands for, up to the rounding of its times.\<close>

definition answers :: "tables \<Rightarrow> string \<Rightarrow> User option \<Rightarrow> bool" where
  "answers T key v \<longleftrightarrow> (\<exists>i row w. t_keys T key = Some i \<and> t_users T i = Some row \<and> v = Some w \<and> same_fields w (user_of_row row))"

lemma recorded_answers: "recorded_user T key v \<Longrightarrow> answers T key v"
  by (auto simp: recorded_user_def answers_def)

lemma add_keyed_answers: "answers (add_keyed key (row_of u ts) T) key (Some u)"
  by (auto simp: answers_def same_fields_def user_of_row_def micros_def row_of_def)

definition created_once :: "tables \<Rightarrow> string \<Rightarrow> int \<Rightarrow> User set \<Rightarrow> tables \<Rightarrow> bool" where
  "created_once T key n us X \<longleftrightarrow> X = T \<or>
     (\<exists>u ts. u \<in> us \<and> userTimes u = Inr ts \<and> fresh_key T key u n \<and> X = add_keyed key (row_of u ts) T)"

lemma idem_call:
  assumes "fault_laws D com wrk" and "0 < maxAttempts cfg" and "key \<noteq> []"
    and "pg_CreateWithIdempotency V cfg D (Some u) n key d = (r, d')"
  shows "created_once (com d) key n {u} (com d')" and "r = Inr (v, b) \<Longrightarrow> answers (com d') key v"
proof -
  let ?J = "created_once (com d) key n {u}"
  have "?J (com d') \<and> (\<forall>v b. r = Inr (v, b) \<longrightarrow> answers (com d') key v)"
    using assms(4,2)
  proof (cases rule: pg_create_cases)
    case (keyed u' ts)
    then have u: "userTimes u = Inr ts" "u' = u" by simp_all
    have "triple (\<lambda>d. ?J (com d)) (idem_attempt D u ts n key) (\<lambda>(v, b) d. ?J (com d) \<and> answers (com d) key v) (\<lambda>d. ?J (com d))"
      unfolding triple_def
    proof (intro allI impI)
      fix e q e'
      assume J: "?J (com e)" and q: "idem_attempt D u ts n key e = (q, e')"
      note attempt = tripleD [OF idem_attempt_fault [OF assms(1), of "com e" u ts n key] refl q]
      have step: "?J X" if "fresh_key (com e) key u n" "X = add_keyed key (row_of u ts) (com e)" for X
        using J that u by (cases ts) (auto simp: created_once_def)
      show "case q of Inl err \<Rightarrow> ?J (com e') | Inr a \<Rightarrow> (case a of (v, b) \<Rightarrow> \<lambda>d. ?J (com d) \<and> answers (com d) key v) e'"
      proof (cases q)
        case (Inl err)
        with attempt(2) J step show ?thesis by auto
      next
        case (Inr a)
        with attempt(1) [of a] J step recorded_answers add_keyed_answers show ?thesis by (cases a) (auto split: if_splits)
      qed
    qed
    from tripleD [OF triple_retry [OF this assms(2)] _ keyed(4) [unfolded u(2)]]
    show ?thesis by (cases r) (auto simp: created_once_def)
  qed (use assms(3) in \<open>simp_all add: created_once_def\<close>)
  then show "?J (com d')" "r = Inr (v, b) \<Longrightarrow> answers (com d') key v" by blast+
qed

text \<open>A client that repeats its request under one key, each time with the user the service built for it.\<close>

primrec repeat_create where
  "repeat_create cfg D n key [] d = ([], d)"
| "repeat_create cfg D n key (c # cs) d =
     (case pg_CreateWithIdempotency (fst c) cfg D (Some (snd c)) n key d of
        (r, d1) \<Rightarrow> (case repeat_create cfg D n key cs d1 of (rs, d2) \<Rightarrow> (r # rs, d2)))"

lemma answers_key: "answers T key v \<Longrightarrow> created_once T key n us X \<Longrightarrow> X = T"
  by (auto simp: answers_def created_once_def fresh_key_def)

lemma created_once_trans:
  assumes "created_once T key n us X" and "created_once X key n vs Y"
  shows "created_once T key n (us \<union> vs) Y"
  using assms by (auto simp: created_once_def)

lemma created_once_tables:
  "created_once T key n us X \<longleftrightarrow> X = T \<or>
     (\<exists>u ts. u \<in> us \<and> userTimes u = Inr ts \<and> t_keys T key = None \<and> u_Id u \<notin> dom (t_users T) \<and> int (card (dom (t_users T))) < n \<and>
        X = T\<lparr>t_users := (t_users T)(u_Id u \<mapsto> micros (row_of u ts)), t_keys := (t_keys T)(key \<mapsto> u_Id u)\<rparr>)"
  by (simp add: created_once_def fresh_key_def room_for_def add_keyed_def add_user_def conj_assoc)

lemma answers_fields:
  "answers T key v \<longleftrightarrow> (\<exists>i row w. t_keys T key = Some i \<and> t_users T i = Some row \<and> v = Some w \<and>
     u_Id w = r_id row \<and> u_Name w = r_name row \<and> u_Email w = r_email row \<and> u_Age w = r_age row)"
  by (simp add: answers_def same_fields_def user_of_row_def eq_commute)

text \<open>
  C5: an idempotency key creates one user, even when acknowledgements are lost. A client repeats
  \<open>CreateWithIdempotency\<close> under one key any number of times; each call is retried inside the
  repository, and any commit may be reported as failed although it happened. Then the tables gained
  at most one user, together with its key, and only if the key was new and there was room. Every
  call that returned a user returned the one that the key stands for in the end.
\<close>

theorem idempotent_create_once:
  assumes "fault_laws D com wrk" and "0 < maxAttempts cfg" and "key \<noteq> []"
    and "repeat_create cfg D n key calls d = (rs, d')"
  shows "(com d' = com d \<or>
      (\<exists>u ts. u \<in> snd ` set calls \<and> userTimes u = Inr ts \<and> t_keys (com d) key = None \<and>
         u_Id u \<notin> dom (t_users (com d)) \<and> int (card (dom (t_users (com d)))) < n \<and>
         com d' = (com d)\<lparr>t_users := (t_users (com d))(u_Id u \<mapsto> micros (row_of u ts)),
           t_keys := (t_keys (com d))(key \<mapsto> u_Id u)\<rparr>)) \<and>
    (\<forall>v b. Inr (v, b) \<in> set rs \<longrightarrow>
      (\<exists>i row w. t_keys (com d') key = Some i \<and> t_users (com d') i = Some row \<and> v = Some w \<and>
         u_Id w = r_id row \<and> u_Name w = r_name row \<and> u_Email w = r_email row \<and> u_Age w = r_age row))"
proof -
  have "created_once (com d) key n (snd ` set calls) (com d') \<and> (\<forall>v b. Inr (v, b) \<in> set rs \<longrightarrow> answers (com d') key v)"
    using assms(4)
  proof (induction calls arbitrary: d rs)
    case Nil
    then show ?case by (auto simp: created_once_def)
  next
    case (Cons c cs)
    obtain r d1 rs2 where run: "pg_CreateWithIdempotency (fst c) cfg D (Some (snd c)) n key d = (r, d1)"
      "repeat_create cfg D n key cs d1 = (rs2, d')" "rs = r # rs2"
      using Cons.prems by (auto split: prod.splits)
    note first = idem_call [OF assms(1-3) run(1)] and rest = Cons.IH [OF run(2)]
    have "answers (com d') key v" if "r = Inr (v, b)" for v b
      using first(2) [OF that] answers_key rest by metis
    moreover have "created_once (com d) key n (snd ` set (c # cs)) (com d')"
      using created_once_trans [OF first(1)] rest by simp
    ultimately show ?case using rest run(3) by auto
  qed
  then show ?thesis unfolding created_once_tables answers_fields .
qed

text \<open>A database whose first commit happens but is reported as a lost connection.\<close>

definition flaky_db :: "tdb UserDB" where
  "flaky_db = table_db\<lparr>db_Begin := \<lambda>d. (None, d\<lparr>w_tab := c_tab d\<rparr>),
     db_Commit := \<lambda>d. (if lost d then Some io_EOF else None, d\<lparr>c_tab := w_tab d, lost := False\<rparr>)\<rparr>"

lemma flaky_db_laws: "fault_laws flaky_db c_tab w_tab"
proof -
  have "fault_laws table_db c_tab w_tab" by (rule user_laws_fault [OF table_db_laws]) (simp_all add: table_db_def)
  then show ?thesis
    by (simp add: fault_laws_def flaky_db_def law_Count_def law_InsertUser_def law_SelectUser_def law_Exists_def law_UpdateUser_def
        law_SelectKey_def law_InsertKey_def law_pool_Select_def law_pool_List_def)
qed

theorem idempotent_create_once_witness:
  "case repeat_create pg_cfg flaky_db 5 ''k'' [(calm, pg_user), (calm, pg_user)] (pg_db Map.empty) of
     (rs, d') \<Rightarrow> length rs = 2 \<and> list_all (\<lambda>r. \<exists>v. r = Inr (v, True)) rs \<and>
       c_tab d' = \<lparr>t_users = [''user-1'' \<mapsto> micros (row_of pg_user (1000001500, 1000001500))], t_keys = [''k'' \<mapsto> ''user-1'']\<rparr>"
proof -
  obtain rs d' where c: "repeat_create pg_cfg flaky_db 5 ''k'' [(calm, pg_user), (calm, pg_user)] (pg_db Map.empty) = (rs, d')" by fastforce
  have run: "length rs = 2 \<and> list_all (\<lambda>r. \<exists>v. r = Inr (v, True)) rs"
    using c
    by (auto simp: pg_CreateWithIdempotency_def pg_user_times retryOperation_def numeral_3_eq_3 in_tx_def flaky_db_def table_db_def pg_db_def
        isRetryableError_def err_simps sbind_def check_def select_key_def check_capacity_def query_def insert_user_def ret_def scanUserTx_def
        row_of_def split: if_splits)
  then obtain v where "Inr (v, True) \<in> set rs" by (cases rs) auto
  with idempotent_create_once [OF flaky_db_laws _ _ c] have "c_tab d' = \<lparr>t_users = [''user-1'' \<mapsto> micros (row_of pg_user (1000001500, 1000001500))],
      t_keys = [''k'' \<mapsto> ''user-1'']\<rparr>"
    by (auto simp: pg_user_times pg_user_id pg_db_def)
  with run c show ?thesis by simp
qed

end
