(* ===== verification/Repository_Faults.thy ===== *)
theory Repository_Faults
  imports Repository_Stack Postgres_Faults
begin

text \<open>
  The repository of \<open>openRepository\<close> with either backend and any layers, over a database that may lose
  acknowledgements. Each type of interface value keeps the contract of \<open>Repository_Effects\<close>: the
  in-memory store because it keeps the exact contract, PostgreSQL by \<open>Postgres_Faults\<close>, the circuit
  breaker and the cache because they only hand calls down. So does the service built on it.
\<close>

section \<open>Interface values\<close>

lemma perform_at_type: "perform (at_type tag untag R) E ctx op t = tag (perform R E ctx op (untag t))"
  by (cases op) (simp_all add: at_type_def)

lemma perform_dispatch: "perform (dispatch methods) E ctx op t = perform (methods t) E ctx op t"
  by (cases op) (simp_all add: dispatch_def)

lemma updates_mono: "updates kept f u v \<Longrightarrow> (\<And>u v. kept u v \<Longrightarrow> kept' u v) \<Longrightarrow> updates kept' f u v"
  by (induction rule: updates.induct) (blast intro: updates.intros)+

lemma effect_mono:
  assumes "effect kept op m m'" and mono: "\<And>u v. kept u v \<Longrightarrow> kept' u v"
  shows "effect kept' op m m'"
proof -
  have "inserts kept user n m m' \<Longrightarrow> inserts kept' user n m m'" for user n
    unfolding inserts_def using mono by blast
  then show ?thesis
    using assms(1) updates_mono [of kept _ _ _ kept', OF _ mono] mono
    by (cases op) (simp_all add: effect_def, blast+)
qed

section \<open>The backends\<close>

definition any_kept :: "User \<Rightarrow> User \<Rightarrow> bool" where
  "any_kept u v \<longleftrightarrow> v = u \<or> pg_kept u v"

definition backend_tables :: "('d \<Rightarrow> tables) \<Rightarrow> 'd backend \<Rightarrow> store" where
  "backend_tables com b = (case b of MemoryBackend m \<Rightarrow> mem_abs m | PostgresBackend _ d \<Rightarrow> store_of (com d))"

text \<open>A backend in order, over a database that keeps its laws.\<close>

definition backend_sound :: "'d postgres \<Rightarrow> ('d \<Rightarrow> tables) \<Rightarrow> ('d \<Rightarrow> tables) \<Rightarrow> 'd backend \<Rightarrow> bool" where
  "backend_sound pg com wrk b \<longleftrightarrow>
     (case b of MemoryBackend m \<Rightarrow> mem_inv m | PostgresBackend _ d \<Rightarrow> fault_laws (pgx_db pg) com wrk \<and> keyed (com d))"

lemma drop_value_state [simp]: "snd (drop_value p) = snd p" "snd (result_value q) = snd q"
  by (simp_all add: drop_value_def result_value_def)

lemma room_inserts:
  assumes "userTimes u = Inr ts" and "room_for T u n"
  shows "inserts pg_kept (Some u) n (store_of T) (store_of (add_user (row_of u ts) T))"
    and "inserts pg_kept (Some u) n (store_of T) (store_of (add_keyed key (row_of u ts) T))"
proof -
  have "pg_kept u (user_of_row (micros (row_of u ts)))" using assms(1) unfolding pg_kept_def by blast
  then show "inserts pg_kept (Some u) n (store_of T) (store_of (add_user (row_of u ts) T))"
    "inserts pg_kept (Some u) n (store_of T) (store_of (add_keyed key (row_of u ts) T))"
    using assms(2) unfolding inserts_def store_add row_of_id room_for_def dom_store_of by blast+
qed

lemma rewritten_effect:
  assumes "rewritten i g T X" and "keyed T"
  shows "effect pg_kept (CallsReadModifyUpdate i (Some g)) (store_of T) (store_of X) \<and> keyed X"
proof -
  from assms(1) obtain old new where new: "t_users T i = Some old" "r_id new = i" "updates pg_kept g (user_of_row old) (user_of_row new)"
    "X = T\<lparr>t_users := (t_users T)(i \<mapsto> new)\<rparr>" unfolding rewritten_def by blast
  have X: "store_of X = (store_of T)(i \<mapsto> user_of_row new)" by (simp add: new(4) store_of_def fun_eq_iff)
  have "store_of T i = Some (user_of_row old)" using new(1) by (simp add: store_of_def)
  with new(3) X have "effect pg_kept (CallsReadModifyUpdate i (Some g)) (store_of T) (store_of X)"
    unfolding effect_def by auto
  moreover have "keyed X" using assms(2) new(2) unfolding new(4) keyed_def by simp
  ultimately show ?thesis ..
qed

lemma postgres_step:
  assumes "fault_laws (pgx_db pg) com wrk" and "keyed (com d)" and "op_ok op"
  shows "effect pg_kept op (store_of (com d)) (store_of (com (perform (postgres_ops pg rc) E ctx op d))) \<and>
    keyed (com (perform (postgres_ops pg rc) E ctx op d))"
proof (cases op)
  case (CallsCreate user n)
  from pg_Create_fault [OF assms(1), of user d n "pgx_retry pg E ctx" rc] show ?thesis
    using assms(2)
    by (auto simp: room_inserts CallsCreate postgres_ops_def effect_def keyed_add)
next
  case (CallsCreateWithIdempotency user n key)
  from pg_CreateWithIdempotency_fault [OF assms(1), of user d n "pgx_retry pg E ctx" rc key] show ?thesis
    using assms(2)
    by (auto simp: room_inserts CallsCreateWithIdempotency postgres_ops_def effect_def keyed_add)
next
  case (CallsGet i)
  with assms(2) show ?thesis by (simp add: postgres_ops_def pg_reads_fault [OF assms(1)])
next
  case (CallsUpdate user)
  from pg_Update_fault [OF assms(1), of user d "pgx_retry pg E ctx" rc] show ?thesis
    using assms(2) by (auto simp: CallsUpdate postgres_ops_def effect_def overwritten_def store_add pg_kept_def keyed_add)
next
  case (CallsReadModifyUpdate i f)
  have ids: "\<forall>g u w. f = Some g \<longrightarrow> g u = Inr w \<longrightarrow> u_Id w = u_Id u"
    using assms(3) by (simp add: CallsReadModifyUpdate op_ok_def)
  from pg_ReadModifyUpdate_fault [OF assms(1,2) ids, where V = "pgx_retry pg E ctx" and cfg = rc and i = i] assms(2) rewritten_effect [OF _ assms(2)] show ?thesis
    by (auto simp: CallsReadModifyUpdate postgres_ops_def)
next
  case (CallsDelete i)
  with pg_Delete_fault [OF assms(1), of "pgx_retry pg E ctx" rc i d] assms(2) show ?thesis
    by (auto simp: postgres_ops_def effect_def store_add keyed_add)
next
  case (CallsList n a)
  with assms(2) show ?thesis by (simp add: postgres_ops_def pg_reads_fault [OF assms(1)])
next
  case CallsPing
  with assms(2) fault_pool(2) [OF assms(1) prod.collapse [symmetric]] show ?thesis
    by (simp add: postgres_ops_def pg_Ping_def split: option.split)
next
  case CallsClose
  with assms(2) fault_pool(3) [OF assms(1) prod.collapse [symmetric]] show ?thesis by (simp add: postgres_ops_def pg_Close_def)
qed

interpretation fb: steady_repository "backend_ops pg" "backend_tables com" "backend_sound pg com wrk" any_kept
  for pg com wrk
proof (unfold_locales, goal_cases)
  case (1 b)
  then show ?case by (auto simp: backend_sound_def backend_tables_def keyed_def mem.fin split: backend.splits)
next
  case (2 u v)
  then show ?case by (auto simp: any_kept_def pg_kept_same)
next
  case (3 b op E ctx)
  show ?case
  proof (cases b)
    case (MemoryBackend m)
    with mem.exact_step [of m op E ctx] effect_mono [of "(=)" op _ _ any_kept] 3 show ?thesis
      by (simp add: backend_ops_def perform_dispatch backend_methods_def perform_at_type backend_sound_def backend_tables_def any_kept_def)
  next
    case (PostgresBackend rc d)
    with postgres_step [of pg com wrk d op rc E ctx] effect_mono [of pg_kept op _ _ any_kept] 3 show ?thesis
      by (simp add: backend_ops_def perform_dispatch backend_methods_def perform_at_type backend_sound_def backend_tables_def any_kept_def)
  qed
qed

section \<open>The layers\<close>

interpretation fcb: layer "backend_ops pg" "backend_tables com" "backend_sound pg com wrk" any_kept
    "circuit_breaker_ops cb (backend_ops pg)" cb_inner for pg com wrk cb
  by unfold_locales (rule breaker_hands_down)

interpretation fca: layer "backend_ops pg" "backend_tables com" "backend_sound pg com wrk" any_kept
    "cache_ops (backend_ops pg)" ca_inner for pg com wrk
  by unfold_locales (rule cache_hands_down)

interpretation fcacb: layer "circuit_breaker_ops cb (backend_ops pg)" "\<lambda>r. backend_tables com (cb_inner r)"
    "\<lambda>r. backend_sound pg com wrk (cb_inner r)" any_kept "cache_ops (circuit_breaker_ops cb (backend_ops pg))" ca_inner
  for pg com wrk cb
  by unfold_locales (rule cache_hands_down)

text \<open>The backend behind the layers.\<close>

primrec innermost :: "'d repository \<Rightarrow> 'd backend" where
  "innermost (Plain b) = b"
| "innermost (Guarded cb) = cb_inner cb"
| "innermost (Cached c) = ca_inner c"
| "innermost (CachedGuarded c) = cb_inner (ca_inner c)"

interpretation fr: steady_repository "repository_ops pg cfg" "\<lambda>r. backend_tables com (innermost r)"
    "\<lambda>r. backend_sound pg com wrk (innermost r)" any_kept for pg cfg com wrk
proof (unfold_locales, goal_cases)
  case (3 r op E ctx)
  then show ?case
    using fb.step [of pg com wrk _ op E ctx] fcb.layered.step [of pg com wrk _ op _ E ctx] fca.layered.step [of pg com wrk _ op E ctx]
      fcacb.layered.step [of pg com wrk _ op _ E ctx]
    by (cases r) (simp_all add: repository_ops_def perform_dispatch repository_methods_def perform_at_type)
qed (simp_all add: fb.finite_store fb.kept_same)

interpretation fs: steady_service "repository_ops pg (cfg_Storage c)" "\<lambda>r. backend_tables com (innermost r)"
    "\<lambda>r. backend_sound pg com wrk (innermost r)" any_kept "configured_service pg c" for pg com wrk and c :: "'f Config"
  by unfold_locales (use normalize_limits_pos(2) [of "service_limits_of (cfg_Server c)"] in simp_all)

section \<open>Opening the repository\<close>

text \<open>The layers are put around the backend that was opened.\<close>

lemma openRepository_innermost:
  "openRepository pg cfg d = (Inr r, d') \<Longrightarrow> open_backend pg cfg d = (Inr (innermost r), d')"
  by (auto simp: openRepository_def NewCacheRepository_def NewCacheRepositoryWithLimit_def NewCircuitBreakerRepository_def
      split: prod.splits sum.splits if_splits)

lemma open_postgres:
  assumes "open_backend pg cfg d = (Inr b, d')" and "sg_Backend cfg = ''postgres''"
  shows "\<exists>rc. b = PostgresBackend rc d'"
  using assms by (auto simp: open_backend_def split: prod.splits sum.splits)

end
