(* ===== verification/Interleaving.thy ===== *)
theory Interleaving
  imports Main "HOL-Library.Sublist"
begin

text \<open>
  Goroutines that share one state. A computation returns or makes its next atomic step, the body of
  a critical section; between two steps the others may run. A schedule names the goroutine that
  moves next. The theory runs a pool of computations under a schedule and has the three arguments
  that the components use: an invariant kept by every step is kept by every schedule; a
  computation with one visible step is linearizable; a computation with a bounded number of steps
  ends whatever the others do.
\<close>

section \<open>Computations and schedules\<close>

datatype ('s, 'r) steps = Return 'r | Step "'s \<Rightarrow> 's" "'s \<Rightarrow> ('s, 'r) steps"

text \<open>A computation alone: all its steps in a row.\<close>

primrec run_steps :: "('s, 'r) steps \<Rightarrow> 's \<Rightarrow> 'r \<times> 's" where
  "run_steps (Return r) = (\<lambda>s. (r, s))"
| "run_steps (Step u k) = (\<lambda>s. run_steps (k s) (u s))"

primrec followed_by :: "('s, 'a) steps \<Rightarrow> ('a \<Rightarrow> ('s, 'b) steps) \<Rightarrow> ('s, 'b) steps" where
  "followed_by (Return r) g = g r"
| "followed_by (Step u k) g = Step u (\<lambda>s. followed_by (k s) g)"

definition with_result :: "('a \<Rightarrow> 'b) \<Rightarrow> ('s, 'a) steps \<Rightarrow> ('s, 'b) steps" where
  "with_result h p = followed_by p (\<lambda>r. Return (h r))"

text \<open>A computation on a part of a larger state.\<close>

primrec within :: "('c \<Rightarrow> 's) \<Rightarrow> ('s \<Rightarrow> 'c \<Rightarrow> 'c) \<Rightarrow> ('s, 'r) steps \<Rightarrow> ('c, 'r) steps" where
  "within get put (Return r) = Return r"
| "within get put (Step u k) = Step (\<lambda>c. put (u (get c)) c) (\<lambda>c. within get put (k (get c)))"

definition atomically :: "('s \<Rightarrow> 'r \<times> 's) \<Rightarrow> ('s, 'r) steps" where
  "atomically f = Step (\<lambda>s. snd (f s)) (\<lambda>s. Return (fst (f s)))"

text \<open>A turn of goroutine \<open>i\<close>; it does nothing when \<open>i\<close> has returned.\<close>

definition turn :: "nat \<Rightarrow> ('s, 'r) steps list \<times> 's \<Rightarrow> ('s, 'r) steps list \<times> 's" where
  "turn i c =
     (case c of (ps, s) \<Rightarrow>
        if i < length ps then (case ps ! i of Return r \<Rightarrow> (ps, s) | Step u k \<Rightarrow> (ps[i := k s], u s)) else (ps, s))"

definition interleave :: "nat list \<Rightarrow> ('s, 'r) steps list \<Rightarrow> 's \<Rightarrow> ('s, 'r) steps list \<times> 's" where
  "interleave w ps s = fold turn w (ps, s)"

lemma interleave_Nil [simp]: "interleave [] ps s = (ps, s)"
  by (simp add: interleave_def)

lemma interleave_snoc: "interleave (w @ [i]) ps s = turn i (interleave w ps s)"
  by (simp add: interleave_def)

lemma turn_cases:
  assumes "turn i (ps, s) = (ps', s')"
  obtains (idle) "ps' = ps" and "s' = s" and "i < length ps \<Longrightarrow> \<exists>r. ps ! i = Return r"
  | (moved) u k where "i < length ps" and "ps ! i = Step u k" and "ps' = ps[i := k s]" and "s' = u s"
  using assms by (auto simp: turn_def split: if_splits steps.splits)

lemma length_interleave [simp]: "length (fst (interleave w ps s)) = length ps"
proof (induction w rule: rev_induct)
  case (snoc i w)
  obtain ps1 s1 where c: "interleave w ps s = (ps1, s1)" by fastforce
  obtain ps2 s2 where "turn i (ps1, s1) = (ps2, s2)" by fastforce
  with snoc c show ?case by (auto simp: interleave_snoc elim!: turn_cases)
qed simp

lemma run_followed_by: "run_steps (followed_by p g) s = (case run_steps p s of (r, s') \<Rightarrow> run_steps (g r) s')"
  by (induction p arbitrary: s) simp_all

lemma run_with_result: "run_steps (with_result h p) s = apfst h (run_steps p s)"
  by (simp add: with_result_def run_followed_by split: prod.split)

lemma run_atomically [simp]: "run_steps (atomically f) s = f s"
  by (simp add: atomically_def)

lemma run_within:
  assumes "\<And>s c. get (put s c) = s" and "\<And>s t c. put t (put s c) = put t c" and "\<And>c. put (get c) c = c"
  shows "run_steps (within get put p) c = (case run_steps p (get c) of (r, s) \<Rightarrow> (r, put s c))"
  by (induction p arbitrary: c) (simp_all add: assms split: prod.split)

section \<open>Invariants\<close>

text \<open>Every step keeps \<open>I\<close> and the result satisfies \<open>Q\<close>, if the others keep \<open>I\<close> too.\<close>

primrec safe_steps :: "('s \<Rightarrow> bool) \<Rightarrow> ('r \<Rightarrow> bool) \<Rightarrow> ('s, 'r) steps \<Rightarrow> bool" where
  "safe_steps I Q (Return r) = Q r"
| "safe_steps I Q (Step u k) = (\<forall>s. I s \<longrightarrow> I (u s) \<and> safe_steps I Q (k s))"

lemma safe_followed_by:
  "safe_steps I Q p \<Longrightarrow> (\<And>r. Q r \<Longrightarrow> safe_steps I Q' (g r)) \<Longrightarrow> safe_steps I Q' (followed_by p g)"
  by (induction p) auto

lemma safe_with_result: "safe_steps I Q p \<Longrightarrow> (\<And>r. Q r \<Longrightarrow> Q' (h r)) \<Longrightarrow> safe_steps I Q' (with_result h p)"
  by (simp add: with_result_def safe_followed_by)

lemma safe_within:
  assumes "\<And>c. J c \<Longrightarrow> I (get c)" and "\<And>c s. J c \<Longrightarrow> I s \<Longrightarrow> J (put s c)"
  shows "safe_steps I Q p \<Longrightarrow> safe_steps J Q (within get put p)"
  by (induction p) (use assms in auto)

lemma safe_atomically: "(\<And>s. I s \<Longrightarrow> I (snd (f s)) \<and> Q (fst (f s))) \<Longrightarrow> safe_steps I Q (atomically f)"
  by (simp add: atomically_def)

theorem interleave_safe:
  assumes "\<forall>p \<in> set ps. safe_steps I Q p" and "I s"
  shows "I (snd (interleave w ps s)) \<and> (\<forall>p \<in> set (fst (interleave w ps s)). safe_steps I Q p)"
proof (induction w rule: rev_induct)
  case (snoc i w)
  obtain ps1 s1 where c: "interleave w ps s = (ps1, s1)" by fastforce
  obtain ps2 s2 where t: "turn i (ps1, s1) = (ps2, s2)" by fastforce
  from t show ?case
  proof (cases rule: turn_cases)
    case (moved u k)
    with snoc c have "safe_steps I Q (Step u k)" "I s1" by (metis nth_mem snd_conv fst_conv)+
    with snoc c moved t show ?thesis by (auto simp: interleave_snoc dest!: set_update_subset_insert [THEN subsetD])
  qed (use snoc c t in \<open>simp add: interleave_snoc\<close>)
qed (use assms in simp)

section \<open>Linearizability\<close>

text \<open>
  \<open>view\<close> is the part of the state that matters. A settled computation does not change it any more and
  returns \<open>r\<close>. A computation linearizes an operation if it either changes nothing and returns a
  refusal, or performs the operation in one of its steps and settles on its result.
\<close>

primrec settled :: "('s \<Rightarrow> 'v) \<Rightarrow> 'r \<Rightarrow> ('s, 'r) steps \<Rightarrow> bool" where
  "settled view r (Return r') = (r' = r)"
| "settled view r (Step u k) = (\<forall>s. view (u s) = view s \<and> settled view r (k s))"

primrec linearizes :: "('s \<Rightarrow> 'v) \<Rightarrow> ('r \<Rightarrow> bool) \<Rightarrow> ('v \<Rightarrow> 'r \<times> 'v) \<Rightarrow> ('s, 'r) steps \<Rightarrow> bool" where
  "linearizes view refused f (Return r) = refused r"
| "linearizes view refused f (Step u k) =
     (\<forall>s. view (u s) = view s \<and> linearizes view refused f (k s) \<or>
          (\<exists>r. f (view s) = (r, view (u s)) \<and> settled view r (k s)))"

lemma settled_followed_by:
  "settled view r p \<Longrightarrow> settled view r' (g r) \<Longrightarrow> settled view r' (followed_by p g)"
  by (induction p) auto

lemma settled_within:
  assumes "\<And>s c. get (put s c) = s"
  shows "settled view r p \<Longrightarrow> settled (\<lambda>c. view (get c)) r (within get put p)"
  by (induction p) (use assms in auto)

text \<open>What comes after an operation must not be visible: it maps the result and refuses on a refusal.\<close>

lemma linearizes_followed_by:
  assumes "linearizes view refused f p" and "\<And>r. settled view (h r) (g r)" and "\<And>r. refused r \<Longrightarrow> linearizes view refused' f' (g r)"
    and f': "\<And>v. f' v = apfst h (f v)"
  shows "linearizes view refused' f' (followed_by p g)"
  using assms(1)
proof (induction p)
  case (Step u k)
  show ?case
  proof (simp, rule allI)
    fix s
    from Step.prems consider "view (u s) = view s" "linearizes view refused f (k s)"
      | r where "f (view s) = (r, view (u s))" "settled view r (k s)" by auto
    then show "view (u s) = view s \<and> linearizes view refused' f' (followed_by (k s) g) \<or>
      (\<exists>r. f' (view s) = (r, view (u s)) \<and> settled view r (followed_by (k s) g))"
    proof cases
      case 1
      with Step.IH [OF rangeI] show ?thesis by blast
    next
      case (2 r)
      then have "f' (view s) = (h r, view (u s))" by (simp add: f')
      moreover have "settled view (h r) (followed_by (k s) g)" by (rule settled_followed_by [OF 2(2) assms(2)])
      ultimately show ?thesis by blast
    qed
  qed
qed (use assms(3) in simp)

lemma linearizes_with_result:
  assumes "linearizes view refused f p" and "\<And>r. refused r \<Longrightarrow> refused' (h r)" and "\<And>v. f' v = apfst h (f v)"
  shows "linearizes view refused' f' (with_result h p)"
  unfolding with_result_def by (rule linearizes_followed_by [OF assms(1)]) (simp_all add: assms(2,3))

lemma linearizes_refusal:
  "linearizes view refused f p \<Longrightarrow> (\<And>r. refused r \<Longrightarrow> refused' r) \<Longrightarrow> linearizes view refused' f p"
  by (induction p) (simp, fastforce)

lemma linearizes_within:
  assumes "\<And>s c. get (put s c) = s"
  shows "linearizes view refused f p \<Longrightarrow> linearizes (\<lambda>c. view (get c)) refused f (within get put p)"
proof (induction p)
  case (Step u k)
  show ?case unfolding within.simps linearizes.simps assms
  proof (rule allI)
    fix c
    from Step.prems consider "view (u (get c)) = view (get c)" "linearizes view refused f (k (get c))"
      | r where "f (view (get c)) = (r, view (u (get c)))" "settled view r (k (get c))" by auto
    then show "view (u (get c)) = view (get c) \<and> linearizes (\<lambda>c. view (get c)) refused f (within get put (k (get c))) \<or>
      (\<exists>r. f (view (get c)) = (r, view (u (get c))) \<and> settled (\<lambda>c. view (get c)) r (within get put (k (get c))))"
    proof cases
      case 1
      with Step.IH [OF rangeI] show ?thesis by blast
    next
      case (2 r)
      have "settled (\<lambda>c. view (get c)) r (within get put (k (get c)))" by (rule settled_within) (rule assms, rule 2(2))
      with 2(1) show ?thesis by blast
    qed
  qed
qed simp

lemma linearizes_atomically: "linearizes (\<lambda>s. s) refused f (atomically f)"
  by (auto simp: atomically_def)

text \<open>The operations one after the other in a given order, with the result of each.\<close>

primrec one_by_one :: "(nat \<Rightarrow> 'v \<Rightarrow> 'r \<times> 'v) \<Rightarrow> nat list \<Rightarrow> 'v \<Rightarrow> (nat \<Rightarrow> 'r option) \<times> 'v" where
  "one_by_one f [] v = (\<lambda>_. None, v)"
| "one_by_one f (i # order) v =
     (case f i v of (r, v') \<Rightarrow> (case one_by_one f order v' of (rs, v'') \<Rightarrow> (\<lambda>j. if j = i then Some r else rs j, v'')))"

lemma one_by_one_dom: "one_by_one f order v = (rs, v') \<Longrightarrow> dom rs = set order"
proof (induction order arbitrary: v rs)
  case (Cons i order)
  obtain r v1 where i: "f i v = (r, v1)" by fastforce
  obtain rs1 v2 where o: "one_by_one f order v1 = (rs1, v2)" by fastforce
  from i o Cons.prems have rs: "rs = rs1(i \<mapsto> r)" and "v2 = v'" by (auto simp: fun_eq_iff)
  with Cons.IH o have "dom rs1 = set order" by blast
  then show ?case unfolding rs dom_fun_upd by simp
qed auto

lemma one_by_one_snoc:
  assumes "i \<notin> set order" and "one_by_one f order v = (rs, v')" and "f i v' = (r, v'')"
  shows "one_by_one f (order @ [i]) v = (rs(i \<mapsto> r), v'')"
  using assms
proof (induction order arbitrary: v rs)
  case (Cons j order)
  obtain r1 v1 where 1: "f j v = (r1, v1)" by fastforce
  obtain rs1 v2 where 2: "one_by_one f order v1 = (rs1, v2)" by fastforce
  from Cons.prems 1 2 have "rs = (\<lambda>k. if k = j then Some r1 else rs1 k)" "v2 = v'" by simp_all
  with Cons.IH [of v1 rs1] Cons.prems 1 2 show ?case by (auto simp: fun_eq_iff)
qed (auto simp: fun_eq_iff)

text \<open>
  The state of a run: \<open>order\<close> are the goroutines that have performed their operation, in the order in
  which they did. The others have changed nothing yet.
\<close>

definition on_course :: "('s \<Rightarrow> 'v) \<Rightarrow> ('r \<Rightarrow> bool) \<Rightarrow> ('v \<Rightarrow> 'r \<times> 'v) \<Rightarrow> 'r option \<Rightarrow> ('s, 'r) steps \<Rightarrow> bool" where
  "on_course view refused f result p \<longleftrightarrow>
     (case result of None \<Rightarrow> linearizes view refused f p | Some r \<Rightarrow> settled view r p)"

definition linearized ::
  "('s \<Rightarrow> 'v) \<Rightarrow> (nat \<Rightarrow> 'r \<Rightarrow> bool) \<Rightarrow> (nat \<Rightarrow> 'v \<Rightarrow> 'r \<times> 'v) \<Rightarrow> 'v \<Rightarrow> nat list \<Rightarrow> ('s, 'r) steps list \<Rightarrow> 's \<Rightarrow> bool" where
  "linearized view refused f v order ps s \<longleftrightarrow>
     distinct order \<and> set order \<subseteq> {..<length ps} \<and>
     (\<exists>rs. one_by_one f order v = (rs, view s) \<and>
        (\<forall>i < length ps. on_course view (refused i) (f i) (rs i) (ps ! i)))"

lemma turn_linearized:
  assumes "linearized view refused f v order ps s" and "turn i (ps, s) = (ps', s')"
  shows "\<exists>order'. (order' = order \<or> order' = order @ [i]) \<and> linearized view refused f v order' ps' s'"
  using assms(2)
proof (cases rule: turn_cases)
  case idle
  with assms(1) show ?thesis by blast
next
  case (moved u k)
  from assms(1) obtain rs where dist: "distinct order" "set order \<subseteq> {..<length ps}" and o: "one_by_one f order v = (rs, view s)"
    and all: "\<And>j. j < length ps \<Longrightarrow> on_course view (refused j) (f j) (rs j) (ps ! j)"
    by (auto simp: linearized_def)
  show ?thesis
  proof (cases "view (u s) = view s \<and> on_course view (refused i) (f i) (rs i) (k s)")
    case True
    then have "linearized view refused f v order ps' s'"
      using dist o all moved by (auto simp: linearized_def nth_list_update)
    then show ?thesis by blast
  next
    case False
    with all [OF moved(1)] moved(2) have none: "rs i = None" by (auto simp: on_course_def split: option.splits)
    with False all [OF moved(1)] moved(2) obtain r where r: "f i (view s) = (r, view (u s))" "settled view r (k s)"
      by (auto simp: on_course_def)
    then have settled: "on_course view (refused i) (f i) (Some r) (k s)" by (simp add: on_course_def)
    have new: "i \<notin> set order" using one_by_one_dom [OF o] none by auto
    from one_by_one_snoc [OF new o r(1)] have "one_by_one f (order @ [i]) v = (rs(i \<mapsto> r), view (u s))" .
    then have "linearized view refused f v (order @ [i]) ps' s'"
      using dist new all moved settled by (auto simp: linearized_def nth_list_update)
    then show ?thesis by blast
  qed
qed

theorem interleave_linearizable:
  assumes "\<And>i. i < length ps \<Longrightarrow> linearizes view (refused i) (f i) (ps ! i)" and "interleave w ps s = (ps', s')"
  shows "\<exists>order. subseq order w \<and> linearized view refused f (view s) order ps' s'"
  using assms(2)
proof (induction w arbitrary: ps' s' rule: rev_induct)
  case Nil
  with assms(1) have "linearized view refused f (view s) [] ps' s'" by (auto simp: linearized_def on_course_def)
  then show ?case by blast
next
  case (snoc i w)
  obtain ps1 s1 where c: "interleave w ps s = (ps1, s1)" by fastforce
  from snoc.IH [OF c] obtain order where order: "subseq order w" "linearized view refused f (view s) order ps1 s1" by blast
  have "turn i (ps1, s1) = (ps', s')" using snoc.prems c by (simp add: interleave_snoc)
  from turn_linearized [OF order(2) this] obtain order' where
    o': "order' = order \<or> order' = order @ [i]" "linearized view refused f (view s) order' ps' s'" by blast
  from o'(1) order(1) have "subseq order' (w @ [i])" by (auto intro: list_emb_append2 list_emb_append_mono)
  with o'(2) show ?case by blast
qed

section \<open>Ending\<close>

primrec ends_within :: "('s, 'r) steps \<Rightarrow> nat \<Rightarrow> bool" where
  "ends_within (Return r) = (\<lambda>n. True)"
| "ends_within (Step u k) = (\<lambda>n. n > 0 \<and> (\<forall>s. ends_within (k s) (n - 1)))"

lemma ends_within_mono: "ends_within p n \<Longrightarrow> n \<le> m \<Longrightarrow> ends_within p m"
proof (induction p arbitrary: n m)
  case (Step u k)
  from Step.prems have "n > 0" "m > 0" "n - 1 \<le> m - 1" and k: "\<And>s. ends_within (k s) (n - 1)" by simp_all
  with Step.IH [OF rangeI k] show ?case by simp
qed simp

lemma ends_followed_by:
  "ends_within p n \<Longrightarrow> (\<And>r. ends_within (g r) m) \<Longrightarrow> ends_within (followed_by p g) (n + m)"
proof (induction p arbitrary: n)
  case (Return r)
  then have "ends_within (g r) m" by simp
  then show ?case by (simp add: ends_within_mono)
next
  case (Step u k)
  then obtain n' where n: "n = Suc n'" and k: "\<And>s. ends_within (k s) n'" by (cases n) auto
  from Step.IH [OF rangeI k Step.prems(2)] show ?case by (simp add: n)
qed

lemma ends_with_result: "ends_within p n \<Longrightarrow> ends_within (with_result h p) n"
  unfolding with_result_def using ends_followed_by [of p n "\<lambda>r. Return (h r)" 0] by simp

lemma ends_within_within [simp]: "ends_within p n \<Longrightarrow> ends_within (within get put p) n"
  by (induction p arbitrary: n) auto

lemma ends_atomically: "ends_within (atomically f) 1"
  by (simp add: atomically_def)

text \<open>A goroutine that ends within \<open>n\<close> steps has returned after \<open>n\<close> turns, whatever the others do.\<close>

theorem interleave_ends:
  assumes "i < length ps" and "ends_within (ps ! i) n" and "n \<le> count_list w i"
  shows "\<exists>r. fst (interleave w ps s) ! i = Return r"
proof -
  have "ends_within (fst (interleave w ps s) ! i) (n - count_list w i)"
  proof (induction w rule: rev_induct)
    case (snoc j w)
    obtain ps1 s1 where c: "interleave w ps s = (ps1, s1)" by fastforce
    have len: "length ps1 = length ps" using length_interleave [of w ps s] by (simp add: c)
    obtain ps2 s2 where t: "turn j (ps1, s1) = (ps2, s2)" by fastforce
    from t show ?case
    proof (cases rule: turn_cases)
      case idle
      show ?thesis
      proof (cases "j = i")
        case True
        with idle(3) assms(1) len obtain r where "ps1 ! i = Return r" by auto
        with c t idle show ?thesis by (simp add: interleave_snoc)
      qed (use snoc c t idle in \<open>simp add: interleave_snoc\<close>)
    next
      case (moved u k)
      with snoc c t len show ?thesis by (cases "j = i") (auto simp: interleave_snoc)
    qed
  qed (use assms(2) in simp)
  then have "ends_within (fst (interleave w ps s) ! i) 0" using assms(3) by simp
  then show ?thesis by (cases "fst (interleave w ps s) ! i") auto
qed

end
