(* ===== verification/Step_Repository.thy ===== *)
theory Step_Repository
  imports Interleaving Repository_Effects
begin

text \<open>
  The repositories of \<open>internal/storage\<close> as they run among other goroutines: every method is a
  computation whose steps are the critical sections of the code. The repository in memory holds its
  lock for a whole method. The circuit breaker locks in \<open>beforeCall\<close> and in \<open>afterCall\<close> and calls the
  inner repository between them; the cache locks in \<open>get\<close>, \<open>getStale\<close>, \<open>set\<close> and \<open>del\<close>. Run alone, these
  computations are the operations of \<open>Memory_Repository\<close>, \<open>Circuit_Breaker\<close> and \<open>Cache_Repository\<close>.
\<close>

section \<open>Repositories of computations\<close>

record 's StepRepository =
  st_Create :: "env \<Rightarrow> Context option \<Rightarrow> User option \<Rightarrow> int \<Rightarrow> ('s, go_error option) steps"
  st_CreateWithIdempotency :: "env \<Rightarrow> Context option \<Rightarrow> User option \<Rightarrow> int \<Rightarrow> string \<Rightarrow> ('s, (User \<times> bool) result) steps"
  st_Get :: "env \<Rightarrow> Context option \<Rightarrow> string \<Rightarrow> ('s, User result) steps"
  st_Update :: "env \<Rightarrow> Context option \<Rightarrow> User option \<Rightarrow> ('s, go_error option) steps"
  st_ReadModifyUpdate :: "env \<Rightarrow> Context option \<Rightarrow> string \<Rightarrow> ReadModifyUpdateFn option \<Rightarrow> ('s, User result) steps"
  st_Delete :: "env \<Rightarrow> Context option \<Rightarrow> string \<Rightarrow> ('s, go_error option) steps"
  st_List :: "env \<Rightarrow> Context option \<Rightarrow> int \<Rightarrow> string \<Rightarrow> ('s, (User list \<times> string) result) steps"
  st_Ping :: "env \<Rightarrow> Context option \<Rightarrow> ('s, go_error option) steps"
  st_Close :: "('s, go_error option) steps"

text \<open>A repository that holds its lock for the whole of each method.\<close>

definition locked_steps :: "'s Repository \<Rightarrow> 's StepRepository" where
  "locked_steps R =
     \<lparr>st_Create = \<lambda>E ctx user n. atomically (Create R E ctx user n),
      st_CreateWithIdempotency = \<lambda>E ctx user n key. atomically (CreateWithIdempotency R E ctx user n key),
      st_Get = \<lambda>E ctx i. atomically (Get R E ctx i),
      st_Update = \<lambda>E ctx user. atomically (Update R E ctx user),
      st_ReadModifyUpdate = \<lambda>E ctx i fn. atomically (ReadModifyUpdate R E ctx i fn),
      st_Delete = \<lambda>E ctx i. atomically (Delete R E ctx i),
      st_List = \<lambda>E ctx limit a. atomically (List R E ctx limit a),
      st_Ping = \<lambda>E ctx. atomically (Ping R E ctx),
      st_Close = atomically (Close R)\<rparr>"

definition memory_steps :: "MemoryRepository StepRepository" where
  "memory_steps = locked_steps memory_ops"

section \<open>The circuit breaker\<close>

abbreviation in_breaker :: "('s, 'r) steps \<Rightarrow> ('s CircuitBreakerRepository, 'r) steps" where
  "in_breaker \<equiv> within cb_inner (\<lambda>s cb. cb\<lparr>cb_inner := s\<rparr>)"

definition beforeCall_step ::
  "env \<Rightarrow> CircuitBreakerConfig \<Rightarrow> (go_error option \<Rightarrow> ('s CircuitBreakerRepository, 'r) steps) \<Rightarrow> ('s CircuitBreakerRepository, 'r) steps" where
  "beforeCall_step E cfg k =
     Step (\<lambda>cb. cb\<lparr>cb_brk := snd (beforeCall E cfg (cb_brk cb))\<rparr>) (\<lambda>cb. k (fst (beforeCall E cfg (cb_brk cb))))"

definition afterCall_step ::
  "env \<Rightarrow> CircuitBreakerConfig \<Rightarrow> go_error option \<Rightarrow> 'r \<Rightarrow> ('s CircuitBreakerRepository, 'r) steps" where
  "afterCall_step E cfg err r = Step (\<lambda>cb. cb\<lparr>cb_brk := afterCall E cfg err (cb_brk cb)\<rparr>) (\<lambda>_. Return r)"

definition guarded_steps ::
  "env \<Rightarrow> CircuitBreakerConfig \<Rightarrow> (go_error \<Rightarrow> 'r) \<Rightarrow> ('r \<Rightarrow> go_error option) \<Rightarrow> ('s, 'r) steps \<Rightarrow>
     ('s CircuitBreakerRepository, 'r) steps" where
  "guarded_steps E cfg fail errOf p =
     beforeCall_step E cfg (\<lambda>e.
       case e of
         Some err \<Rightarrow> Return (fail err)
       | None \<Rightarrow> followed_by (in_breaker p) (\<lambda>r. afterCall_step E cfg (errOf r) r))"

definition breaker_steps :: "CircuitBreakerConfig \<Rightarrow> 's StepRepository \<Rightarrow> 's CircuitBreakerRepository StepRepository" where
  "breaker_steps cfg S =
     \<lparr>st_Create = \<lambda>E ctx user n. guarded_steps E cfg Some (\<lambda>e. e) (st_Create S E ctx user n),
      st_CreateWithIdempotency = \<lambda>E ctx user n key. guarded_steps E cfg Inl err_of (st_CreateWithIdempotency S E ctx user n key),
      st_Get = \<lambda>E ctx i. guarded_steps E cfg Inl err_of (st_Get S E ctx i),
      st_Update = \<lambda>E ctx user. guarded_steps E cfg Some (\<lambda>e. e) (st_Update S E ctx user),
      st_ReadModifyUpdate = \<lambda>E ctx i fn. guarded_steps E cfg Inl err_of (st_ReadModifyUpdate S E ctx i fn),
      st_Delete = \<lambda>E ctx i. guarded_steps E cfg Some (\<lambda>e. e) (st_Delete S E ctx i),
      st_List = \<lambda>E ctx limit a. guarded_steps E cfg Inl err_of (st_List S E ctx limit a),
      st_Ping = \<lambda>E ctx. guarded_steps E cfg Some (\<lambda>e. e) (st_Ping S E ctx),
      st_Close = Step (\<lambda>cb. cb\<lparr>cb_brk := ResetForce (cb_brk cb)\<rparr>) (\<lambda>_. in_breaker (st_Close S))\<rparr>"

section \<open>The cache\<close>

abbreviation in_cache :: "('s, 'r) steps \<Rightarrow> ('s CacheRepository, 'r) steps" where
  "in_cache \<equiv> within ca_inner (\<lambda>s c. c\<lparr>ca_inner := s\<rparr>)"

text \<open>A read of the map under the read lock.\<close>

abbreviation read_cache :: "('s CacheRepository \<Rightarrow> ('s CacheRepository, 'r) steps) \<Rightarrow> ('s CacheRepository, 'r) steps" where
  "read_cache k \<equiv> Step (\<lambda>c. c) k"

definition stale_or_steps :: "string \<Rightarrow> go_error \<Rightarrow> ('s CacheRepository, User result) steps" where
  "stale_or_steps i err =
     read_cache (\<lambda>c. case cache_getStale i c of Some stale \<Rightarrow> Return (Inr stale) | None \<Rightarrow> Return (Inl err))"

definition cache_Get_steps :: "'s StepRepository \<Rightarrow> env \<Rightarrow> Context option \<Rightarrow> string \<Rightarrow> ('s CacheRepository, User result) steps" where
  "cache_Get_steps S E ctx i =
     read_cache (\<lambda>c. case cache_get E i c of
         Some u \<Rightarrow> Return (Inr u)
       | None \<Rightarrow> followed_by (in_cache (st_Get S E ctx i)) (\<lambda>r.
           case r of
             Inl err \<Rightarrow> if serves_stale err then stale_or_steps i err else Return (Inl err)
           | Inr u \<Rightarrow> Step (cache_set E i u) (\<lambda>_. Return (Inr u))))"

definition cache_Update_steps :: "'s StepRepository \<Rightarrow> env \<Rightarrow> Context option \<Rightarrow> User option \<Rightarrow> ('s CacheRepository, go_error option) steps" where
  "cache_Update_steps S E ctx user =
     followed_by (in_cache (st_Update S E ctx user)) (\<lambda>e.
       case e of
         None \<Rightarrow> Step (cache_del (case user of None \<Rightarrow> [] | Some u \<Rightarrow> u_Id u)) (\<lambda>_. Return None)
       | Some err \<Rightarrow> Return (Some err))"

definition cache_ReadModifyUpdate_steps ::
  "'s StepRepository \<Rightarrow> env \<Rightarrow> Context option \<Rightarrow> string \<Rightarrow> ReadModifyUpdateFn option \<Rightarrow> ('s CacheRepository, User result) steps" where
  "cache_ReadModifyUpdate_steps S E ctx i fn =
     followed_by (in_cache (st_ReadModifyUpdate S E ctx i fn)) (\<lambda>r.
       case r of
         Inr u \<Rightarrow> Step (cache_del i) (\<lambda>_. Return (Inr u))
       | Inl err \<Rightarrow> if errors_Is err ErrUnavailable then stale_or_steps i err else Return (Inl err))"

definition cache_Delete_steps :: "'s StepRepository \<Rightarrow> env \<Rightarrow> Context option \<Rightarrow> string \<Rightarrow> ('s CacheRepository, go_error option) steps" where
  "cache_Delete_steps S E ctx i =
     followed_by (in_cache (st_Delete S E ctx i)) (\<lambda>e.
       case e of None \<Rightarrow> Step (cache_del i) (\<lambda>_. Return None) | Some err \<Rightarrow> Return (Some err))"

definition cache_steps :: "'s StepRepository \<Rightarrow> 's CacheRepository StepRepository" where
  "cache_steps S =
     \<lparr>st_Create = \<lambda>E ctx user n. in_cache (st_Create S E ctx user n),
      st_CreateWithIdempotency = \<lambda>E ctx user n key. in_cache (st_CreateWithIdempotency S E ctx user n key),
      st_Get = cache_Get_steps S,
      st_Update = cache_Update_steps S,
      st_ReadModifyUpdate = cache_ReadModifyUpdate_steps S,
      st_Delete = cache_Delete_steps S,
      st_List = \<lambda>E ctx limit a. in_cache (st_List S E ctx limit a),
      st_Ping = \<lambda>E ctx. in_cache (st_Ping S E ctx),
      st_Close = in_cache (st_Close S)\<rparr>"

section \<open>Run alone\<close>

text \<open>The computations of \<open>S\<close>, run without interference, are the operations of \<open>R\<close>.\<close>

locale implements =
  fixes S :: "'s StepRepository" and R :: "'s Repository"
  assumes Create_run: "run_steps (st_Create S E ctx user n) s = Create R E ctx user n s"
    and CreateWithIdempotency_run: "run_steps (st_CreateWithIdempotency S E ctx user n key) s = CreateWithIdempotency R E ctx user n key s"
    and Get_run: "run_steps (st_Get S E ctx i) s = Get R E ctx i s"
    and Update_run: "run_steps (st_Update S E ctx user) s = Update R E ctx user s"
    and ReadModifyUpdate_run: "run_steps (st_ReadModifyUpdate S E ctx i fn) s = ReadModifyUpdate R E ctx i fn s"
    and Delete_run: "run_steps (st_Delete S E ctx i) s = Delete R E ctx i s"
    and List_run: "run_steps (st_List S E ctx limit a) s = List R E ctx limit a s"
    and Ping_run: "run_steps (st_Ping S E ctx) s = Ping R E ctx s"
    and Close_run: "run_steps (st_Close S) s = Close R s"
begin

lemma runs:
  "run_steps (st_Create S E ctx user n) = Create R E ctx user n"
  "run_steps (st_CreateWithIdempotency S E ctx user n key) = CreateWithIdempotency R E ctx user n key"
  "run_steps (st_Get S E ctx i) = Get R E ctx i"
  "run_steps (st_Update S E ctx user) = Update R E ctx user"
  "run_steps (st_ReadModifyUpdate S E ctx i fn) = ReadModifyUpdate R E ctx i fn"
  "run_steps (st_Delete S E ctx i) = Delete R E ctx i"
  "run_steps (st_List S E ctx limit a) = List R E ctx limit a"
  "run_steps (st_Ping S E ctx) = Ping R E ctx"
  "run_steps (st_Close S) = Close R"
  by (simp_all add: fun_eq_iff Create_run CreateWithIdempotency_run Get_run Update_run ReadModifyUpdate_run Delete_run
      List_run Ping_run Close_run)

end

lemma run_in_breaker: "run_steps (in_breaker p) cb = (case run_steps p (cb_inner cb) of (r, s) \<Rightarrow> (r, cb\<lparr>cb_inner := s\<rparr>))"
  by (rule run_within) simp_all

lemma run_in_cache: "run_steps (in_cache p) c = on_inner (run_steps p) c"
  by (subst run_within) (simp_all add: on_inner_def split: prod.split)

lemma run_guarded: "run_steps (guarded_steps E cfg fail errOf p) cb = guarded E cfg fail errOf (run_steps p) cb"
  by (simp add: guarded_steps_def beforeCall_step_def afterCall_step_def guarded_def run_followed_by run_in_breaker
      split: prod.split option.split)

lemma run_cache_calls:
  "run_steps (cache_Get_steps S E ctx i) c =
     (case cache_get E i c of Some u \<Rightarrow> (Inr u, c)
      | None \<Rightarrow> (case on_inner (run_steps (st_Get S E ctx i)) c of
             (Inl err, c') \<Rightarrow> if serves_stale err
               then (case cache_getStale i c' of Some stale \<Rightarrow> (Inr stale, c') | None \<Rightarrow> (Inl err, c')) else (Inl err, c')
           | (Inr u, c') \<Rightarrow> (Inr u, cache_set E i u c')))"
  "run_steps (cache_Update_steps S E ctx user) c =
     (case on_inner (run_steps (st_Update S E ctx user)) c of
        (None, c') \<Rightarrow> (None, cache_del (case user of None \<Rightarrow> [] | Some u \<Rightarrow> u_Id u) c') | (Some err, c') \<Rightarrow> (Some err, c'))"
  "run_steps (cache_ReadModifyUpdate_steps S E ctx i fn) c =
     (case on_inner (run_steps (st_ReadModifyUpdate S E ctx i fn)) c of
        (Inr u, c') \<Rightarrow> (Inr u, cache_del i c')
      | (Inl err, c') \<Rightarrow> if errors_Is err ErrUnavailable
          then (case cache_getStale i c' of Some stale \<Rightarrow> (Inr stale, c') | None \<Rightarrow> (Inl err, c')) else (Inl err, c'))"
  "run_steps (cache_Delete_steps S E ctx i) c =
     (case on_inner (run_steps (st_Delete S E ctx i)) c of (None, c') \<Rightarrow> (None, cache_del i c') | (Some err, c') \<Rightarrow> (Some err, c'))"
  by (simp_all add: cache_Get_steps_def cache_Update_steps_def cache_ReadModifyUpdate_steps_def cache_Delete_steps_def stale_or_steps_def
      run_followed_by run_in_cache split: prod.split option.split sum.split)

interpretation lr: implements "locked_steps R" R for R
  by unfold_locales (simp_all add: locked_steps_def)

locale breaker_implements = implements +
  fixes cfg :: CircuitBreakerConfig
begin

sublocale guarded: implements "breaker_steps cfg S" "circuit_breaker_ops cfg R"
  by unfold_locales (simp_all add: breaker_steps_def circuit_breaker_ops_def cb_op_defs run_guarded run_in_breaker runs
      split: prod.split)

end

locale cache_implements = implements
begin

sublocale cached: implements "cache_steps S" "cache_ops R"
  by unfold_locales (simp_all add: cache_steps_def cache_ops_def cache_Create_def run_in_cache run_cache_calls runs
      cache_Get_def cache_Update_def cache_ReadModifyUpdate_def cache_Delete_def cong: option.case_cong)

end

interpretation ms: implements memory_steps memory_ops
  unfolding memory_steps_def by (rule lr.implements_axioms)

interpretation cbs: breaker_implements memory_steps memory_ops cfg for cfg
  by unfold_locales

interpretation cas: cache_implements memory_steps memory_ops
  by unfold_locales

interpretation cacbs: cache_implements "breaker_steps cfg memory_steps" "circuit_breaker_ops cfg memory_ops" for cfg
  by unfold_locales

end
