(* ===== verification/Concurrent_Repository.thy ===== *)
theory Concurrent_Repository
  imports Step_Repository
begin

text \<open>
  What the repositories promise when many goroutines call them. Three contracts, each kept by the
  layers of the program: the calls linearize, that is they take effect one at a time at an instant
  between call and return; the calls of the service keep an invariant at every step; a call ends
  after a bounded number of its own steps, whatever the others do.
\<close>

section \<open>Linearizable repositories\<close>

definition refused_err :: "(go_error \<Rightarrow> bool) \<Rightarrow> go_error option \<Rightarrow> bool" where
  "refused_err refusal e \<longleftrightarrow> (\<exists>err. e = Some err \<and> refusal err)"

definition refused_result :: "(go_error \<Rightarrow> bool) \<Rightarrow> 'a result \<Rightarrow> bool" where
  "refused_result refusal r \<longleftrightarrow> (\<exists>err. r = Inl err \<and> refusal err)"

lemma refused_simps [simp]:
  "refused_err refusal (Some err) = refusal err" "\<not> refused_err refusal None"
  "refused_result refusal (Inl err) = refusal err" "\<not> refused_result refusal (Inr v)"
  by (simp_all add: refused_err_def refused_result_def)

text \<open>
  \<open>view\<close> is the state of the sequential repository \<open>R\<close> in the shared state. A call is either refused
  with an error of \<open>refusal\<close> and without effect, or it is the call of \<open>R\<close> in one instant.
\<close>

locale linear_repository =
  fixes S :: "'s StepRepository" and R :: "'v Repository" and view :: "'s \<Rightarrow> 'v" and refusal :: "go_error \<Rightarrow> bool"
  assumes Create_lin: "linearizes view (refused_err refusal) (Create R E ctx user n) (st_Create S E ctx user n)"
    and CreateWithIdempotency_lin: "linearizes view (refused_result refusal)
         (CreateWithIdempotency R E ctx user n key) (st_CreateWithIdempotency S E ctx user n key)"
    and Get_lin: "linearizes view (refused_result refusal) (Get R E ctx i) (st_Get S E ctx i)"
    and Update_lin: "linearizes view (refused_err refusal) (Update R E ctx user) (st_Update S E ctx user)"
    and ReadModifyUpdate_lin: "linearizes view (refused_result refusal)
         (ReadModifyUpdate R E ctx i fn) (st_ReadModifyUpdate S E ctx i fn)"
    and Delete_lin: "linearizes view (refused_err refusal) (Delete R E ctx i) (st_Delete S E ctx i)"
    and List_lin: "linearizes view (refused_result refusal) (List R E ctx limit a) (st_List S E ctx limit a)"
    and Ping_lin: "linearizes view (refused_err refusal) (Ping R E ctx) (st_Ping S E ctx)"
    and Close_lin: "linearizes view (refused_err refusal) (Close R) (st_Close S)"
begin

lemmas lins = Create_lin CreateWithIdempotency_lin Get_lin Update_lin ReadModifyUpdate_lin Delete_lin List_lin Ping_lin Close_lin

end

lemma beforeCall_refusal: "fst (beforeCall E cfg b) = Some err \<Longrightarrow> err = ErrCircuitOpen"
  by (auto simp: beforeCall_def split: CircuitBreakerState.splits if_splits)

text \<open>The breaker refuses with \<open>ErrCircuitOpen\<close>; otherwise it is invisible around the inner call.\<close>

lemma guarded_linearizes:
  assumes "linearizes view refused f p" and "\<And>r. refused r \<Longrightarrow> refused' r" and "refused' (fail ErrCircuitOpen)"
  shows "linearizes (\<lambda>cb. view (cb_inner cb)) refused' f (guarded_steps E cfg fail errOf p)"
proof -
  have inner: "linearizes (\<lambda>cb. view (cb_inner cb)) refused f (in_breaker p)" by (rule linearizes_within) (simp, rule assms(1))
  have "linearizes (\<lambda>cb. view (cb_inner cb)) refused' f (followed_by (in_breaker p) (\<lambda>r. afterCall_step E cfg (errOf r) r))"
    by (rule linearizes_followed_by [OF inner, where h = "\<lambda>r. r"]) (auto simp: afterCall_step_def apfst_def map_prod_def assms(2))
  moreover have "refused' (fail err)" if "fst (beforeCall E cfg b) = Some err" for b err
    using beforeCall_refusal [OF that] assms(3) by simp
  ultimately show ?thesis by (simp add: guarded_steps_def beforeCall_step_def split: option.split)
qed

locale breaker_linear = linear_repository +
  fixes cfg :: CircuitBreakerConfig
begin

lemma guarded_Close:
  "linearizes (\<lambda>cb. view (cb_inner cb)) (refused_err (\<lambda>err. refusal err \<or> err = ErrCircuitOpen)) (Close R) (in_breaker (st_Close S))"
  by (rule linearizes_refusal [where refused = "refused_err refusal"], rule linearizes_within, simp, rule lins)
    (auto simp: refused_err_def)

sublocale guarded: linear_repository "breaker_steps cfg S" R "\<lambda>cb. view (cb_inner cb)" "\<lambda>err. refusal err \<or> err = ErrCircuitOpen"
  by unfold_locales (simp_all add: breaker_steps_def guarded_Close, (rule guarded_linearizes, rule lins; auto simp: refused_err_def refused_result_def)+)

end

interpretation lml: linear_repository memory_steps memory_ops "\<lambda>s. s" "\<lambda>_. False"
  by unfold_locales (simp_all add: memory_steps_def locked_steps_def linearizes_atomically)

interpretation lbl: breaker_linear memory_steps memory_ops "\<lambda>s. s" "\<lambda>_. False" cfg for cfg
  by unfold_locales

section \<open>Repositories whose calls end\<close>

locale bounded_repository =
  fixes S :: "'s StepRepository" and n :: nat
  assumes Create_ends: "ends_within (st_Create S E ctx user m) n"
    and CreateWithIdempotency_ends: "ends_within (st_CreateWithIdempotency S E ctx user m key) n"
    and Get_ends: "ends_within (st_Get S E ctx i) n"
    and Update_ends: "ends_within (st_Update S E ctx user) n"
    and ReadModifyUpdate_ends: "ends_within (st_ReadModifyUpdate S E ctx i fn) n"
    and Delete_ends: "ends_within (st_Delete S E ctx i) n"
    and List_ends: "ends_within (st_List S E ctx limit a) n"
    and Ping_ends: "ends_within (st_Ping S E ctx) n"
    and Close_ends: "ends_within (st_Close S) n"
begin

lemmas ends = Create_ends CreateWithIdempotency_ends Get_ends Update_ends ReadModifyUpdate_ends Delete_ends List_ends Ping_ends Close_ends
lemmas ends_more = ends [THEN ends_within_within, THEN ends_within_mono]

end

lemma guarded_ends: "ends_within p n \<Longrightarrow> ends_within (guarded_steps E cfg fail errOf p) (n + 2)"
  using ends_followed_by [of "in_breaker p" n "\<lambda>r. afterCall_step E cfg (errOf r) r" 1]
  by (auto simp: guarded_steps_def beforeCall_step_def afterCall_step_def split: option.split)

lemma cached_ends:
  assumes "ends_within p n" and "\<And>r. ends_within (g r) 1"
  shows "ends_within (followed_by (in_cache p) g) (n + 1)"
  using ends_followed_by [of "in_cache p" n g 1] assms by simp

locale breaker_bounded = bounded_repository +
  fixes cfg :: CircuitBreakerConfig
begin

sublocale guarded: bounded_repository "breaker_steps cfg S" "n + 2"
  by unfold_locales (simp_all add: breaker_steps_def guarded_ends [simplified] ends ends_more)

end

locale cache_bounded_steps = bounded_repository
begin

lemma cached_calls:
  "ends_within (cache_Get_steps S E ctx i) (n + 2)" "ends_within (cache_Update_steps S E ctx user) (n + 1)"
  "ends_within (cache_ReadModifyUpdate_steps S E ctx i fn) (n + 1)" "ends_within (cache_Delete_steps S E ctx i) (n + 1)"
  unfolding cache_Get_steps_def cache_Update_steps_def cache_ReadModifyUpdate_steps_def cache_Delete_steps_def
  by (auto intro!: cached_ends [simplified] ends simp: stale_or_steps_def split: option.split sum.split)

sublocale cached: bounded_repository "cache_steps S" "n + 2"
  by unfold_locales
    (auto simp: cache_steps_def intro: cached_calls [THEN ends_within_mono] ends_more)

end

interpretation bm: bounded_repository memory_steps 1
  by unfold_locales (simp_all add: memory_steps_def locked_steps_def ends_atomically [simplified])

interpretation bb: breaker_bounded memory_steps 1 cfg for cfg
  by unfold_locales

lemma breaker_bounded_memory: "bounded_repository (breaker_steps cfg memory_steps) 3"
  using bb.guarded.bounded_repository_axioms by (simp add: numeral_3_eq_3)

interpretation bcs: cache_bounded_steps "breaker_steps cfg memory_steps" 3 for cfg
  by (rule cache_bounded_steps.intro) (rule breaker_bounded_memory)

section \<open>Repositories that keep an invariant\<close>

definition gives_user :: "'b UserService \<Rightarrow> string \<Rightarrow> User result \<Rightarrow> bool" where
  "gives_user svc i r \<longleftrightarrow> (\<forall>u. r = Inr u \<longrightarrow> user_ok svc i u)"

definition own_id_ok :: "'b UserService \<Rightarrow> User \<Rightarrow> bool" where
  "own_id_ok svc u \<longleftrightarrow> user_ok svc (u_Id u) u"

lemma user_ok_own: "user_ok svc i u \<Longrightarrow> own_id_ok svc u"
  by (auto simp: own_id_ok_def user_ok_def)

lemma gives_user_simps [simp]: "gives_user svc i (Inr u) = user_ok svc i u" "gives_user svc i (Inl err)"
  by (simp_all add: gives_user_def)

text \<open>
  The calls the service makes keep the invariant \<open>I\<close> of the shared state at every step and return
  users that the service may have stored, whatever other goroutines that keep \<open>I\<close> do in between.
\<close>

locale safe_calls =
  fixes S :: "'s StepRepository" and I :: "'s \<Rightarrow> bool" and svc :: "'b UserService"
  assumes CreateWithIdempotency_safe: "admissible svc (CallsCreateWithIdempotency user n key) \<Longrightarrow>
      safe_steps I (pred_sum (\<lambda>_. True) (\<lambda>r. own_id_ok svc (fst r))) (st_CreateWithIdempotency S E ctx user n key)"
    and Get_safe: "safe_steps I (gives_user svc i) (st_Get S E ctx i)"
    and ReadModifyUpdate_safe: "admissible svc (CallsReadModifyUpdate i fn) \<Longrightarrow>
      safe_steps I (gives_user svc i) (st_ReadModifyUpdate S E ctx i fn)"
    and Delete_safe: "safe_steps I (\<lambda>_. True) (st_Delete S E ctx i)"
    and List_safe: "safe_steps I (pred_sum (\<lambda>_. True) (\<lambda>r. list_all (own_id_ok svc) (fst r))) (st_List S E ctx limit a)"

subsection \<open>In memory\<close>

definition memory_safe :: "'b UserService \<Rightarrow> MemoryRepository \<Rightarrow> bool" where
  "memory_safe svc s \<longleftrightarrow> mem_inv s \<and> store_ok svc (mem_abs s)"

lemma memory_safe_step:
  assumes "memory_safe svc s" and "admissible svc op"
  shows "memory_safe svc (perform memory_ops E ctx op s)"
  using assms mem.exact_step [of s op E ctx] effect_store_ok [of "(=)" op "mem_abs s" _ svc] mem.fin
  by (auto simp: memory_safe_def)

lemma store_ok_user: "store_ok svc m \<Longrightarrow> m i = Some u \<Longrightarrow> user_ok svc i u"
  by (simp add: store_ok_def)

lemma page_users:
  assumes "finite (dom m)" and "store_ok svc m"
  shows "list_all (own_id_ok svc) (fst (page_of m n a))"
proof -
  have "own_id_ok svc (the (m i))" if "i \<in> set (take n (ids_after m a))" for i
    using in_set_takeD [OF that] set_ids_after [OF assms(1)] store_ok_user [OF assms(2)] user_ok_own by fastforce
  then show ?thesis by (simp add: page_of_def Let_def list_all_iff)
qed

lemma memory_results:
  assumes "memory_safe svc s"
  shows "gives_user svc i (fst (Get memory_ops E ctx i s))"
    and "admissible svc (CallsCreateWithIdempotency user n key) \<Longrightarrow>
      pred_sum (\<lambda>_. True) (\<lambda>r. own_id_ok svc (fst r)) (fst (CreateWithIdempotency memory_ops E ctx user n key s))"
    and "admissible svc (CallsReadModifyUpdate i fn) \<Longrightarrow> gives_user svc i (fst (ReadModifyUpdate memory_ops E ctx i fn s))"
    and "pred_sum (\<lambda>_. True) (\<lambda>r. list_all (own_id_ok svc) (fst r)) (fst (List memory_ops E ctx limit a s))"
proof -
  have s: "mem_inv s" "store_ok svc (mem_abs s)" using assms by (simp_all add: memory_safe_def)
  note user = store_ok_user [OF s(2)]
  from mem.Get_ok [OF s(1) prod.collapse [symmetric], where E = E and ctx = ctx and i = i] user
  show "gives_user svc i (fst (Get memory_ops E ctx i s))" by (auto simp: gives_user_def spec_Get_def)
  from mem.List_ok [OF s(1) prod.collapse [symmetric], where E = E and ctx = ctx and limit = limit and after = a] page_users [OF mem.fin [OF s(1)] s(2)]
  show "pred_sum (\<lambda>_. True) (\<lambda>r. list_all (own_id_ok svc) (fst r)) (fst (List memory_ops E ctx limit a s))"
    by (auto simp: spec_List_def split: sum.splits)
  show "pred_sum (\<lambda>_. True) (\<lambda>r. own_id_ok svc (fst r)) (fst (CreateWithIdempotency memory_ops E ctx user n key s))"
    if op: "admissible svc (CallsCreateWithIdempotency user n key)"
  proof (cases "fst (CreateWithIdempotency memory_ops E ctx user n key s)")
    case (Inr r)
    obtain v b where r: "r = (v, b)" by fastforce
    from mem.CreateWithIdempotency_ok [OF s(1) prod.collapse [symmetric], where E = E and ctx = ctx and user = user and n = n and key = key]
    have "v \<in> ran (mem_abs s) \<or> user = Some v" unfolding Inr r spec_CreateWithIdempotency_def by (cases b) auto
    with op user have "own_id_ok svc v" by (auto simp: ran_def admissible_def own_id_ok_def intro: user_ok_own [unfolded own_id_ok_def])
    then show ?thesis by (simp add: Inr r)
  qed simp
  show "gives_user svc i (fst (ReadModifyUpdate memory_ops E ctx i fn s))" if op: "admissible svc (CallsReadModifyUpdate i fn)"
    using mem.ReadModifyUpdate_ok [OF s(1) prod.collapse [symmetric], where E = E and ctx = ctx and i = i and mutate = fn] op user
    by (auto simp: gives_user_def spec_ReadModifyUpdate_def admissible_def)
qed

lemmas memory_keeps =
  memory_safe_step [OF _ admissible_reads(1), simplified] memory_safe_step [OF _ admissible_reads(2), simplified]
  memory_safe_step [OF _ admissible_reads(3), simplified] memory_safe_step [where op = "CallsCreateWithIdempotency _ _ _", simplified]
  memory_safe_step [where op = "CallsReadModifyUpdate _ _", simplified]

interpretation sm: safe_calls memory_steps "memory_safe svc" svc for svc
  by unfold_locales
    (auto simp: memory_steps_def locked_steps_def intro!: safe_atomically intro: memory_results memory_keeps)

subsection \<open>Behind the circuit breaker\<close>

definition breaker_safe :: "CircuitBreakerConfig \<Rightarrow> ('s \<Rightarrow> bool) \<Rightarrow> 's CircuitBreakerRepository \<Rightarrow> bool" where
  "breaker_safe cfg I cb \<longleftrightarrow> I (cb_inner cb) \<and> cb_inv cfg (cb_brk cb)"

lemma guarded_safe:
  assumes "cb_cfg_ok cfg" and "safe_steps I Q p" and "\<And>err. Q (fail err)"
  shows "safe_steps (breaker_safe cfg I) Q (guarded_steps E cfg fail errOf p)"
proof -
  have "safe_steps (breaker_safe cfg I) Q (in_breaker p)"
    by (rule safe_within [OF _ _ assms(2)]) (simp_all add: breaker_safe_def)
  then have "safe_steps (breaker_safe cfg I) Q (followed_by (in_breaker p) (\<lambda>r. afterCall_step E cfg (errOf r) r))"
    by (rule safe_followed_by) (simp add: afterCall_step_def breaker_safe_def afterCall_inv [OF assms(1)])
  moreover have "cb_inv cfg (snd (beforeCall E cfg b))" if "cb_inv cfg b" for b
    using beforeCall_inv [OF assms(1) that prod.collapse [symmetric]] .
  ultimately show ?thesis
    by (auto simp: guarded_steps_def beforeCall_step_def breaker_safe_def assms(3) split: option.split)
qed

locale breaker_safe_calls = safe_calls +
  fixes cfg :: CircuitBreakerConfig
  assumes cfg_ok: "cb_cfg_ok cfg"
begin

sublocale guarded: safe_calls "breaker_steps cfg S" "breaker_safe cfg I" svc
  by unfold_locales (auto simp: breaker_steps_def intro!: guarded_safe cfg_ok
      CreateWithIdempotency_safe Get_safe ReadModifyUpdate_safe Delete_safe List_safe)

end

subsection \<open>Behind the cache\<close>

definition cache_safe :: "'b UserService \<Rightarrow> int \<Rightarrow> ('s \<Rightarrow> bool) \<Rightarrow> 's CacheRepository \<Rightarrow> bool" where
  "cache_safe svc n I c \<longleftrightarrow> I (ca_inner c) \<and> cache_inv c \<and> maxEntries c = n \<and>
     (\<forall>k e. mget (ca_m c) k = Some e \<longrightarrow> user_ok svc k (ce_user e))"

lemma cache_safe_set:
  assumes "cache_safe svc n I c" and "user_ok svc k u"
  shows "cache_safe svc n I (cache_set E k u c)"
proof -
  have inv: "cache_inv c" and ok: "gomap_ok (ca_m c)" using assms(1) by (simp_all add: cache_safe_def cache_inv_def)
  have "k \<noteq> []" using assms(2) by (simp add: user_ok_def)
  from cache_set_inv [OF inv this] have "cache_inv (cache_set E k u c)" .
  moreover have "user_ok svc j (ce_user e)" if "mget (ca_m (cache_set E k u c)) j = Some e" for j e
    using that assms evictLocked_entry [OF ok, of E j e]
    by (auto simp: cache_set_def Let_def cache_safe_def gomap_simps split: if_splits)
  moreover have "maxEntries (cache_set E k u c) = maxEntries c" "ca_inner (cache_set E k u c) = ca_inner c"
    by (simp_all add: cache_set_def Let_def)
  ultimately show ?thesis using assms(1) by (simp add: cache_safe_def)
qed

lemma cache_safe_del: "cache_safe svc n I c \<Longrightarrow> cache_safe svc n I (cache_del k c)"
  using cache_del_inv [of c k] by (auto simp: cache_safe_def cache_del_def cache_inv_def gomap_simps split: if_splits)

lemma cache_safe_entries: "cache_safe svc n I c \<Longrightarrow> cache_get E i c = Some u \<Longrightarrow> user_ok svc i u"
  "cache_safe svc n I c \<Longrightarrow> cache_getStale i c = Some u \<Longrightarrow> user_ok svc i u"
  using cache_get_entry [of E i c u] cache_getStale_entry [of i c u] by (auto simp: cache_safe_def)

lemma cached_inner_safe: "safe_steps I Q p \<Longrightarrow> safe_steps (cache_safe svc n I) Q (in_cache p)"
  by (rule safe_within) (auto simp: cache_safe_def)

lemma stale_safe: "safe_steps (cache_safe svc n I) (gives_user svc i) (stale_or_steps i err)"
  by (auto simp: stale_or_steps_def split: option.split dest: cache_safe_entries(2))

locale cache_safe_calls = safe_calls
begin

lemma cache_Get_safe: "safe_steps (cache_safe svc n I) (gives_user svc i) (cache_Get_steps S E ctx i)"
proof -
  have "safe_steps (cache_safe svc n I) (gives_user svc i) (followed_by (in_cache (st_Get S E ctx i)) (\<lambda>r.
           case r of Inl err \<Rightarrow> if serves_stale err then stale_or_steps i err else Return (Inl err)
           | Inr u \<Rightarrow> Step (cache_set E i u) (\<lambda>_. Return (Inr u))))"
    by (rule safe_followed_by [OF cached_inner_safe [OF Get_safe]])
      (auto split: sum.split intro: cache_safe_set stale_safe)
  then show ?thesis by (auto simp: cache_Get_steps_def split: option.split dest: cache_safe_entries(1))
qed

sublocale cached: safe_calls "cache_steps S" "cache_safe svc n I" svc for n
proof (unfold_locales, goal_cases)
  case (1 user m key E ctx)
  from cached_inner_safe [OF CreateWithIdempotency_safe [OF 1]] show ?case by (simp add: cache_steps_def)
next
  case 2
  show ?case by (simp add: cache_steps_def cache_Get_safe)
next
  case (3 i fn E ctx)
  show ?case unfolding cache_steps_def StepRepository.simps cache_ReadModifyUpdate_steps_def
    by (rule safe_followed_by [OF cached_inner_safe [OF ReadModifyUpdate_safe [OF 3]]])
      (auto split: sum.split intro: cache_safe_del stale_safe)
next
  case (4 E ctx i)
  show ?case unfolding cache_steps_def StepRepository.simps cache_Delete_steps_def
    by (rule safe_followed_by [OF cached_inner_safe [OF Delete_safe]]) (auto split: option.split intro: cache_safe_del)
next
  case 5
  show ?case using cached_inner_safe [OF List_safe] by (simp add: cache_steps_def)
qed

end

interpretation sb: breaker_safe_calls memory_steps "memory_safe svc" svc "cb_config cfg" for svc cfg
  by unfold_locales (rule cb_config_ok)

interpretation sc: cache_safe_calls "breaker_steps (cb_config cfg) memory_steps" "breaker_safe (cb_config cfg) (memory_safe svc)" svc
  for svc cfg
  by unfold_locales

end
