(* ===== verification/Concurrent_Service.thy ===== *)
theory Concurrent_Service
  imports Concurrent_Repository Service_Rpc
begin

text \<open>
  The service as gRPC runs it: one goroutine per request, all of them over one repository. The
  handlers of \<open>internal/service/user.go\<close> are computations; what they do outside the repository touches
  nothing shared, so their steps are those of the one call they make. Run alone they are the
  handlers of \<open>User_Service\<close>. The theorems are about any requests under any schedule.
\<close>

section \<open>Handlers\<close>

abbreviation storage_result :: "'a result \<Rightarrow> 'a result" where
  "storage_result \<equiv> map_sum mapStorageError (\<lambda>v. v)"

definition GetUser_steps where
  "GetUser_steps S E ctx req =
     (case validateContext ctx of
        Some err \<Rightarrow> Return (Inl err)
      | None \<Rightarrow>
          (case req of
             None \<Rightarrow> Return (Inl id_required)
           | Some q \<Rightarrow>
               if blank (gr_Id q) then Return (Inl id_required)
               else case S of
                      None \<Rightarrow> Return (Inl (mapStorageError ErrUnavailable))
                    | Some repository \<Rightarrow> with_result storage_result (st_Get repository E ctx (gr_Id q))))"

definition ListUsers_steps where
  "ListUsers_steps S E ctx req =
     (case validateContext ctx of
        Some err \<Rightarrow> Return (Inl err)
      | None \<Rightarrow>
          (case req of
             None \<Rightarrow> Return (Inl request_required)
           | Some q \<Rightarrow>
               (case S of
                  None \<Rightarrow> Return (Inl (mapStorageError ErrUnavailable))
                | Some repository \<Rightarrow>
                    (case decodePageToken (lr_PageToken q) of
                       None \<Rightarrow> Return (Inl (AppErr (WithField ''page_token'' ''is not a valid continuation token''
                          (WithReason ''FIELD_INVALID'' (appErrInvalidArgument ''invalid page_token'')))))
                     | Some afterID \<Rightarrow>
                         with_result (map_sum mapStorageError (\<lambda>(us, next). \<lparr>lu_Users = us, lu_NextPageToken = encodePageToken next\<rparr>))
                           (st_List repository E ctx (page_size (lr_PageSize q)) afterID)))))"

definition CreateUser_steps where
  "CreateUser_steps ParseAddress svc S E ctx req =
     (case validateContext ctx of
        Some err \<Rightarrow> Return (Inl err)
      | None \<Rightarrow>
          (case req of
             None \<Rightarrow> Return (Inl request_required)
           | Some q \<Rightarrow>
               (case validateUserFields ParseAddress (cr_Name q) (cr_Email q) (cr_Age q) (maxStringBytes svc) of
                  Inl err \<Rightarrow> Return (Inl err)
                | Inr (name, email) \<Rightarrow>
                    (case validateOptionalText (cr_IdempotencyKey q) (maxStringBytes svc) ''idempotency_key'' of
                       Some err \<Rightarrow> Return (Inl err)
                     | None \<Rightarrow>
                         (case newID E ''user'' of
                            None \<Rightarrow> Return (Inl (AppErr (appErrInternal ''could not allocate user id'')))
                          | Some i \<Rightarrow>
                              (let now = timestamp_of (clk E HandlerNow);
                                   user = \<lparr>u_Id = i, u_Name = name, u_Email = email, u_Age = cr_Age q,
                                           u_CreatedAt = Some now, u_UpdatedAt = Some now\<rparr>
                               in case S of
                                    None \<Rightarrow> Return (Inl (mapStorageError ErrUnavailable))
                                  | Some repository \<Rightarrow>
                                      with_result (map_sum mapStorageError fst)
                                        (st_CreateWithIdempotency repository E ctx (Some user) (maxUsers svc)
                                           (cr_IdempotencyKey q))))))))"

definition UpdateUser_steps where
  "UpdateUser_steps ParseAddress svc S E ctx req =
     (case validateContext ctx of
        Some err \<Rightarrow> Return (Inl err)
      | None \<Rightarrow>
          (case req of
             None \<Rightarrow> Return (Inl id_required)
           | Some q \<Rightarrow>
               if blank (ur_Id q) then Return (Inl id_required)
               else
                 (case S of
                    None \<Rightarrow> Return (Inl (mapStorageError ErrUnavailable))
                  | Some repository \<Rightarrow>
                      (case validateOptionalText (ur_Name q) (maxStringBytes svc) ''name'' of
                         Some err \<Rightarrow> Return (Inl err)
                       | None \<Rightarrow>
                           (case validateOptionalText (ur_Email q) (maxStringBytes svc) ''email'' of
                              Some err \<Rightarrow> Return (Inl err)
                            | None \<Rightarrow>
                                if ur_Email q \<noteq> [] \<and> isl (parseEmail ParseAddress (ur_Email q))
                                then Return (Inl (AppErr (appErrInvalidArgument ''email is invalid'')))
                                else if ur_Age q < 0 \<or> ur_Age q > 150
                                then Return (Inl (AppErr (appErrInvalidArgument ''age must be between 0 and 150'')))
                                else with_result storage_result
                                       (st_ReadModifyUpdate repository E ctx (ur_Id q)
                                          (Some (\<lambda>current. Inr (apply_update E q current)))))))))"

definition DeleteUser_steps where
  "DeleteUser_steps S E ctx req =
     (case validateContext ctx of
        Some err \<Rightarrow> Return (Some err)
      | None \<Rightarrow>
          (case req of
             None \<Rightarrow> Return (Some id_required)
           | Some q \<Rightarrow>
               if blank (dr_Id q) then Return (Some id_required)
               else case S of
                      None \<Rightarrow> Return (Some (mapStorageError ErrUnavailable))
                    | Some repository \<Rightarrow> with_result (map_option mapStorageError) (st_Delete repository E ctx (dr_Id q))))"

lemmas handler_steps = GetUser_steps_def ListUsers_steps_def CreateUser_steps_def UpdateUser_steps_def DeleteUser_steps_def

definition deleted_reply :: "go_error option \<Rightarrow> reply result" where
  "deleted_reply e = (case e of None \<Rightarrow> Inr EmptyReply | Some err \<Rightarrow> Inl err)"

fun UserServiceServer_steps ::
  "(string \<Rightarrow> string option) \<Rightarrow> 'b UserService \<Rightarrow> 's StepRepository option \<Rightarrow> env \<Rightarrow> Context option \<Rightarrow> unary_call \<Rightarrow>
     ('s, reply result) steps" where
  "UserServiceServer_steps P svc S E ctx (CallGet q) = with_result (map_sum (\<lambda>e. e) UserReply) (GetUser_steps S E ctx q)"
| "UserServiceServer_steps P svc S E ctx (CallList q) = with_result (map_sum (\<lambda>e. e) UsersReply) (ListUsers_steps S E ctx q)"
| "UserServiceServer_steps P svc S E ctx (CallCreate q) = with_result (map_sum (\<lambda>e. e) UserReply) (CreateUser_steps P svc S E ctx q)"
| "UserServiceServer_steps P svc S E ctx (CallUpdate q) = with_result (map_sum (\<lambda>e. e) UserReply) (UpdateUser_steps P svc S E ctx q)"
| "UserServiceServer_steps P svc S E ctx (CallDelete q) = with_result deleted_reply (DeleteUser_steps S E ctx q)"

section \<open>Run alone\<close>

lemma mapped_apfst: "mapped p = apfst storage_result p"
  by (simp add: mapped_def apfst_def map_prod_def split: prod.split sum.split)

lemma ListUsers_result:
  "(case p of (Inl err, s') \<Rightarrow> (Inl (mapStorageError err), s')
    | (Inr (us, next), s') \<Rightarrow> (Inr \<lparr>lu_Users = us, lu_NextPageToken = encodePageToken next\<rparr>, s')) =
   apfst (map_sum mapStorageError (\<lambda>(us, next). \<lparr>lu_Users = us, lu_NextPageToken = encodePageToken next\<rparr>)) p"
  by (simp split: prod.split sum.split)

lemma CreateUser_result:
  "(case p of (Inl err, s') \<Rightarrow> (Inl (mapStorageError err), s') | (Inr (stored, _), s') \<Rightarrow> (Inr stored, s')) =
   apfst (map_sum mapStorageError fst) p"
  by (simp split: prod.split sum.split)

lemma DeleteUser_result:
  "(case p of (Some err, s') \<Rightarrow> (Some (mapStorageError err), s') | (None, s') \<Rightarrow> (None, s')) = apfst (map_option mapStorageError) p"
  by (simp split: prod.split option.split)

lemma CallDelete_result:
  "(case p of (None, s') \<Rightarrow> (Inr EmptyReply, s') | (Some err, s') \<Rightarrow> (Inl err, s')) = apfst deleted_reply p"
  by (simp add: deleted_reply_def split: prod.split option.split)

lemmas handler_results = mapped_apfst ListUsers_result CreateUser_result DeleteUser_result
lemmas handler_defs = GetUser_def ListUsers_def CreateUser_def UpdateUser_def DeleteUser_def

context implements
begin

lemma run_handlers:
  assumes "us_repository svc = Some R"
  shows "run_steps (GetUser_steps (Some S) E ctx q1) s = GetUser svc E ctx q1 s"
    and "run_steps (ListUsers_steps (Some S) E ctx q2) s = ListUsers svc E ctx q2 s"
    and "run_steps (CreateUser_steps P svc (Some S) E ctx q3) s = CreateUser P svc E ctx q3 s"
    and "run_steps (UpdateUser_steps P svc (Some S) E ctx q4) s = UpdateUser P svc E ctx q4 s"
    and "run_steps (DeleteUser_steps (Some S) E ctx q5) s = DeleteUser svc E ctx q5 s"
  unfolding handler_steps handler_defs handler_results assms
  by (simp_all add: run_with_result runs Let_def split: option.split sum.split)

theorem run_server:
  "us_repository svc = Some R \<Longrightarrow>
     run_steps (UserServiceServer_steps P svc (Some S) E ctx call) s = UserServiceServer P svc E ctx call s"
  by (cases call) (simp_all add: run_with_result run_handlers replying_def CallDelete_result)

end

section \<open>Linearizable requests\<close>

text \<open>
  Why a request had no effect: the repository refused its call, or the service answers it this way
  whatever the store holds.
\<close>

definition excused :: "(go_error \<Rightarrow> bool) \<Rightarrow> (go_error \<Rightarrow> 'r) \<Rightarrow> ('v \<Rightarrow> 'r \<times> 'v) \<Rightarrow> 'r \<Rightarrow> bool" where
  "excused refusal fail f r \<longleftrightarrow> (\<exists>err. refusal err \<and> r = fail (mapStorageError err)) \<or> (\<forall>v. f v = (r, v))"

lemma excused_always: "(\<And>v. f v = (r, v)) \<Longrightarrow> excused refusal fail f r"
  by (simp add: excused_def)

lemma excused_refused:
  "refused_result refusal r \<Longrightarrow> excused refusal Inl f (map_sum mapStorageError g r)"
  "refused_err refusal e \<Longrightarrow> excused refusal Some f' (map_option mapStorageError e)"
  by (auto simp: excused_def refused_result_def refused_err_def)

lemma linearizes_reply:
  assumes "linearizes view (excused refusal fail f) f p" and "\<And>err. h (fail err) = Inl err" and "\<And>v. f' v = apfst h (f v)"
  shows "linearizes view (excused refusal Inl f') f' (with_result h p)"
  by (rule linearizes_with_result [OF assms(1) _ assms(3)]) (auto simp: excused_def assms(2,3))

context linear_repository
begin

lemma GetUser_linearizes:
  assumes "us_repository svc = Some R"
  shows "linearizes view (excused refusal Inl (GetUser svc E ctx q)) (GetUser svc E ctx q) (GetUser_steps (Some S) E ctx q)"
  unfolding GetUser_steps_def
  by (simp add: Let_def split: option.split sum.split, intro conjI impI allI;
      (rule excused_always | rule linearizes_with_result [OF Get_lin]))
    (simp_all add: GetUser_def handler_results assms Let_def excused_refused)

lemma ListUsers_linearizes:
  assumes "us_repository svc = Some R"
  shows "linearizes view (excused refusal Inl (ListUsers svc E ctx q)) (ListUsers svc E ctx q) (ListUsers_steps (Some S) E ctx q)"
  unfolding ListUsers_steps_def
  by (simp add: Let_def split: option.split sum.split, intro conjI impI allI;
      (rule excused_always | rule linearizes_with_result [OF List_lin]))
    (simp_all add: ListUsers_def handler_results assms Let_def excused_refused)

lemma CreateUser_linearizes:
  assumes "us_repository svc = Some R"
  shows "linearizes view (excused refusal Inl (CreateUser P svc E ctx q)) (CreateUser P svc E ctx q) (CreateUser_steps P svc (Some S) E ctx q)"
  unfolding CreateUser_steps_def
  by (simp add: Let_def split: option.split sum.split, intro conjI impI allI;
      (rule excused_always | rule linearizes_with_result [OF CreateWithIdempotency_lin]))
    (simp_all add: CreateUser_def handler_results assms Let_def excused_refused)

lemma UpdateUser_linearizes:
  assumes "us_repository svc = Some R"
  shows "linearizes view (excused refusal Inl (UpdateUser P svc E ctx q)) (UpdateUser P svc E ctx q) (UpdateUser_steps P svc (Some S) E ctx q)"
  unfolding UpdateUser_steps_def
  by (simp add: Let_def split: option.split sum.split, intro conjI impI allI;
      (rule excused_always | rule linearizes_with_result [OF ReadModifyUpdate_lin]))
    (simp_all add: UpdateUser_def handler_results assms Let_def excused_refused)

lemma DeleteUser_linearizes:
  assumes "us_repository svc = Some R"
  shows "linearizes view (excused refusal Some (DeleteUser svc E ctx q)) (DeleteUser svc E ctx q) (DeleteUser_steps (Some S) E ctx q)"
  unfolding DeleteUser_steps_def
  by (simp add: Let_def split: option.split sum.split, intro conjI impI allI;
      (rule excused_always | rule linearizes_with_result [OF Delete_lin]))
    (simp_all add: DeleteUser_def handler_results assms Let_def excused_refused)

lemmas handlers_linearize = GetUser_linearizes ListUsers_linearizes CreateUser_linearizes UpdateUser_linearizes DeleteUser_linearizes

theorem server_linearizes:
  assumes "us_repository svc = Some R"
  shows "linearizes view (excused refusal Inl (UserServiceServer P svc E ctx call)) (UserServiceServer P svc E ctx call)
     (UserServiceServer_steps P svc (Some S) E ctx call)"
  by (cases call) (auto intro!: linearizes_reply handlers_linearize assms(1) simp: replying_def CallDelete_result deleted_reply_def)

end

section \<open>Requests end\<close>

context bounded_repository
begin

lemma server_ends: "ends_within (UserServiceServer_steps P svc (Some S) E ctx call) n"
  by (cases call) (auto simp: handler_steps Let_def intro!: ends_with_result ends split: option.split sum.split)

end

section \<open>Requests keep the invariant\<close>

primrec reply_ok :: "'b UserService \<Rightarrow> reply \<Rightarrow> bool" where
  "reply_ok svc (UserReply u) = own_id_ok svc u"
| "reply_ok svc (UsersReply p) = list_all (own_id_ok svc) (lu_Users p)"
| "reply_ok svc EmptyReply = True"

abbreviation any_or :: "('a \<Rightarrow> bool) \<Rightarrow> 'a result \<Rightarrow> bool" where
  "any_or \<equiv> pred_sum (\<lambda>_. True)"

lemma any_or_map: "any_or P r \<Longrightarrow> (\<And>v. P v \<Longrightarrow> Q (g v)) \<Longrightarrow> any_or Q (map_sum f g r)"
  by (cases r) simp_all

lemma gives_user_any: "gives_user svc i r \<Longrightarrow> any_or (own_id_ok svc) (map_sum f (\<lambda>u. u) r)"
  by (cases r) (auto intro: user_ok_own)

lemma create_admissible:
  fixes q :: CreateUserRequest
  assumes "validateUserFields P (cr_Name q) (cr_Email q) (cr_Age q) (maxStringBytes svc) = Inr (name, email)"
    and "newID E ''user'' = Some i" and "0 \<le> maxStringBytes svc"
  shows "admissible svc (CallsCreateWithIdempotency
     (Some \<lparr>u_Id = i, u_Name = name, u_Email = email, u_Age = cr_Age q, u_CreatedAt = Some (timestamp_of (clk E HandlerNow)),
            u_UpdatedAt = Some (timestamp_of (clk E HandlerNow))\<rparr>) (maxUsers svc) key)"
proof -
  let ?u = "\<lparr>u_Id = i, u_Name = name, u_Email = email, u_Age = cr_Age q, u_CreatedAt = Some (timestamp_of (clk E HandlerNow)),
     u_UpdatedAt = Some (timestamp_of (clk E HandlerNow))\<rparr>"
  have "created_user E q ?u" using assms(2) validateUserFields_Inr [OF assms(1)] by (simp add: created_user_def)
  moreover have "i \<noteq> []" using assms(2) by (auto simp: newID_def split: option.splits)
  ultimately have "user_ok svc (u_Id ?u) ?u" using assms(1,3) created_user_ok [of E q ?u svc P] by simp
  then show ?thesis by (simp add: admissible_def)
qed

lemma update_admissible:
  fixes q :: UpdateUserRequest
  assumes "validateOptionalText (ur_Name q) (maxStringBytes svc) ''name'' = None"
    and "validateOptionalText (ur_Email q) (maxStringBytes svc) ''email'' = None" "0 \<le> ur_Age q" "ur_Age q \<le> 150"
  shows "admissible svc (CallsReadModifyUpdate i (Some (\<lambda>u. Inr (apply_update E q u))))"
  using apply_update_ok [OF _ assms] by (simp add: admissible_def)

context safe_calls
begin

lemma reads_safe:
  "safe_steps I (any_or (own_id_ok svc)) (GetUser_steps (Some S) E ctx q1)"
  "safe_steps I (any_or (\<lambda>p. list_all (own_id_ok svc) (lu_Users p))) (ListUsers_steps (Some S) E ctx q2)"
  "safe_steps I (\<lambda>_. True) (DeleteUser_steps (Some S) E ctx q3)"
  by (auto simp: handler_steps split: option.split prod.split intro: gives_user_any Delete_safe any_or_map
      intro!: safe_with_result [OF Get_safe] safe_with_result [OF List_safe] safe_with_result [OF Delete_safe])

lemma writes_safe:
  fixes q1 :: "CreateUserRequest option" and q2 :: "UpdateUserRequest option"
  assumes "0 \<le> maxStringBytes svc"
  shows "safe_steps I (any_or (own_id_ok svc)) (CreateUser_steps P svc (Some S) E ctx q1)"
    and "safe_steps I (any_or (own_id_ok svc)) (UpdateUser_steps P svc (Some S) E ctx q2)"
  by (auto simp: handler_steps Let_def split: option.split sum.split intro: gives_user_any any_or_map create_admissible update_admissible assms
      intro!: safe_with_result [OF CreateWithIdempotency_safe] safe_with_result [OF ReadModifyUpdate_safe])

theorem server_safe:
  assumes "0 \<le> maxStringBytes svc"
  shows "safe_steps I (any_or (reply_ok svc)) (UserServiceServer_steps P svc (Some S) E ctx call)"
  by (cases call) (auto simp: deleted_reply_def intro!: safe_with_result reads_safe writes_safe assms any_or_map split: option.split)

end

section \<open>A server with many requests\<close>

type_synonym unary_request = "env \<times> Context option \<times> unary_call"

definition request_steps ::
  "(string \<Rightarrow> string option) \<Rightarrow> 'b UserService \<Rightarrow> 's StepRepository \<Rightarrow> unary_request \<Rightarrow> ('s, reply result) steps" where
  "request_steps P svc S q = (case q of (E, ctx, call) \<Rightarrow> UserServiceServer_steps P svc (Some S) E ctx call)"

definition request_alone :: "(string \<Rightarrow> string option) \<Rightarrow> 's UserService \<Rightarrow> unary_request \<Rightarrow> 's \<Rightarrow> reply result \<times> 's" where
  "request_alone P svc q = (case q of (E, ctx, call) \<Rightarrow> UserServiceServer P svc E ctx call)"

definition serve_concurrently where
  "serve_concurrently P svc S w qs s = interleave w (map (request_steps P svc S) qs) s"

lemma serve_length: "serve_concurrently P svc S w qs s = (ps, s') \<Longrightarrow> length ps = length qs"
  by (metis fst_conv length_interleave length_map serve_concurrently_def)

lemma request_steps_safe:
  assumes "safe_calls S I svc" and "0 \<le> maxStringBytes svc" and "I s" and "serve_concurrently P svc S w qs s = (ps, s')"
  shows "I s' \<and> (\<forall>i < length qs. safe_steps I (any_or (reply_ok svc)) (ps ! i))"
proof -
  have "\<forall>p \<in> set (map (request_steps P svc S) qs). safe_steps I (any_or (reply_ok svc)) p"
    using safe_calls.server_safe [OF assms(1,2)] by (auto simp: request_steps_def)
  from interleave_safe [OF this assms(3), of w] assms(4) serve_length [OF assms(4)]
  show ?thesis by (auto simp: serve_concurrently_def)
qed

lemma request_steps_end:
  assumes "bounded_repository S n" and "i < length qs" and "n \<le> count_list w i" and "serve_concurrently P svc S w qs s = (ps, s')"
  shows "\<exists>r. ps ! i = Return r"
proof -
  have "ends_within (request_steps P svc S (qs ! i)) n"
    by (simp add: request_steps_def bounded_repository.server_ends [OF assms(1)] split: prod.split)
  with interleave_ends [of i "map (request_steps P svc S) qs" n w s] assms(2-4) show ?thesis
    by (simp add: serve_concurrently_def)
qed

abbreviation store_service :: "ServiceLimits \<Rightarrow> MemoryRepository UserService" where
  "store_service limits \<equiv> NewUserServiceWithRepository (Some memory_ops) limits"

text \<open>
  C3: requests over the circuit breaker and the in-memory store are linearizable. Whatever
  requests run in parallel and however their critical sections interleave, there is an order of
  some of them, each placed at a moment between its start and its end, such that the service
  without concurrency and without a breaker, given these requests in this order, ends with the
  same store and gives each the same reply. A request outside the order is not finished, or the breaker was
  open, or its reply does not depend on the store and changes nothing. A request that has had three
  turns has its reply: no request waits for another.
\<close>

theorem requests_linearizable:
  assumes run: "serve_concurrently P (store_service limits) (breaker_steps cfg memory_steps) w qs cb = (ps, cb')"
  shows "\<exists>order replies.
     subseq order w \<and> distinct order \<and> set order \<subseteq> {..<length qs} \<and>
     one_by_one (\<lambda>i. request_alone P (store_service limits) (qs ! i)) order (cb_inner cb) = (replies, cb_inner cb') \<and>
     (\<forall>i < length qs. \<forall>r. ps ! i = Return r \<longrightarrow>
        (if i \<in> set order then replies i = Some r
         else r = Inl (mapStorageError ErrCircuitOpen) \<or> (\<forall>s. request_alone P (store_service limits) (qs ! i) s = (r, s)))) \<and>
     (\<forall>i < length qs. 3 \<le> count_list w i \<longrightarrow> (\<exists>r. ps ! i = Return r))"
proof -
  let ?f = "\<lambda>i. request_alone P (store_service limits) (qs ! i)"
  let ?refused = "\<lambda>i. excused (\<lambda>err. False \<or> err = ErrCircuitOpen) Inl (?f i)"
  let ?ps = "map (request_steps P (store_service limits) (breaker_steps cfg memory_steps)) qs"
  have "linearizes cb_inner (?refused i) (?f i) (?ps ! i)" if "i < length ?ps" for i
    using that lbl.guarded.server_linearizes [of "store_service limits" P]
    by (auto simp: request_steps_def request_alone_def split: prod.split)
  from interleave_linearizable [OF this, where w = w and s = cb] run obtain order where
    order: "subseq order w" "linearized cb_inner ?refused ?f (cb_inner cb) order ps cb'"
    by (auto simp: serve_concurrently_def)
  have len: "length ps = length qs" by (rule serve_length [OF run])
  from order(2) obtain replies where
    o: "one_by_one ?f order (cb_inner cb) = (replies, cb_inner cb')" "distinct order" "set order \<subseteq> {..<length qs}"
    and all: "\<And>i. i < length qs \<Longrightarrow> on_course cb_inner (?refused i) (?f i) (replies i) (ps ! i)"
    by (auto simp: linearized_def len)
  have "if i \<in> set order then replies i = Some r
      else r = Inl (mapStorageError ErrCircuitOpen) \<or> (\<forall>s. ?f i s = (r, s))" if "i < length qs" "ps ! i = Return r" for i r
    using all [OF that(1)] that(2) one_by_one_dom [OF o(1)] by (auto simp: on_course_def excused_def split: option.splits)
  with order(1) o request_steps_end [OF breaker_bounded_memory _ _ run] show ?thesis by blast
qed

abbreviation stack_steps :: "CircuitBreakerConfig \<Rightarrow> stack StepRepository" where
  "stack_steps cfg \<equiv> cache_steps (breaker_steps cfg memory_steps)"

text \<open>
  C4: over the whole stack of cache, breaker and in-memory store, built by its constructors,
  whatever requests run in parallel and however their critical sections interleave: the store keeps the configured
  limits, the breaker's counters agree with its state, the cache is within its size and every
  user it holds or a reply carries is one the service may have stored. A request that has had five
  turns has its reply.
\<close>

theorem concurrent_requests_safe:
  assumes run: "serve_concurrently P (stack_service (cb_config cfg) limits) (stack_steps (cb_config cfg)) w qs
     (NewCacheRepositoryWithLimit (NewCircuitBreakerRepository NewMemoryRepository) t n) = (ps, c)"
  shows "store_ok (stack_service (cb_config cfg) limits) (stack_store c) \<and>
     cb_inv (cb_config cfg) (cb_brk (ca_inner c)) \<and>
     int (cache_size c) \<le> (if n \<le> 0 then defaultCacheMaxEntries else n) \<and>
     (\<forall>k e. mget (ca_m c) k = Some e \<longrightarrow> user_ok (stack_service (cb_config cfg) limits) k (ce_user e)) \<and>
     (\<forall>i < length qs. \<forall>reply. ps ! i = Return (Inr reply) \<longrightarrow> reply_ok (stack_service (cb_config cfg) limits) reply) \<and>
     (\<forall>i < length qs. 5 \<le> count_list w i \<longrightarrow> (\<exists>r. ps ! i = Return r))"
proof -
  let ?svc = "stack_service (cb_config cfg) limits"
  let ?limit = "if n \<le> 0 then defaultCacheMaxEntries else n"
  let ?I = "cache_safe ?svc ?limit (breaker_safe (cb_config cfg) (memory_safe ?svc))"
  let ?c0 = "NewCacheRepositoryWithLimit (NewCircuitBreakerRepository NewMemoryRepository) t n"
  have "memory_safe ?svc NewMemoryRepository" using normalize_limits_pos(1) [of limits]
    by (simp add: memory_safe_def mem_inv_New store_ok_def) (simp add: mem_abs_def NewMemoryRepository_def)
  moreover have "cb_inv (cb_config cfg) new_breaker" using cb_config_ok [of cfg] by (simp add: cb_inv_def new_breaker_def cb_cfg_ok_def)
  ultimately have start: "?I ?c0" using NewCache_inv [of "NewCircuitBreakerRepository NewMemoryRepository" t n]
    by (simp add: cache_safe_def breaker_safe_def) (simp add: NewCacheRepositoryWithLimit_def NewCircuitBreakerRepository_def)
  have bytes: "0 \<le> maxStringBytes ?svc" using normalize_limits_pos(2) [of limits] by simp
  from request_steps_safe [OF sc.cached.safe_calls_axioms bytes start run]
  have I: "?I c" and replies: "\<And>i. i < length qs \<Longrightarrow> safe_steps ?I (any_or (reply_ok ?svc)) (ps ! i)" by blast+
  have "bounded_repository (stack_steps (cb_config cfg)) 5" using bcs.cached.bounded_repository_axioms by simp
  from request_steps_end [OF this _ _ run] have "\<forall>i < length qs. 5 \<le> count_list w i \<longrightarrow> (\<exists>r. ps ! i = Return r)" by blast
  moreover have "\<forall>i < length qs. \<forall>reply. ps ! i = Return (Inr reply) \<longrightarrow> reply_ok ?svc reply"
    using replies by fastforce
  ultimately show ?thesis using I by (simp add: cache_safe_def breaker_safe_def memory_safe_def cache_inv_def cache_size_def)
qed


section \<open>The properties at concrete inputs\<close>

text \<open>Two creations under one idempotency key and a lookup, three goroutines.\<close>

definition env2 :: env where
  "env2 = env1\<lparr>rnd := Some (replicate 16 (CHR 0x0B))\<rparr>"

definition racing :: "unary_request list" where
  "racing = [(env1, Some Background, CallCreate (Some create1)), (env2, Some Background, CallCreate (Some create1)),
     (env1, Some Background, CallGet (Some \<lparr>gr_Id = ''user-9''\<rparr>))]"

definition turns :: "nat list" where
  "turns = [0, 1, 2, 1, 0, 2, 2, 0, 1, 0, 0, 1, 1]"

definition outcome_of :: "('s, reply result) steps \<Rightarrow> string" where
  "outcome_of p = (case p of Return (Inr (UserReply u)) \<Rightarrow> u_Id u | Return (Inl err) \<Rightarrow> ''error'' | _ \<Rightarrow> ''other'')"

text \<open>The second creation took the lock first; the first one got its user.\<close>

lemma racing_run:
  "map outcome_of (fst (serve_concurrently ParseAddress1 (store_service limits1) (breaker_steps cfg1 memory_steps) turns racing
      (NewCircuitBreakerRepository NewMemoryRepository))) =
   [''user-'' @ hex_encode (replicate 16 (CHR 0x0B)), ''user-'' @ hex_encode (replicate 16 (CHR 0x0B)), ''error'']"
  by code_simp

theorem requests_linearizable_witness:
  "\<exists>ps cb' order replies.
     serve_concurrently ParseAddress1 (store_service limits1) (breaker_steps cfg1 memory_steps) turns racing
       (NewCircuitBreakerRepository NewMemoryRepository) = (ps, cb') \<and>
     subseq order turns \<and> distinct order \<and>
     one_by_one (\<lambda>i. request_alone ParseAddress1 (store_service limits1) (racing ! i)) order NewMemoryRepository =
       (replies, cb_inner cb') \<and>
     outcome_of (ps ! 0) = outcome_of (ps ! 1) \<and> (\<exists>r. ps ! 0 = Return r) \<and> (\<exists>r. ps ! 1 = Return r)"
proof -
  obtain ps cb' where run: "serve_concurrently ParseAddress1 (store_service limits1) (breaker_steps cfg1 memory_steps) turns racing
      (NewCircuitBreakerRepository NewMemoryRepository) = (ps, cb')" by fastforce
  have "length ps = 3" using serve_length [OF run] by (simp add: racing_def)
  with racing_run run have "outcome_of (ps ! 0) = outcome_of (ps ! 1)" by (simp add: list_eq_iff_nth_eq)
  moreover have "3 \<le> count_list turns 0" "3 \<le> count_list turns 1" by code_simp+
  ultimately show ?thesis using requests_linearizable [OF run] run
    by (auto simp: NewCircuitBreakerRepository_def racing_def)
qed

theorem concurrent_requests_safe_witness:
  "\<exists>ps c. serve_concurrently ParseAddress1 (stack_service (cb_config cfg1) limits1) (stack_steps (cb_config cfg1)) turns racing
       (NewCacheRepositoryWithLimit (NewCircuitBreakerRepository NewMemoryRepository) 5 1) = (ps, c) \<and>
     store_ok (stack_service (cb_config cfg1) limits1) (stack_store c) \<and> int (cache_size c) \<le> 1 \<and> (\<exists>r. ps ! 0 = Return r)"
proof -
  obtain ps c where run: "serve_concurrently ParseAddress1 (stack_service (cb_config cfg1) limits1) (stack_steps (cb_config cfg1)) turns racing
       (NewCacheRepositoryWithLimit (NewCircuitBreakerRepository NewMemoryRepository) 5 1) = (ps, c)" by fastforce
  have "5 \<le> count_list turns 0" "0 < length racing" by code_simp+
  with concurrent_requests_safe [OF run] run show ?thesis by auto
qed

text \<open>
  With the cache the lookups are not linearizable. The first request misses the cache and reads the
  store; the second updates the user and returns; the first then fills the cache with what it had
  read; the third, which starts after all this, is answered from the cache with the name before the update.
\<close>

definition stale_requests :: "unary_request list" where
  "stale_requests = [(env1, Some Background, CallGet (Some \<lparr>gr_Id = ''user-1''\<rparr>)),
     (env1, Some Background, CallUpdate (Some \<lparr>ur_Id = ''user-1'', ur_Name = ''Grace'', ur_Email = [], ur_Age = 0\<rparr>)),
     (env1, Some Background, CallGet (Some \<lparr>gr_Id = ''user-1''\<rparr>))]"

definition name_in :: "('s, reply result) steps \<Rightarrow> string" where
  "name_in p = (case p of Return (Inr (UserReply u)) \<Rightarrow> u_Name u | _ \<Rightarrow> ''none'')"

lemma cached_lookup_is_stale:
  "map name_in (fst (serve_concurrently ParseAddress1 (stack_service cfg1 limits1) (stack_steps cfg1)
      [0, 0, 0, 0, 1, 1, 1, 1, 0, 2] stale_requests
      (NewCacheRepository (NewCircuitBreakerRepository
         \<lparr>users = [(''user-1'', user1)], idem = [], closed = False\<rparr>) 5))) = [u_Name user1, ''Grace'', u_Name user1]"
  by code_simp

end
