(* ===== verification/Spec2Isabelle.thy ===== *)
theory Spec2Isabelle
  imports Server_Main Gateway Client_Main Repository_Faults Concurrent_Service
begin

text \<open>
  A verification of the gRPC user service: the server \<open>cmd/server\<close> with its storage, service,
  interceptors, configuration and REST gateway, and the example client \<open>cmd/client\<close>.

  \<^bold>\<open>The program.\<close> \<open>run\<close> in \<open>cmd/server/main.go\<close> validates the configuration, starts logging and
  tracing, opens the repository the configuration names (\<open>openRepository\<close>: memory or PostgreSQL,
  under an optional circuit breaker, under an optional cache), builds the user service over it,
  builds the gRPC server with its interceptor chains, TLS and limits (\<open>newGRPCServer\<close>), listens for
  gRPC, health, metrics and the gateway, announces readiness, and on a signal or an error of a
  listener withdraws readiness, drains and closes everything in reverse order. A request over gRPC
  passes panic recovery, request identifier, logging, metrics, the global rate limit,
  authentication, the rate limit of its client, authorization, the concurrency limit, audit and
  deadline, in this order, and reaches a handler of the service, which validates it and calls the
  repository. A request over REST is translated by the gateway and handed to the service in process.

  \<^bold>\<open>The theories\<close>, each importing the ones whose code it calls:
  \<^item> \<open>Go_Prelude\<close>, \<open>Go_Strings\<close>: Go's integers of fixed width (\<open>int\<close> with \<open>wrap64\<close> and the
    saturating difference of times written out), maps as association lists with distinct keys in an
    arbitrary iteration order, byte strings with the functions of \<open>strings\<close> and \<open>strconv\<close>
    that the program calls; the collections of rules and the lemmas on them that the components share.
  \<^item> \<open>App_Errors\<close> (\<open>pkg/errors/errors.go\<close>, the sentinels of \<open>storage.go\<close>): errors as values with
    wrapping, \<open>errors.Is\<close>, \<open>errors.As\<close>, gRPC codes and details.
  \<^item> \<open>Storage\<close> (\<open>internal/storage/storage.go\<close>): contexts, users, the interface \<open>Repository\<close> as a record of
    operations, its specification over an abstract store from identifiers to users, and the contract
    as the locales \<open>repository_core\<close>, \<open>safe_repository\<close> and \<open>weak_repository\<close>. The two last differ in
    \<open>ReadModifyUpdate\<close>: under the cache it may answer with an old user and no error.
  \<^item> \<open>Memory_Repository\<close>, \<open>Circuit_Breaker\<close>, \<open>Cache_Repository\<close> (\<open>memory.go\<close>, \<open>circuitbreaker.go\<close>, \<open>cache.go\<close>
    in \<open>internal/storage\<close>): the repository in memory is an interpretation of the contract; the breaker
    (locale \<open>breaker_over\<close>) and the cache (\<open>cache_over\<close>) over any repository with the contract are
    sublocales of it again. Calls in flight together are step relations over these operations.
  \<^item> \<open>Postgres_Retry\<close>, \<open>Postgres_Migrations\<close>, \<open>Postgres_Repository\<close> (\<open>internal/storage/postgres.go\<close>): the
    backoff and the retry loops, schema migrations, and every operation as its statements in a
    transaction. The database is a parameter; \<open>mig_laws\<close> and \<open>user_laws\<close> say what is used of it.
  \<^item> \<open>User_Service\<close> (\<open>internal/service/user.go\<close>): validation, page tokens, identifiers, all unary and
    stream handlers. The locale \<open>service_over\<close> proves the unary handlers once over any repository with
    the weak contract.
  \<^item> \<open>Service_Config\<close> (\<open>pkg/config/config.go\<close>): all settings, the environment overrides, \<open>Validate\<close>, \<open>Load\<close>.
  \<^item> \<open>Repository_Stack\<close> (\<open>openRepository\<close>): a value of interface type carries its dynamic type, which picks
    the methods; the locales \<open>tagged\<close> and \<open>dispatched\<close> carry the contract through tags and dispatch, so
    that the service over whatever the configuration selects is an instance of \<open>service_over\<close>.
  \<^item> \<open>Repository_Effects\<close>, \<open>Postgres_Faults\<close>, \<open>Repository_Faults\<close>: a second contract, of effects alone, for a
    database whose acknowledgements get lost (\<open>fault_laws\<close>: a commit or a deletion may be reported as
    failed although it happened). The locale \<open>steady_repository\<close> states it; the exact contract is an
    instance, PostgreSQL satisfies it (rules for statements in a transaction and for retried
    attempts), \<open>layer\<close> carries it through breaker and cache, and \<open>steady_service\<close> proves the handlers over it.
  \<^item> \<open>Auth\<close>, \<open>Interceptors\<close>, \<open>Limits\<close>, \<open>Interceptor_Chain\<close> (the server side of \<open>pkg/interceptors\<close> and
    \<open>pkg/metrics/metrics.go\<close>): a handler is a function of the context and a world of log, metrics,
    limiters, clock and application state, an interceptor a function on handlers, a panic an outcome.
  \<^item> \<open>Client_Interceptors\<close> (\<open>client.go\<close>, \<open>client_retry.go\<close> in \<open>pkg/interceptors\<close>): the same for calls that leave the client.
  \<^item> \<open>Observability\<close> (\<open>pkg/logging\<close>, \<open>pkg/tracing\<close>, \<open>pkg/metrics/db.go\<close>) and \<open>Transport_Security\<close> (the TLS
    settings of both programs).
  \<^item> \<open>Server_Main\<close> (\<open>cmd/server/main.go\<close>): the construction of the server, the health endpoints, and \<open>run\<close>
    as a function from the answers of its surroundings (the record \<open>host\<close>) to its error and the list of
    its effects, deferred calls included.
  \<^item> \<open>Service_Rpc\<close>, \<open>Stream_Rpc\<close> (\<open>pkg/pb/service_grpc.pb.go\<close>), \<open>Gateway\<close> (\<open>pkg/pb/service.pb.gw.go\<close>),
    \<open>Client_Main\<close> (\<open>cmd/client/main.go\<close>): the registered unary and stream methods and sequences of
    requests of both kinds, the REST routes with both registrations, and the client stubs, the
    connection and the four operations of the client.
  \<^item> \<open>Interleaving\<close>, \<open>Step_Repository\<close>, \<open>Concurrent_Repository\<close>, \<open>Concurrent_Service\<close>: the same repositories and
    unary handlers as goroutines that share their state. A computation (\<open>steps\<close>) is a sequence of critical
    sections; a schedule picks the goroutine that makes the next one. The memory repository locks for a
    whole method; breaker and cache lock around the inner call (\<open>beforeCall\<close>, \<open>afterCall\<close>, \<open>get\<close>, \<open>getStale\<close>,
    \<open>set\<close>, \<open>del\<close>), so others run in between. The locale \<open>implements\<close> says that a repository of computations,
    run without interference, is a repository of the other theories; \<open>linear_repository\<close>, \<open>safe_calls\<close> and
    \<open>bounded_repository\<close> are what its calls promise under every schedule. Breaker and cache over a
    repository with such a contract are sublocales of it (the cache not of \<open>linear_repository\<close>), and the handlers are proved once in each.
  \<^item> This theory: the server as configured, from the configuration to the store.

  \<^bold>\<open>What is shown.\<close>
  \<^item> End to end (this theory, \<open>Server_Main\<close>, \<open>Gateway\<close>, \<open>Client_Main\<close>): the configured server keeps the
    configured limits and the invariant of stored users whatever unary and stream requests arrive,
    over memory and over a PostgreSQL that loses acknowledgements, and lets no request without a
    credential change anything; every message it sends is well typed; \<open>run\<close> refines a life-cycle automaton whichever step fails; the
    gateway in process is equivalent to one connected to a server without interceptors; a token
    configured in the client is the one the server authenticates.
  \<^item> Storage: idempotent creation, capacity, closing, bounds and eviction of the cache, reads after
    writes through all layers, the invariant of the breaker, when it opens and that it recovers. For
    PostgreSQL, creation, update and pages against the abstract store in the presence of failing
    statements, commits and retries; a key creates one user even when acknowledgements are lost and
    the client repeats the call; migrations are applied completely or not at all.
  \<^item> Service: the store's invariant, unary requests that fail leave the store alone, exact effects of
    creation and update, complete pagination that ends, errors a client may see; streams run only
    behind the checks of their chain, change nothing, and send what they should within their bounds
    (a chat has none).
  \<^item> Requests in parallel (\<open>Concurrent_Service\<close>): under every schedule the requests over breaker and memory
    are linearizable, that is they have the store and the replies of the sequential service in an order
    consistent with real time, but for those an open breaker refuses; over the whole stack the store, the
    breaker and the cache keep their invariants at every step and no reply or cache entry carries a
    user the service did not admit; every request ends after at most three or five of its own steps,
    whatever the others do; and a request without interference is the sequential one. Behind the cache
    lookups are not linearizable: a schedule is given in which one that starts after an update has
    returned reads the user before it.
  \<^item> Interceptors: what an accepted credential proves, that no handler runs before every check has
    passed, audit of completed mutations, isolation of clients by their rate limits, the bound on
    requests in flight, the outcome and number of client retries.
  \<^item> Some theorems record behaviour that the code's comments do not expect: a breaker that wedges or
    opens on missing users, an idempotency map without bound, a write reported though it was not
    made, a race that leaves an old user in the cache, a first migration that cannot be rolled back.

  \<^bold>\<open>Conventions.\<close> The body of a method that holds a mutex is one atomic step. A \<open>Context\<close> is a snapshot:
  its values and the error it reports. Readings of the clock and random bytes are inputs, one for
  each place that takes them. Third-party code and the parts of the standard library that are not
  modelled are records of functions: cryptography, JSON, PEM and X.509 in \<open>auth_lib\<close>, the token
  bucket in \<open>limiter_lib\<close>, TLS, OpenTelemetry, the runtime of the gateway, the file system and the YAML
  decoder. Where a theorem needs a law of them it is a hypothesis, and a concrete instance satisfies it.

  \<^bold>\<open>Bounds.\<close> No definition uses fuel. A schedule is a list of turns; a turn of a request that has its reply
  does nothing. Loops are structural: over the answers a stream or a database
  gives, over the attempts the configuration allows, or over the elements of a list; a client that
  follows page tokens is shown to end, with the number of pages it needs.

  \<^bold>\<open>Not modelled.\<close> Protobuf marshalling and reflection (\<open>pkg/pb/service.pb.go\<close> beyond its messages) and
  the generated stubs of the health protocol; what the gRPC runtime does below the handlers and the
  client stubs; headers and trailers of gateway responses; \<open>promhttp\<close> and the registration of
  instruments; the wrapper \<open>With\<close> of the logger; the browser frontend,
  vendored modules, deployment files. Only the in-memory backend has the exact contract end to end:
  PostgreSQL keeps times to the microsecond, so a stored user is not the user the service created,
  and its theorems are stated up to that rounding or, end to end, as the contract of effects. A stream
  is its inputs and outputs in order. The theorems about the interceptor chains and about PostgreSQL take
  requests one after the other; requests in parallel are modelled for the unary handlers over the
  in-memory repository under breaker and cache, and for the limits. There too the context of a request is
  a snapshot: it does not end between two of its critical sections.
  float64 values are a type variable in the configuration and durations in the metrics are integers.
\<close>

section \<open>The configured server\<close>

lemma requests_store_ok:
  assumes "repository_ok (w_app w)" and "store_ok (configured_service pg c) (repository_store (w_app w))"
  shows "repository_ok (w_app (serve_requests P F (configured_service pg c) C qs w)) \<and>
    store_ok (configured_service pg c) (repository_store (w_app (serve_requests P F (configured_service pg c) C qs w)))"
proof (rule serve_requests_keep [where I = "\<lambda>s. repository_ok s \<and> store_ok (configured_service pg c) (repository_store s)"])
  fix E ctx call s r s'
  assume ok: "repository_ok s \<and> store_ok (configured_service pg c) (repository_store s)"
    and run: "serve P (configured_service pg c) (E, ctx, call) s = (r, s')"
  show "repository_ok s' \<and> store_ok (configured_service pg c) (repository_store s')"
    by (rule cs.serve_store_ok [OF _ _ run]) (simp_all add: ok)
qed (use assms in simp)

lemma anonymous_refused:
  assumes "newGRPCServer B R X c a = Inr srv" and "\<forall>K. authenticate B K a (request_ctx q) = None"
  shows "w_app (serve_request P F svc (gs_chain srv) q w) = w_app w \<and> request_refused P F svc (gs_chain srv) q w"
proof -
  have "gs_chain srv = chain_of B R c a"
    using assms(1) by (auto simp: newGRPCServer_def Let_def split: if_splits sum.splits)
  then have chain: "ch_auth (gs_chain srv) = Some a" "ch_lib (gs_chain srv) = B" by (simp_all add: chain_of_def)
  show ?thesis by (rule anonymous_request [OF chain(1)]) (simp add: chain(2) assms(2))
qed

lemma configured_limits:
  assumes "Validate L (Some c) = None"
  shows "maxUsers (configured_service pg c) = sv_MaxUsers (cfg_Server c)"
    and "maxStringBytes (configured_service pg c) = sv_MaxStringBytes (cfg_Server c)"
  by (simp_all add: validated_service_limits [OF assms]) (simp_all add: service_limits_of_def)

lemma opened_store_ok:
  assumes "sg_Backend (cfg_Storage c) = ''memory''" and "openRepository pg (cfg_Storage c) d = (Inr r, d')"
  shows "repository_ok r \<and> store_ok (configured_service pg c) (repository_store r)"
proof -
  from openRepository_memory [OF assms(1), of pg d] assms(2) have "repository_ok r" "repository_store r = Map.empty"
    by (metis Inr_inject prod.inject)+
  moreover have "0 \<le> maxUsers (configured_service pg c)"
    using normalize_limits_pos(1) [of "service_limits_of (cfg_Server c)"] by simp
  ultimately show ?thesis by (simp add: store_ok_def)
qed

text \<open>
  C1: the server as configured. Take a valid configuration with the in-memory backend and any
  combination of cache and circuit breaker, and the server and the repository that the program
  builds from it. Whatever requests arrive over gRPC, the store holds at most the configured number
  of users, and each is filed under its own identifier with a non-empty name, a name and an email
  within the configured size and an age from 0 to 150. And at any point a request without an
  accepted credential is answered with an error and changes nothing in the store.
\<close>

theorem configured_server_safe:
  assumes "Validate L (Some c) = None" and "sg_Backend (cfg_Storage c) = ''memory''"
    and "NewAuthenticator B (cfg_Auth c) = Inr a" and "newGRPCServer B R X c a = Inr srv"
    and "openRepository pg (cfg_Storage c) d = (Inr r, d')" and "w_app w = r"
  shows "let svc = configured_service pg c; w' = serve_requests P F svc (gs_chain srv) qs w; m = repository_store (w_app w')
    in int (card (dom m)) \<le> sv_MaxUsers (cfg_Server c) \<and>
       (\<forall>i u. m i = Some u \<longrightarrow> i \<noteq> [] \<and> u_Id u = i \<and> u_Name u \<noteq> [] \<and>
          int (length (u_Name u)) \<le> sv_MaxStringBytes (cfg_Server c) \<and>
          int (length (u_Email u)) \<le> sv_MaxStringBytes (cfg_Server c) \<and> 0 \<le> u_Age u \<and> u_Age u \<le> 150 \<and> has_times u) \<and>
       (\<forall>q. (\<forall>K. authenticate B K a (request_ctx q) = None) \<longrightarrow>
          repository_store (w_app (serve_request P F svc (gs_chain srv) q w')) = m \<and> request_refused P F svc (gs_chain srv) q w')"
proof -
  let ?svc = "configured_service pg c"
  note limits = configured_limits [OF assms(1)]
  from opened_store_ok [OF assms(2,5)] assms(6) have "repository_ok (w_app w)" "store_ok ?svc (repository_store (w_app w))" by simp_all
  note ok = requests_store_ok [OF this, of P F "gs_chain srv" qs, THEN conjunct2]
  have anon: "repository_store (w_app (serve_request P F ?svc (gs_chain srv) q w')) = repository_store (w_app w') \<and>
      request_refused P F ?svc (gs_chain srv) q w'" if "\<forall>K. authenticate B K a (request_ctx q) = None" for q w'
    using anonymous_refused [OF assms(4) that, of P F ?svc w'] by simp
  show ?thesis using ok anon unfolding Let_def store_ok_def user_ok_def limits by blast
qed

text \<open>The baseline configuration, and a request without credentials that would create a user.\<close>

definition first_world :: "'s \<Rightarrow> (unit, 's) world" where
  "first_world s =
     \<lparr>w_clk = \<lambda>n. int n, w_rnd = \<lambda>_. None, w_tick = 0, w_log = [], w_met = no_metrics, w_limiter = (),
      w_clients = NewPerClient full_buckets 50 100, w_sem = 0, w_app = s\<rparr>"

lemma first_world_app [simp]: "w_app (first_world s) = s"
  by (simp add: first_world_def)

definition anonymous_create :: "int request" where
  "anonymous_create = Unary (env1, Background, Inr (CallCreate (Some create1)))"

lemma Background_anonymous: "authenticate B K a Background = None"
  by (simp add: authenticate_def credentialFromContext_def Background_def)

theorem configured_server_safe_witness:
  "\<forall>pg :: unit postgres. \<exists>a srv r.
     NewAuthenticator demo_lib (cfg_Auth running_config) = Inr a \<and>
     newGRPCServer demo_lib full_buckets plain_tls running_config a = Inr srv \<and>
     openRepository pg (cfg_Storage running_config) () = (Inr r, ()) \<and>
     request_refused ParseAddress1 ints (configured_service pg running_config) (gs_chain srv) anonymous_create (first_world r) \<and>
     repository_store (w_app (serve_request ParseAddress1 ints (configured_service pg running_config) (gs_chain srv)
       anonymous_create (first_world r))) = Map.empty"
proof
  fix pg :: "unit postgres"
  let ?svc = "configured_service pg running_config"
  have mem: "sg_Backend (cfg_Storage running_config) = ''memory''" by (simp add: running_fields)
  from running_auth [of demo_lib] obtain a where a: "NewAuthenticator demo_lib (cfg_Auth running_config) = Inr a" by blast
  have "\<not> isl (newGRPCServer demo_lib full_buckets plain_tls running_config a)"
    by (simp add: newGRPCServer_Inl loadTLSCredentials_def plain_tls_def running_fields)
  then obtain srv where srv: "newGRPCServer demo_lib full_buckets plain_tls running_config a = Inr srv"
    by (cases "newGRPCServer demo_lib full_buckets plain_tls running_config a") auto
  obtain r where r: "openRepository pg (cfg_Storage running_config) () = (Inr r, ())" "repository_store r = Map.empty"
    by (rule openRepository_memory [OF mem])
  have "\<forall>K. authenticate demo_lib K a (request_ctx anonymous_create) = None"
    by (simp add: anonymous_create_def Background_anonymous)
  with configured_server_safe [OF running_valid mem a srv r(1) first_world_app, where P = ParseAddress1 and F = ints and qs = "[]"]
  have "repository_store (w_app (serve_request ParseAddress1 ints ?svc (gs_chain srv) anonymous_create (first_world r))) = Map.empty \<and>
      request_refused ParseAddress1 ints ?svc (gs_chain srv) anonymous_create (first_world r)"
    unfolding Let_def serve_requests_def fold_simps id_apply first_world_app r(2) by blast
  with a srv r(1) show "\<exists>a srv r.
     NewAuthenticator demo_lib (cfg_Auth running_config) = Inr a \<and>
     newGRPCServer demo_lib full_buckets plain_tls running_config a = Inr srv \<and>
     openRepository pg (cfg_Storage running_config) () = (Inr r, ()) \<and>
     request_refused ParseAddress1 ints ?svc (gs_chain srv) anonymous_create (first_world r) \<and>
     repository_store (w_app (serve_request ParseAddress1 ints ?svc (gs_chain srv) anonymous_create (first_world r))) = Map.empty"
    by blast
qed

section \<open>The server over a faulty database\<close>

lemma requests_steady:
  assumes "backend_sound pg com wrk (innermost (w_app w))" and "store_ok (configured_service pg c) (backend_tables com (innermost (w_app w)))"
  shows "backend_sound pg com wrk (innermost (w_app (serve_requests P F (configured_service pg c) C qs w))) \<and>
    store_ok (configured_service pg c) (backend_tables com (innermost (w_app (serve_requests P F (configured_service pg c) C qs w))))"
proof (rule serve_requests_keep [where I = "\<lambda>s. backend_sound pg com wrk (innermost s) \<and>
    store_ok (configured_service pg c) (backend_tables com (innermost s))"])
  fix E ctx call s r s'
  assume ok: "backend_sound pg com wrk (innermost s) \<and> store_ok (configured_service pg c) (backend_tables com (innermost s))"
    and run: "serve P (configured_service pg c) (E, ctx, call) s = (r, s')"
  show "backend_sound pg com wrk (innermost s') \<and> store_ok (configured_service pg c) (backend_tables com (innermost s'))"
    by (rule fs.serve_steady [OF _ _ run]) (simp_all add: ok)
qed (use assms in simp)

text \<open>
  C2: the server over a PostgreSQL database that loses acknowledgements. Take a valid configuration
  with the PostgreSQL backend and any combination of cache and circuit breaker, opened over tables
  that respect the configured limits. Whatever requests arrive over gRPC, however often the
  repository retries, and although any commit may be reported as failed when it happened, the
  tables never hold more users than configured and every stored user keeps the limits; and a
  request without an accepted credential changes nothing and is answered with an error.
\<close>

theorem faulty_server_safe:
  assumes "Validate L (Some c) = None" and "sg_Backend (cfg_Storage c) = ''postgres''" and "fault_laws (pgx_db pg) com wrk"
    and "newGRPCServer B R X c a = Inr srv" and "openRepository pg (cfg_Storage c) d = (Inr r, d')" and "w_app w = r"
    and "keyed (com d')" and "store_ok (configured_service pg c) (store_of (com d'))"
  shows "let svc = configured_service pg c; w' = serve_requests P F svc (gs_chain srv) qs w; m = backend_tables com (innermost (w_app w'))
    in int (card (dom m)) \<le> sv_MaxUsers (cfg_Server c) \<and>
       (\<forall>i u. m i = Some u \<longrightarrow> i \<noteq> [] \<and> u_Id u = i \<and> u_Name u \<noteq> [] \<and>
          int (length (u_Name u)) \<le> sv_MaxStringBytes (cfg_Server c) \<and>
          int (length (u_Email u)) \<le> sv_MaxStringBytes (cfg_Server c) \<and> 0 \<le> u_Age u \<and> u_Age u \<le> 150 \<and> has_times u) \<and>
       (\<forall>q. (\<forall>K. authenticate B K a (request_ctx q) = None) \<longrightarrow>
          backend_tables com (innermost (w_app (serve_request P F svc (gs_chain srv) q w'))) = m \<and> request_refused P F svc (gs_chain srv) q w')"
proof -
  let ?svc = "configured_service pg c"
  note limits = configured_limits [OF assms(1)]
  from open_postgres [OF openRepository_innermost [OF assms(5)] assms(2)] obtain rc where r: "innermost r = PostgresBackend rc d'" ..
  have "backend_sound pg com wrk (innermost (w_app w))" "store_ok ?svc (backend_tables com (innermost (w_app w)))"
    using assms(3,6-8) r by (simp_all add: backend_sound_def backend_tables_def)
  note ok = requests_steady [OF this, of P F "gs_chain srv" qs, THEN conjunct2]
  have anon: "backend_tables com (innermost (w_app (serve_request P F ?svc (gs_chain srv) q w'))) = backend_tables com (innermost (w_app w')) \<and>
      request_refused P F ?svc (gs_chain srv) q w'" if "\<forall>K. authenticate B K a (request_ctx q) = None" for q w'
    using anonymous_refused [OF assms(4) that, of P F ?svc w'] by simp
  show ?thesis using ok anon unfolding Let_def store_ok_def user_ok_def limits by blast
qed

text \<open>The baseline configuration with the PostgreSQL backend and both layers, over the flaky database.\<close>

definition postgres_config :: "unit Config" where
  "postgres_config = running_config\<lparr>cfg_Storage := (cfg_Storage running_config)\<lparr>sg_Backend := ''postgres'', sg_URL := ''postgres://db'',
     sg_CircuitBreaker := (sg_CircuitBreaker (cfg_Storage running_config))\<lparr>cbc_Enabled := True\<rparr>,
     sg_Cache := (sg_Cache (cfg_Storage running_config))\<lparr>cc_Enabled := True\<rparr>\<rparr>\<rparr>"

definition flaky_postgres :: "tdb postgres" where
  "flaky_postgres =
     \<lparr>pgx_Open = \<lambda>_. None, pgx_wait = \<lambda>_ _. None, pgx_fs = \<lparr>fs_ReadDir = Inr [], fs_ReadFile = \<lambda>_. Inr []\<rparr>, pgx_ord = \<lambda>vs. vs,
      pgx_mig = \<lparr>db_Begin = \<lambda>d. (None, d), db_Lock = \<lambda>d. (None, d), db_Commit = \<lambda>d. (None, d), db_Rollback = \<lambda>d. d,
        db_Ping = \<lambda>d. (None, d), db_CreateVersions = \<lambda>d. (None, d), db_SelectVersions = \<lambda>d. (Inr ([], None), d),
        db_ExecScript = \<lambda>_ d. (None, d), db_InsertVersion = \<lambda>_ d. (None, d), db_DeleteVersion = \<lambda>_ d. (None, d)\<rparr>,
      pgx_db = flaky_db, pgx_retry = \<lambda>_ _. calm\<rparr>"

lemma postgres_valid: "Validate injected (Some postgres_config) = None"
proof -
  have "\<not> blank ''postgres://db''" by code_simp
  then show ?thesis
    by (simp add: Validate_ok validations_def validate_server_def validate_tls_def validate_auth_def
        validate_observability_def validate_ports_def validate_storage_def postgres_config_def running_config_def baseline_def
        words_not_blank minJWTSecretBytes_def validPort_def)
qed

text \<open>A first attempt that succeeds opens the repository, whatever the retry settings.\<close>

lemma first_attempt_opens:
  assumes "pgx_Open pg (sg_URL cfg) = None" and "sg_Backend cfg = ''postgres''"
    and "migrateAndPing (pgx_fs pg) (pgx_ord pg) (pgx_mig pg) d = (Inr (), d')"
  shows "\<exists>r. openRepository pg cfg d = (Inr r, d')"
proof -
  obtain n where n: "nat (maxAttempts (retryCfg (postgres_config_of cfg))) = Suc n"
    using retryCfg_positive(1) [of "postgres_config_of cfg"] by (metis Suc_pred zero_less_nat_eq)
  from assms n have "open_backend pg cfg d = (Inr (PostgresBackend (retryCfg (postgres_config_of cfg)) d'), d')"
    by (simp add: open_backend_def NewPostgresRepository_def postgres_config_of_def drop_value_def)
  then show ?thesis by (simp add: openRepository_def)
qed

lemma flaky_opens: "\<exists>r. openRepository flaky_postgres (cfg_Storage postgres_config) d = (Inr r, d)"
proof (rule first_attempt_opens)
  show "migrateAndPing (pgx_fs flaky_postgres) (pgx_ord flaky_postgres) (pgx_mig flaky_postgres) d = (Inr (), d)"
    by (simp add: flaky_postgres_def migrateAndPing_def sbind_def check_def in_tx_def pendingMigrations_def verifyMigrations_def
        read_versions_def loadAppliedVersions_def query_def ret_def check_applied_def range_ints_def Let_def)
qed (simp_all add: flaky_postgres_def postgres_config_def)

theorem faulty_server_safe_witness:
  "\<exists>a srv r.
     newGRPCServer demo_lib full_buckets plain_tls postgres_config a = Inr srv \<and>
     openRepository flaky_postgres (cfg_Storage postgres_config) (pg_db Map.empty) = (Inr r, pg_db Map.empty) \<and>
     request_refused ParseAddress1 ints (configured_service flaky_postgres postgres_config) (gs_chain srv) anonymous_create (first_world r) \<and>
     backend_tables c_tab (innermost (w_app (serve_request ParseAddress1 ints (configured_service flaky_postgres postgres_config) (gs_chain srv)
       anonymous_create (first_world r)))) = backend_tables c_tab (innermost r)"
proof -
  let ?svc = "configured_service flaky_postgres postgres_config"
  obtain a where a: "NewAuthenticator demo_lib (cfg_Auth running_config) = Inr a" using running_auth [of demo_lib] by blast
  have "\<not> isl (newGRPCServer demo_lib full_buckets plain_tls postgres_config a)"
    by (simp add: newGRPCServer_Inl loadTLSCredentials_def plain_tls_def running_fields postgres_config_def)
  then obtain srv where srv: "newGRPCServer demo_lib full_buckets plain_tls postgres_config a = Inr srv"
    by (cases "newGRPCServer demo_lib full_buckets plain_tls postgres_config a") auto
  obtain r where r: "openRepository flaky_postgres (cfg_Storage postgres_config) (pg_db Map.empty) = (Inr r, pg_db Map.empty)"
    using flaky_opens by blast
  have anon: "\<forall>K. authenticate demo_lib K a (request_ctx anonymous_create) = None"
    by (simp add: anonymous_create_def Background_anonymous)
  have pg: "sg_Backend (cfg_Storage postgres_config) = ''postgres''" by (simp add: postgres_config_def)
  have laws: "fault_laws (pgx_db flaky_postgres) c_tab w_tab" using flaky_db_laws by (simp add: flaky_postgres_def)
  have empty: "keyed (c_tab (pg_db Map.empty))" "store_ok ?svc (store_of (c_tab (pg_db Map.empty)))"
    using normalize_limits_pos(1) [of "service_limits_of (cfg_Server postgres_config)"]
    by (simp_all add: keyed_def store_ok_def store_of_def pg_db_def dom_def)
  from faulty_server_safe [OF postgres_valid pg laws srv r first_world_app empty, where P = ParseAddress1 and F = ints and qs = "[]"] anon
  have "backend_tables c_tab (innermost (w_app (serve_request ParseAddress1 ints ?svc (gs_chain srv) anonymous_create (first_world r)))) =
      backend_tables c_tab (innermost r) \<and> request_refused ParseAddress1 ints ?svc (gs_chain srv) anonymous_create (first_world r)"
    unfolding Let_def serve_requests_def fold_simps id_apply first_world_app by blast
  with srv r show ?thesis by blast
qed

section \<open>What the server sends\<close>

text \<open>
  C14: every message the server sends is well typed. Take the server as configured above, after any
  sequence of requests. A unary request that is answered with a message gets no error beside it, and
  every user in the message has an identifier, a name, an age that fits an \<open>int32\<close> and valid times; a
  page has at most \<open>maxPageSize\<close> users in ascending order and a token the server accepts again. The
  messages of a stream carry valid times and identifiers and a non-negative \<open>int32\<close> count.
\<close>

theorem replies_well_typed:
  assumes "sg_Backend (cfg_Storage c) = ''memory''" and "openRepository pg (cfg_Storage c) d = (Inr r, d')" and "w_app w = r"
  shows "let svc = configured_service pg c; w' = serve_requests P F svc C qs w
    in (\<forall>q reply e. fst (unary_rpc P svc C q w') = Returned (Some reply) e \<longrightarrow> e = None \<and> typed_reply reply) \<and>
       (\<forall>q sent e. fst (stream_rpc F svc C q w') = Returned (Some sent) e \<longrightarrow> list_all typed_sent sent)"
proof -
  let ?svc = "configured_service pg c"
  let ?w = "serve_requests P F ?svc C qs w"
  from opened_store_ok [OF assms(1,2)] assms(3) have "repository_ok (w_app w)" "store_ok ?svc (repository_store (w_app w))" by simp_all
  note ok = requests_store_ok [OF this, of P F C qs]
  have unary: "e = None \<and> typed_reply reply" if run: "fst (unary_rpc P ?svc C q ?w) = Returned (Some reply) e" for q reply e
  proof -
    obtain E ctx dec where q: "q = (E, ctx, dec)" by (cases q)
    obtain w' where "unary_rpc P ?svc C (E, ctx, dec) ?w = (Returned (Some reply) e, w')"
      using run unfolding q by (metis prod.collapse)
    then show ?thesis
    proof (cases rule: unary_rpc_cases)
      case (called c1 c2 call r)
      then have "r = Inr reply" "e = None" by (cases r; simp)+
      with service_over.reply_typed [OF cs.service_over_axioms ok [THEN conjunct1] ok [THEN conjunct2]] called(4) show ?thesis by blast
    qed simp_all
  qed
  have stream: "list_all typed_sent sent" if run: "fst (stream_rpc F ?svc C q ?w) = Returned (Some sent) e" for q sent e
  proof -
    obtain ctx call where q: "q = (ctx, call)" by fastforce
    obtain w' where "stream_rpc F ?svc C (ctx, call) ?w = (Returned (Some sent) e, w')"
      using run unfolding q by (metis prod.collapse)
    then show ?thesis by (cases rule: stream_rpc_cases) (auto dest: run_stream_typed)
  qed
  show ?thesis unfolding Let_def using unary stream by blast
qed


text \<open>An authenticated client creates a user.\<close>

definition answered_world :: "(unit, unit repository) world" where
  "answered_world = (first_world (Plain (MemoryBackend NewMemoryRepository)))\<lparr>w_clk := \<lambda>n. 50 * second + int n\<rparr>"

lemma create_answered:
  "case fst (unary_rpc ParseAddress1 (configured_service pg running_config) demo_chain
     (env1, demo_ctx, Inr (CallCreate (Some create1))) answered_world) of
   Returned (Some (UserReply u)) e \<Rightarrow> u_Name u = ''Ada'' | _ \<Rightarrow> False"
  by code_simp

theorem replies_well_typed_witness:
  "\<forall>pg :: unit postgres. \<exists>u. fst (unary_rpc ParseAddress1 (configured_service pg running_config) demo_chain
     (env1, demo_ctx, Inr (CallCreate (Some create1))) answered_world) = Returned (Some (UserReply u)) None \<and>
     u_Name u = ''Ada'' \<and> typed_user u"
proof
  fix pg :: "unit postgres"
  let ?q = "(env1, demo_ctx, Inr (CallCreate (Some create1)))"
  have mem: "sg_Backend (cfg_Storage running_config) = ''memory''" by (simp add: running_fields)
  have opened: "openRepository pg (cfg_Storage running_config) () = (Inr (Plain (MemoryBackend NewMemoryRepository)), ())"
    by (simp add: openRepository_def open_backend_def running_config_def baseline_def)
  have app: "w_app answered_world = Plain (MemoryBackend NewMemoryRepository)" by (simp add: answered_world_def)
  from create_answered [of pg] obtain u e where
    run: "fst (unary_rpc ParseAddress1 (configured_service pg running_config) demo_chain ?q answered_world) = Returned (Some (UserReply u)) e"
    and ada: "u_Name u = ''Ada''"
    by (auto split: outcome.splits option.splits reply.splits)
  from replies_well_typed [OF mem opened app, where P = ParseAddress1 and F = ints and C = demo_chain and qs = "[]"] run
  have "e = None \<and> typed_reply (UserReply u)"
    unfolding Let_def serve_requests_def fold_simps id_apply by blast
  with run ada show "\<exists>u. fst (unary_rpc ParseAddress1 (configured_service pg running_config) demo_chain ?q answered_world) =
      Returned (Some (UserReply u)) None \<and> u_Name u = ''Ada'' \<and> typed_user u" by simp
qed

end
